(* ===== verification/Prelude.thy ===== *)
theory Prelude
  imports Main "HOL-Library.Word" "HOL-Library.Char_ord" "HOL-Library.List_Lexorder"
    "HOL-Library.Product_Lexorder"
begin

text \<open>
  The prelude of the development: machine words under the names the Go source gives them, the
  panic type and the result type that stand for Go's panics and recovered errors, the sequencing
  operator of results with its inversion rules, the loop whose body may panic, and generic facts
  on lists and words that several components use.
\<close>

section \<open>Words\<close>

type_synonym u8 = "8 word"
type_synonym u32 = "32 word"
type_synonym u64 = "64 word"

named_theorems res_inv \<open>inversion of results that succeeded\<close>
named_theorems amount_arith \<open>checked amounts read as naturals\<close>
named_theorems tbl_simps \<open>look-up and sum laws of the tables\<close>
named_theorems frame \<open>what an operation leaves unchanged\<close>

lemma unat_64_less: "unat (w :: u64) < 2 ^ 64"
  using unsigned_less [of w] by simp

lemma int_unat_64_less: "int (unat (w :: u64)) < 2 ^ 64"
  using of_nat_less_iff [where 'a = int, THEN iffD2, OF unat_64_less [of w]] by simp

lemma unat_32_less: "unat (w :: u32) < 2 ^ 32"
  using unsigned_less [of w] by simp

lemma unat_add_no_wrap:
  fixes a b :: "'a :: len word"
  assumes "unat a + unat b < 2 ^ LENGTH('a)"
  shows "unat (a + b) = unat a + unat b"
  using assms by (simp add: unat_word_ariths)

lemma unat_sub_no_wrap:
  fixes a b :: "'a :: len word"
  assumes "b \<le> a"
  shows "unat (a - b) + unat b = unat a"
  using assms by (simp add: unat_sub word_le_nat_alt)

text \<open>The overflow test the source uses, \<open>m > o + m\<close>, is exact on machine words.\<close>

lemma add_overflow_iff:
  fixes a b :: "'a :: len word"
  shows "a > b + a \<longleftrightarrow> unat a + unat b \<ge> 2 ^ LENGTH('a)"
proof
  assume lt: "a > b + a"
  show "unat a + unat b \<ge> 2 ^ LENGTH('a)"
  proof (rule ccontr)
    assume "\<not> ?thesis"
    then have "unat (b + a) = unat b + unat a"
      by (intro unat_add_no_wrap) simp
    with lt show False by (simp add: word_less_nat_alt)
  qed
next
  assume ge: "unat a + unat b \<ge> 2 ^ LENGTH('a)"
  have "unat (b + a) = (unat b + unat a) mod 2 ^ LENGTH('a)"
    by (simp add: unat_word_ariths)
  also have "\<dots> = (unat b + unat a - 2 ^ LENGTH('a)) mod 2 ^ LENGTH('a)"
    using ge by (simp add: le_mod_geq add.commute)
  also have "\<dots> \<le> unat b + unat a - 2 ^ LENGTH('a)"
    by simp
  also have "\<dots> < unat a"
  proof -
    have "unat b < 2 ^ LENGTH('a)" by simp
    with ge show ?thesis by linarith
  qed
  finally show "a > b + a" by (simp add: word_less_nat_alt)
qed

lemma clamp_bounds:
  fixes lo hi x :: "'a :: linorder"
  assumes "lo \<le> hi"
  shows "lo \<le> (if (if x < lo then lo else x) > hi then hi else (if x < lo then lo else x)) \<and>
         (if (if x < lo then lo else x) > hi then hi else (if x < lo then lo else x)) \<le> hi"
  using assms by auto

section \<open>Panics and results\<close>

text \<open>
  The source reports a failed check with \<open>panic\<close> and recovers at the boundary of a
  transaction or of a block. \<open>Assert\<close> is \<open>opAssert\<close>, \<open>mustSuccess\<close> and the
  \<open>MustExist\<close> family with their messages, \<open>Overflow\<close> the amount arithmetic, \<open>TableErr\<close>
  a failed \<open>Create\<close> or \<open>Modify\<close> of a table row, and \<open>NilDeref\<close> the run-time panic of
  reading a field of a row that does not exist.
\<close>

datatype panic =
    Assert string
  | Overflow string
  | TableErr string
  | NilDeref

type_synonym 'a res = "panic + 'a"

definition rbind :: "'e + 'a \<Rightarrow> ('a \<Rightarrow> 'e + 'b) \<Rightarrow> 'e + 'b" where
  "rbind m f = (case m of Inl e \<Rightarrow> Inl e | Inr a \<Rightarrow> f a)"

lemma rbind_simps [simp]:
  "rbind (Inl e) f = Inl e"
  "rbind (Inr a) f = f a"
  by (simp_all add: rbind_def)

lemma rbind_Inr_iff [res_inv]: "rbind m f = Inr r \<longleftrightarrow> (\<exists>a. m = Inr a \<and> f a = Inr r)"
  by (cases m) simp_all

lemma rbind_assoc: "rbind (rbind m f) g = rbind m (\<lambda>a. rbind (f a) g)"
  by (cases m) simp_all

lemma rbind_cong [fundef_cong]:
  "m = m' \<Longrightarrow> (\<And>a. m' = Inr a \<Longrightarrow> f a = f' a) \<Longrightarrow> rbind m f = rbind m' f'"
  by (cases m') simp_all

definition opAssert :: "bool \<Rightarrow> string \<Rightarrow> unit res" where
  "opAssert b val = (if b then Inr () else Inl (Assert val))"

lemma opAssert_Inr_iff [res_inv]: "opAssert b val = Inr u \<longleftrightarrow> b"
  by (simp add: opAssert_def)

lemma opAssert_simps [simp]:
  "opAssert True val = Inr ()"
  "opAssert False val = Inl (Assert val)"
  by (simp_all add: opAssert_def)

definition is_ok :: "'e + 'a \<Rightarrow> bool" where
  "is_ok m = (case m of Inl _ \<Rightarrow> False | Inr _ \<Rightarrow> True)"

lemma is_ok_simps [simp]: "\<not> is_ok (Inl e)" "is_ok (Inr a)"
  by (simp_all add: is_ok_def)

lemma is_okE: "is_ok m \<Longrightarrow> (\<And>a. m = Inr a \<Longrightarrow> P) \<Longrightarrow> P"
  by (cases m) simp_all

text \<open>A loop whose body may panic: the first panic ends it.\<close>

fun for_each :: "('a \<Rightarrow> 's \<Rightarrow> 'e + 's) \<Rightarrow> 'a list \<Rightarrow> 's \<Rightarrow> 'e + 's" where
  "for_each f [] s = Inr s"
| "for_each f (x # xs) s = rbind (f x s) (for_each f xs)"

lemma for_each_append:
  "for_each f (xs @ ys) s = rbind (for_each f xs s) (for_each f ys)"
proof (induction xs arbitrary: s)
  case (Cons x xs)
  have "for_each f (xs @ ys) = (\<lambda>a. rbind (for_each f xs a) (for_each f ys))"
    by (rule ext) (rule Cons.IH)
  then show ?case by (simp add: rbind_assoc)
qed simp

lemma for_each_invariant:
  assumes run: "for_each f xs s = Inr s'" and start: "P s"
    and step: "\<And>x s s'. x \<in> set xs \<Longrightarrow> P s \<Longrightarrow> f x s = Inr s' \<Longrightarrow> P s'"
  shows "P s'"
  using run start step
proof (induction xs arbitrary: s)
  case Nil
  then show ?case by simp
next
  case (Cons x xs)
  from Cons.prems(1) obtain t where t: "f x s = Inr t" and rest: "for_each f xs t = Inr s'"
    by (auto simp: rbind_Inr_iff)
  have "P t" by (rule Cons.prems(3) [OF _ Cons.prems(2) t]) simp
  from rest this show ?case
  proof (rule Cons.IH)
    fix y u u'
    assume "y \<in> set xs" "P u" "f y u = Inr u'"
    then show "P u'" by (intro Cons.prems(3) [of y u u']) simp_all
  qed
qed

end
