(* ===== verification/Decimal.thy ===== *)
theory Decimal
  imports Prelude
begin

text \<open>
  Decimal numerals as the source reads and writes them: \<open>show_nat\<close> is \<open>%d\<close> on an unsigned
  value and \<open>big.Int.String\<close> on a non-negative one, \<open>pad_left\<close> the zero padding of
  \<open>%06d\<close>, \<open>atoi\<close> is \<open>strconv.Atoi\<close> on a 64-bit platform, \<open>big_of_string\<close> is
  \<open>big.Int.SetString(s, 10)\<close>, \<open>split_on\<close> is \<open>strings.Split\<close> with a one-byte separator and
  \<open>has_suffix\<close> is \<open>strings.HasSuffix\<close>. The round-trip laws are what the components use.
\<close>

definition digit_char :: "nat \<Rightarrow> char" where
  "digit_char d = char_of (48 + d)"

definition char_digit :: "char \<Rightarrow> nat option" where
  "char_digit c = (let k = of_char c in if 48 \<le> k \<and> k \<le> 57 then Some (k - 48) else None)"

fun show_nat :: "nat \<Rightarrow> string" where
  "show_nat n = (if n < 10 then [digit_char n] else show_nat (n div 10) @ [digit_char (n mod 10)])"

declare show_nat.simps [simp del]

fun read_digits :: "nat \<Rightarrow> string \<Rightarrow> nat option" where
  "read_digits acc [] = Some acc"
| "read_digits acc (c # cs) =
     (case char_digit c of None \<Rightarrow> None | Some d \<Rightarrow> read_digits (acc * 10 + d) cs)"

definition read_nat :: "string \<Rightarrow> nat option" where
  "read_nat s = (if s = [] then None else read_digits 0 s)"

definition pad_left :: "nat \<Rightarrow> char \<Rightarrow> string \<Rightarrow> string" where
  "pad_left w c s = replicate (w - length s) c @ s"

definition read_signed :: "string \<Rightarrow> int option" where
  "read_signed s =
     (case s of
        [] \<Rightarrow> None
      | c # cs \<Rightarrow>
          if c = CHR ''-'' then map_option (\<lambda>n. - int n) (read_nat cs)
          else if c = CHR ''+'' then map_option int (read_nat cs)
          else map_option int (read_nat s))"

definition atoi :: "string \<Rightarrow> int option" where
  "atoi s =
     (case read_signed s of
        None \<Rightarrow> None
      | Some v \<Rightarrow> if - (2 ^ 63) \<le> v \<and> v < 2 ^ 63 then Some v else None)"

definition big_of_string :: "string \<Rightarrow> int option" where
  "big_of_string s = read_signed s"

definition string_of_big :: "int \<Rightarrow> string" where
  "string_of_big v = (if v < 0 then CHR ''-'' # show_nat (nat (- v)) else show_nat (nat v))"

fun split_on :: "char \<Rightarrow> string \<Rightarrow> string list" where
  "split_on sep [] = [[]]"
| "split_on sep (c # cs) =
     (if c = sep then [] # split_on sep cs
      else (case split_on sep cs of [] \<Rightarrow> [[c]] | p # ps \<Rightarrow> (c # p) # ps))"

definition has_suffix :: "string \<Rightarrow> string \<Rightarrow> bool" where
  "has_suffix s suf = (length suf \<le> length s \<and> drop (length s - length suf) s = suf)"

section \<open>Laws\<close>

lemma char_digit_digit_char [simp]: "d < 10 \<Longrightarrow> char_digit (digit_char d) = Some d"
  by (simp add: char_digit_def digit_char_def Let_def)

definition is_digit :: "char \<Rightarrow> bool" where
  "is_digit c = (char_digit c \<noteq> None)"

lemma is_digit_digit_char [simp]: "d < 10 \<Longrightarrow> is_digit (digit_char d)"
  by (simp add: is_digit_def)

lemma is_digit_not_sign [simp]:
  "is_digit c \<Longrightarrow> c \<noteq> CHR ''-''" "is_digit c \<Longrightarrow> c \<noteq> CHR ''+''" "is_digit c \<Longrightarrow> c \<noteq> CHR ''.''"
  by (auto simp: is_digit_def char_digit_def)

lemma show_nat_nonempty [simp]: "show_nat n \<noteq> []"
  by (subst show_nat.simps) simp

lemma show_nat_digits: "c \<in> set (show_nat n) \<Longrightarrow> is_digit c"
proof (induction n rule: show_nat.induct)
  case (1 n)
  then show ?case
    by (cases "n < 10") (auto simp: show_nat.simps [of n])
qed

lemma read_digits_append:
  "read_digits acc (xs @ ys) =
     (case read_digits acc xs of None \<Rightarrow> None | Some a \<Rightarrow> read_digits a ys)"
  by (induction xs arbitrary: acc) (auto split: option.splits)

lemma read_digits_show_nat: "read_digits 0 (show_nat n) = Some n"
proof (induction n rule: show_nat.induct)
  case (1 n)
  then show ?case
    by (cases "n < 10") (simp_all add: show_nat.simps [of n] read_digits_append)
qed

lemma read_nat_show_nat [simp]: "read_nat (show_nat n) = Some n"
  by (simp add: read_nat_def read_digits_show_nat)

lemma read_digits_zeros: "read_digits 0 (replicate k (digit_char 0) @ s) = read_digits 0 s"
  by (induction k) simp_all

lemma read_nat_pad [simp]: "read_nat (pad_left w (digit_char 0) (show_nat n)) = Some n"
  by (simp add: read_nat_def pad_left_def read_digits_zeros read_digits_show_nat)

lemma pad_left_digits: "c \<in> set (pad_left w (digit_char 0) (show_nat n)) \<Longrightarrow> is_digit c"
  by (auto simp: pad_left_def show_nat_digits)

lemma read_signed_digits:
  assumes "s \<noteq> []" and "\<And>c. c \<in> set s \<Longrightarrow> is_digit c"
  shows "read_signed s = map_option int (read_nat s)"
proof -
  from assms(1) obtain c cs where s: "s = c # cs" by (cases s) auto
  with assms(2) have "is_digit c" by simp
  then have "c \<noteq> CHR ''-''" "c \<noteq> CHR ''+''" by simp_all
  then show ?thesis by (simp add: read_signed_def s)
qed

lemma read_signed_show_nat [simp]: "read_signed (show_nat n) = Some (int n)"
  by (simp add: read_signed_digits show_nat_digits)

lemma pad_left_nonempty [simp]: "s \<noteq> [] \<Longrightarrow> pad_left w c s \<noteq> []"
  by (simp add: pad_left_def)

lemma read_signed_pad [simp]:
  "read_signed (pad_left w (digit_char 0) (show_nat n)) = Some (int n)"
proof -
  have "read_signed (pad_left w (digit_char 0) (show_nat n)) =
          map_option int (read_nat (pad_left w (digit_char 0) (show_nat n)))"
    by (rule read_signed_digits) (auto dest: pad_left_digits)
  then show ?thesis by simp
qed

lemma atoi_show_nat: "n < 2 ^ 63 \<Longrightarrow> atoi (show_nat n) = Some (int n)"
  by (simp add: atoi_def)

lemma atoi_pad: "n < 2 ^ 63 \<Longrightarrow> atoi (pad_left w (digit_char 0) (show_nat n)) = Some (int n)"
  by (simp add: atoi_def)

theorem big_of_string_of_big [simp]: "big_of_string (string_of_big v) = Some v"
proof (cases "v < 0")
  case True
  then show ?thesis
    by (simp add: big_of_string_def string_of_big_def read_signed_def)
next
  case False
  then show ?thesis
    by (simp add: big_of_string_def string_of_big_def)
qed

lemma length_show_nat_le: "n < 10 ^ k \<Longrightarrow> 0 < k \<Longrightarrow> length (show_nat n) \<le> k"
proof (induction n arbitrary: k rule: show_nat.induct)
  case (1 n)
  show ?case
  proof (cases "n < 10")
    case True
    with "1.prems" show ?thesis by (simp add: show_nat.simps [of n])
  next
    case False
    from "1.prems"(2) obtain j where k: "k = Suc j" by (cases k) auto
    with "1.prems"(1) False have j: "0 < j" by (cases j) auto
    from "1.prems"(1) k have "n div 10 < 10 ^ j" by simp
    with "1.IH" False j have "length (show_nat (n div 10)) \<le> j" by blast
    with False k show ?thesis by (simp add: show_nat.simps [of n])
  qed
qed

lemma length_pad_left: "length s \<le> w \<Longrightarrow> length (pad_left w c s) = w"
  by (simp add: pad_left_def)

lemma split_on_none: "sep \<notin> set s \<Longrightarrow> split_on sep s = [s]"
  by (induction s) auto

lemma split_on_append: "sep \<notin> set a \<Longrightarrow> split_on sep (a @ sep # b) = a # split_on sep b"
  by (induction a) auto

lemma has_suffix_append [simp]: "has_suffix (s @ suf) suf"
  by (simp add: has_suffix_def)

end
