(* ===== verification/Amount.thy ===== *)
theory Amount
  imports Decimal
begin

text \<open>
  Token amounts: \<open>prototype/coin.go\<close> and \<open>prototype/vest.go\<close>. A \<open>Coin\<close> (COS) and a \<open>Vest\<close>
  (VEST) are both a message with the one field \<open>Value uint64\<close>; the model keeps the 64-bit
  value. \<open>Add\<close>, \<open>Sub\<close> and \<open>Mul\<close> mutate the receiver and panic on overflow; here they return
  the new value or the panic. The lemmas read every successful operation as exact arithmetic on
  naturals, which is what all ledger proofs use.
\<close>

type_synonym coin = u64
type_synonym vest = u64

definition COSTokenDecimals :: u64 where
  "COSTokenDecimals = 1000000"

definition CoinSymbol :: string where
  "CoinSymbol = ''COS''"

definition VestSymbol :: string where
  "VestSymbol = ''VEST''"

definition MaxUint64 :: u64 where
  "MaxUint64 = 18446744073709551615"

section \<open>Coin\<close>

definition coin_NonZero :: "coin \<Rightarrow> bool" where
  "coin_NonZero m = (m \<noteq> 0)"

definition coin_Add :: "coin \<Rightarrow> coin \<Rightarrow> coin res" where
  "coin_Add m b = (if m > b + m then Inl (Overflow ''Coin Add Overflow'') else Inr (m + b))"

definition coin_Sub :: "coin \<Rightarrow> coin \<Rightarrow> coin res" where
  "coin_Sub m b = (if m < b then Inl (Overflow ''Coin Sub Overflow'') else Inr (m - b))"

definition coin_Mul :: "coin \<Rightarrow> u64 \<Rightarrow> coin res" where
  "coin_Mul m c =
     (if m = 0 then Inr m
      else if MaxUint64 div m < c then Inl (Overflow ''Coin Mul Overflow'')
      else Inr (m * c))"

definition coin_ToString :: "coin \<Rightarrow> string" where
  "coin_ToString m =
     (let high = m div COSTokenDecimals; low = m mod COSTokenDecimals
      in show_nat (unat high) @ ''.'' @ pad_left 6 (digit_char 0) (show_nat (unat low))
           @ '' '' @ CoinSymbol)"

datatype amount_error = ErrCoinFormatErr | ErrVestFormatErr

text \<open>
  \<open>CoinFromString\<close> as written: the fractional part is checked for its length but both numbers
  are read from \<open>res[0]\<close>.
\<close>

definition CoinFromString :: "string \<Rightarrow> amount_error + coin" where
  "CoinFromString buf =
     (if length buf < 7 + 4 then Inl ErrCoinFormatErr
      else if \<not> has_suffix buf ('' '' @ CoinSymbol) then Inl ErrCoinFormatErr
      else (let str = take (length buf - 4) buf; parts = split_on (CHR ''.'') str
            in if length parts \<noteq> 2 then Inl ErrCoinFormatErr
               else if length (parts ! 1) \<noteq> 6 then Inl ErrCoinFormatErr
               else (case atoi (parts ! 0) of
                       None \<Rightarrow> Inl ErrCoinFormatErr
                     | Some high \<Rightarrow>
                         (case atoi (parts ! 0) of
                            None \<Rightarrow> Inl ErrCoinFormatErr
                          | Some low \<Rightarrow>
                              Inr (word_of_int high * COSTokenDecimals + word_of_int low)))))"

definition coin_ToVest :: "coin \<Rightarrow> vest" where
  "coin_ToVest m = m"

section \<open>Vest\<close>

definition vest_Add :: "vest \<Rightarrow> vest \<Rightarrow> vest res" where
  "vest_Add m b = (if m > b + m then Inl (Overflow ''Vest Add Overflow'') else Inr (m + b))"

definition vest_Sub :: "vest \<Rightarrow> vest \<Rightarrow> vest res" where
  "vest_Sub m b = (if m < b then Inl (Overflow ''Vest Sub Overflow'') else Inr (m - b))"

definition vest_Mul :: "vest \<Rightarrow> u64 \<Rightarrow> vest res" where
  "vest_Mul m c =
     (if m = 0 then Inr m
      else if MaxUint64 div m < c then Inl (Overflow ''Vest Mul Overflow'')
      else Inr (m * c))"

definition vest_ToCoin :: "vest \<Rightarrow> coin" where
  "vest_ToCoin m = m"

definition vest_ToString :: "vest \<Rightarrow> string" where
  "vest_ToString m =
     (let high = m div COSTokenDecimals; low = m mod COSTokenDecimals
      in show_nat (unat high) @ ''.'' @ pad_left 6 (digit_char 0) (show_nat (unat low))
           @ '' '' @ VestSymbol)"

definition VestFromString :: "string \<Rightarrow> amount_error + coin" where
  "VestFromString buf =
     (if length buf < 7 + 5 then Inl ErrVestFormatErr
      else if \<not> has_suffix buf ('' '' @ VestSymbol) then Inl ErrVestFormatErr
      else (let str = take (length buf - 5) buf; parts = split_on (CHR ''.'') str
            in if length parts \<noteq> 2 then Inl ErrVestFormatErr
               else if length (parts ! 1) \<noteq> 6 then Inl ErrVestFormatErr
               else (case atoi (parts ! 0) of
                       None \<Rightarrow> Inl ErrVestFormatErr
                     | Some high \<Rightarrow>
                         (case atoi (parts ! 1) of
                            None \<Rightarrow> Inl ErrVestFormatErr
                          | Some low \<Rightarrow>
                              Inr (word_of_int high * COSTokenDecimals + word_of_int low)))))"

section \<open>Exactness of the checked arithmetic\<close>

lemma coin_Add_iff:
  "coin_Add m b = Inr r \<longleftrightarrow> unat m + unat b < 2 ^ 64 \<and> unat r = unat m + unat b"
proof -
  have ov: "m > b + m \<longleftrightarrow> unat m + unat b \<ge> 2 ^ 64"
    using add_overflow_iff [of b m] by simp
  have "unat m + unat b < 2 ^ 64 \<Longrightarrow> unat (m + b) = unat m + unat b"
    by (rule unat_add_no_wrap) simp
  then show ?thesis
    unfolding coin_Add_def ov by (auto simp: word_unat_eq_iff)
qed

lemma vest_Add_coin_Add: "(vest_Add m b = Inr r) = (coin_Add m b = Inr r)"
  by (simp add: vest_Add_def coin_Add_def)

lemma coin_Sub_iff:
  "coin_Sub m b = Inr r \<longleftrightarrow> unat b \<le> unat m \<and> unat r + unat b = unat m"
proof -
  have "b \<le> m \<Longrightarrow> unat (m - b) + unat b = unat m"
    by (rule unat_sub_no_wrap)
  then show ?thesis
    unfolding coin_Sub_def
    by (auto simp: word_less_nat_alt word_le_nat_alt not_less word_unat_eq_iff)
qed

lemma vest_Sub_coin_Sub: "(vest_Sub m b = Inr r) = (coin_Sub m b = Inr r)"
  by (simp add: vest_Sub_def coin_Sub_def)

lemma mul_overflow_iff:
  fixes m c :: u64
  assumes "m \<noteq> 0"
  shows "MaxUint64 div m < c \<longleftrightarrow> unat m * unat c \<ge> 2 ^ 64"
proof -
  have pos: "0 < unat m" using assms by (simp add: unat_gt_0)
  have "MaxUint64 div m < c \<longleftrightarrow> (2 ^ 64 - 1) div unat m < unat c"
    by (simp add: word_less_nat_alt unat_div MaxUint64_def)
  also have "\<dots> \<longleftrightarrow> 2 ^ 64 - 1 < unat c * unat m"
    using pos by (rule div_less_iff_less_mult)
  also have "\<dots> \<longleftrightarrow> unat m * unat c \<ge> 2 ^ 64"
    by (auto simp: mult.commute)
  finally show ?thesis .
qed

lemma coin_Mul_iff:
  "coin_Mul m c = Inr r \<longleftrightarrow> unat m * unat c < 2 ^ 64 \<and> unat r = unat m * unat c"
proof (cases "m = 0")
  case True
  then show ?thesis by (auto simp: coin_Mul_def unat_eq_zero)
next
  case False
  have "unat m * unat c < 2 ^ 64 \<Longrightarrow> unat (m * c) = unat m * unat c"
    by (simp add: unat_word_ariths)
  with False show ?thesis
    unfolding coin_Mul_def mul_overflow_iff [OF False]
    by (auto simp: word_unat_eq_iff)
qed

lemma vest_Mul_coin_Mul: "(vest_Mul m c = Inr r) = (coin_Mul m c = Inr r)"
  by (simp add: vest_Mul_def coin_Mul_def)

lemmas vest_Add_iff = coin_Add_iff [folded vest_Add_coin_Add]
lemmas vest_Sub_iff = coin_Sub_iff [folded vest_Sub_coin_Sub]
lemmas vest_Mul_iff = coin_Mul_iff [folded vest_Mul_coin_Mul]

lemmas amount_iffs [amount_arith] =
  coin_Add_iff vest_Add_iff coin_Sub_iff vest_Sub_iff coin_Mul_iff vest_Mul_iff

text \<open>The same read as integers, the form the sums of the ledger need.\<close>

lemma unat_less_uint: "unat x + unat y < 2 ^ 64 \<longleftrightarrow> uint x + uint y < 2 ^ 64"
  using of_nat_less_iff [where 'a = int, of "unat x + unat y" "2 ^ 64"] by simp

lemma unat_add_uint: "unat r = unat x + unat y \<longleftrightarrow> uint r = uint x + uint y"
  using of_nat_eq_iff [where 'a = int, of "unat r" "unat x + unat y"] by simp

lemma unat_add_uint2: "unat x + unat y = unat r \<longleftrightarrow> uint x + uint y = uint r"
  using of_nat_eq_iff [where 'a = int, of "unat x + unat y" "unat r"] by simp

lemma unat_le_uint: "unat x \<le> unat y \<longleftrightarrow> uint x \<le> uint y"
  using of_nat_le_iff [where 'a = int, of "unat x" "unat y"] by simp

lemmas unat_eq_uint_arith = unat_less_uint unat_add_uint unat_add_uint2 unat_le_uint

lemma coin_Add_uint:
  "coin_Add m b = Inr r \<longleftrightarrow> uint m + uint b < 2 ^ 64 \<and> uint r = uint m + uint b"
  by (simp only: coin_Add_iff unat_eq_uint_arith)

lemma coin_Sub_uint:
  "coin_Sub m b = Inr r \<longleftrightarrow> uint b \<le> uint m \<and> uint r + uint b = uint m"
  by (simp only: coin_Sub_iff unat_eq_uint_arith)

lemma vest_Add_uint:
  "vest_Add m b = Inr r \<longleftrightarrow> uint m + uint b < 2 ^ 64 \<and> uint r = uint m + uint b"
  by (simp only: vest_Add_iff unat_eq_uint_arith)

lemma vest_Sub_uint:
  "vest_Sub m b = Inr r \<longleftrightarrow> uint b \<le> uint m \<and> uint r + uint b = uint m"
  by (simp only: vest_Sub_iff unat_eq_uint_arith)

lemmas amount_uint = coin_Add_uint coin_Sub_uint vest_Add_uint vest_Sub_uint

lemma amount_conversions [simp]:
  "coin_ToVest m = m" "vest_ToCoin m = m"
  by (simp_all add: coin_ToVest_def vest_ToCoin_def)

section \<open>Printing and parsing\<close>

lemma unat_high_low:
  "unat (v div COSTokenDecimals) = unat v div 1000000"
  "unat (v mod COSTokenDecimals) = unat v mod 1000000"
  by (simp_all add: unat_div unat_mod COSTokenDecimals_def)

lemma high_less: "unat (v :: u64) div 1000000 < 2 ^ 63"
  using unat_64_less [of v] by simp

text \<open>The text both printers produce before the symbol.\<close>

definition amount_digits :: "u64 \<Rightarrow> string" where
  "amount_digits v =
     show_nat (unat v div 1000000) @ CHR ''.'' # pad_left 6 (digit_char 0) (show_nat (unat v mod 1000000))"

lemma coin_ToString_alt: "coin_ToString v = amount_digits v @ '' COS''"
  by (simp add: coin_ToString_def amount_digits_def Let_def unat_high_low CoinSymbol_def)

lemma vest_ToString_alt: "vest_ToString v = amount_digits v @ '' VEST''"
  by (simp add: vest_ToString_def amount_digits_def Let_def unat_high_low VestSymbol_def)

lemma length_low_digits: "length (pad_left 6 (digit_char 0) (show_nat (n mod 1000000))) = 6"
  by (rule length_pad_left) (rule length_show_nat_le, simp_all)

lemma length_amount_digits: "length (amount_digits v) \<ge> 8"
proof -
  have "length (show_nat (unat v div 1000000)) \<ge> 1"
    by (simp add: Suc_le_eq)
  then show ?thesis by (simp add: amount_digits_def length_low_digits)
qed

lemma split_amount_digits:
  "split_on (CHR ''.'') (amount_digits v) =
     [show_nat (unat v div 1000000), pad_left 6 (digit_char 0) (show_nat (unat v mod 1000000))]"
proof -
  have a: "CHR ''.'' \<notin> set (show_nat n)" for n
    using show_nat_digits [of "CHR ''.''" n] is_digit_not_sign(3) by blast
  have b: "CHR ''.'' \<notin> set (pad_left w (digit_char 0) (show_nat n))" for w n
    using pad_left_digits [of "CHR ''.''" w n] is_digit_not_sign(3) by blast
  show ?thesis
    by (simp add: amount_digits_def split_on_append a split_on_none b)
qed

lemma atoi_high: "atoi (show_nat (unat (v :: u64) div 1000000)) = Some (int (unat v div 1000000))"
  by (rule atoi_show_nat) (rule high_less)

lemma atoi_low:
  "atoi (pad_left 6 (digit_char 0) (show_nat (n mod 1000000))) = Some (int (n mod 1000000))"
  by (rule atoi_pad) (rule less_trans [OF mod_less_divisor], simp_all)

lemma amount_recombine:
  "of_nat (unat v div 1000000) * COSTokenDecimals + of_nat (unat v mod 1000000) = (v :: u64)"
proof -
  have "of_nat (unat v div 1000000) * COSTokenDecimals + of_nat (unat v mod 1000000)
        = (of_nat (unat v div 1000000 * 1000000 + unat v mod 1000000) :: u64)"
    by (simp only: COSTokenDecimals_def of_nat_add of_nat_mult of_nat_numeral)
  also have "\<dots> = v"
    by (simp only: div_mult_mod_eq) simp
  finally show ?thesis .
qed

text \<open>
  C17. Every VEST amount survives printing and parsing: \<open>VestFromString\<close> applied to the output of
  \<open>Vest.ToString\<close> returns the amount printed, for all 64-bit values.
\<close>

theorem vest_string_roundtrip: "VestFromString (vest_ToString v) = Inr v"
proof -
  have take_: "take (length (vest_ToString v) - 5) (vest_ToString v) = amount_digits v"
    by (simp add: vest_ToString_alt)
  have "\<not> length (vest_ToString v) < 7 + 5"
    using length_amount_digits [of v] by (simp add: vest_ToString_alt)
  moreover have "has_suffix (vest_ToString v) ('' '' @ VestSymbol)"
    using has_suffix_append [of "amount_digits v" "'' VEST''"]
    by (simp add: vest_ToString_alt VestSymbol_def)
  ultimately show ?thesis
    unfolding VestFromString_def take_ split_amount_digits Let_def
    by (simp add: length_low_digits atoi_high atoi_low amount_recombine
          del: of_nat_div of_nat_mod)
qed

text \<open>
  C18. \<open>CoinFromString\<close> does not invert \<open>Coin.ToString\<close>: it reads the whole part twice and drops
  the fraction, so a printed coin of \<open>h.l\<close> COS is read back as \<open>h * 1000001\<close>.
\<close>

theorem coin_string_parse:
  "CoinFromString (coin_ToString c) = Inr (c div COSTokenDecimals * 1000001)"
proof -
  have take_: "take (length (coin_ToString c) - 4) (coin_ToString c) = amount_digits c"
    by (simp add: coin_ToString_alt)
  have "\<not> length (coin_ToString c) < 7 + 4"
    using length_amount_digits [of c] by (simp add: coin_ToString_alt)
  moreover have "has_suffix (coin_ToString c) ('' '' @ CoinSymbol)"
    using has_suffix_append [of "amount_digits c" "'' COS''"]
    by (simp add: coin_ToString_alt CoinSymbol_def)
  moreover have "word_of_int (int (unat c div 1000000)) = c div COSTokenDecimals"
    by (simp flip: unat_high_low)
  ultimately show ?thesis
    unfolding CoinFromString_def take_ split_amount_digits Let_def
    by (simp add: length_low_digits atoi_high del: of_nat_div of_int_of_nat_eq)
       (simp add: COSTokenDecimals_def algebra_simps)
qed

end
