(* ===== verification/ResourceLimit.thy ===== *)
theory ResourceLimit
  imports Amount
begin

text \<open>
  The stamina meter of \<open>utils/resource_limit.go\<close>: usage decays linearly over a window of blocks,
  computed with a fixed-point average over big integers. \<open>big.NewInt(int64(x))\<close> reads a 64-bit
  word as a signed value (\<open>sint\<close>), \<open>big.Int.Div\<close> and \<open>big.Int.Mod\<close> by a positive divisor are
  HOL's \<open>div\<close> and \<open>mod\<close>, and \<open>big.Int.Uint64\<close> gives the low 64 bits of the absolute value
  (\<open>big_Uint64\<close>). The lemmas show that, on amounts below \<open>2 ^ 63\<close>, the average neither loses nor
  invents stamina: consuming adds exactly what was consumed, idling only decays, and the daily
  budget follows the measured load one percent at a time.
\<close>

section \<open>Constants (common/constants)\<close>

definition LimitPrecision :: int where "LimitPrecision = 1000 * 1000"
definition WindowSize :: u64 where "WindowSize = 60 * 60 * 24"
definition MaxStaminaPerBlock :: u64 where "MaxStaminaPerBlock = 100000"
definition OneDayStamina :: u64 where "OneDayStamina = MaxStaminaPerBlock * WindowSize"
definition TpsWindowSize :: u64 where "TpsWindowSize = 60"

definition FreeStaminaOverFlow :: string where "FreeStaminaOverFlow = ''freeStaminaOverFlow''"
definition StakeStaminaOverFlow :: string where "StakeStaminaOverFlow = ''stakeStaminaOverFlow''"

section \<open>The moving average\<close>

definition big_Uint64 :: "int \<Rightarrow> u64" where
  "big_Uint64 x = word_of_int \<bar>x\<bar>"

definition divideCeilBig :: "int \<Rightarrow> int \<Rightarrow> int" where
  "divideCeilBig num den =
     (let tmp = num div den
      in if big_Uint64 (num mod den) > 0 then tmp + 1 else tmp)"

definition calculateEMA :: "u64 \<Rightarrow> u64 \<Rightarrow> u64 \<Rightarrow> u64 \<Rightarrow> u64 \<Rightarrow> u64" where
  "calculateEMA oldTrxs newTrxs lastTime now period =
     (let blocks = sint period;
          oldTrxsBig = sint oldTrxs * LimitPrecision;
          newTrxsBig = sint newTrxs * LimitPrecision;
          avgOld = divideCeilBig oldTrxsBig blocks;
          avgUse = divideCeilBig newTrxsBig blocks;
          avgOld =
            (if now > lastTime then
               (if now < lastTime + big_Uint64 blocks then
                  (let delta = now - lastTime;
                       gap = sint (big_Uint64 blocks - delta) * LimitPrecision;
                       decay = divideCeilBig gap blocks
                   in avgOld * decay div LimitPrecision)
                else 0)
             else avgOld)
      in big_Uint64 ((avgOld + avgUse) * blocks div LimitPrecision))"

definition calculateNewStaminaEMA :: "u64 \<Rightarrow> u64 \<Rightarrow> u64 \<Rightarrow> u64 \<Rightarrow> u64" where
  "calculateNewStaminaEMA oldStamina useStamina lastTime now =
     calculateEMA oldStamina useStamina lastTime now WindowSize"

definition calculateTpsEMA :: "u64 \<Rightarrow> u64 \<Rightarrow> u64 \<Rightarrow> u64 \<Rightarrow> u64" where
  "calculateTpsEMA oldTrxs newTrxs lastTime now =
     calculateEMA oldTrxs newTrxs lastTime now TpsWindowSize"

section \<open>ResourceLimiter\<close>

definition Consume :: "u64 \<Rightarrow> u64 \<Rightarrow> u64 \<Rightarrow> u64 \<Rightarrow> u64 \<Rightarrow> bool \<times> u64" where
  "Consume oldResource num preTime now maxStamina =
     (let newStamina = calculateNewStaminaEMA oldResource 0 preTime now
      in if maxStamina < newStamina then (False, 0)
         else if maxStamina - newStamina < num then (False, 0)
         else (True, calculateNewStaminaEMA newStamina num now now))"

definition ConsumeFree :: "u64 \<Rightarrow> u64 \<Rightarrow> u64 \<Rightarrow> u64 \<Rightarrow> u64 \<Rightarrow> bool \<times> u64" where
  "ConsumeFree maxFreeStamina oldResource num preTime now =
     (let newFreeStamina = calculateNewStaminaEMA oldResource 0 preTime now
      in if maxFreeStamina < newFreeStamina then (False, 0)
         else if maxFreeStamina - newFreeStamina < num then (False, 0)
         else (True, calculateNewStaminaEMA newFreeStamina num now now))"

definition GetStakeLeft :: "u64 \<Rightarrow> u64 \<Rightarrow> u64 \<Rightarrow> u64 \<Rightarrow> string \<times> u64" where
  "GetStakeLeft oldResource preTime now maxStamina =
     (let newStamina = calculateNewStaminaEMA oldResource 0 preTime now
      in if maxStamina < newStamina then (StakeStaminaOverFlow, 0)
         else ('''', maxStamina - newStamina))"

definition GetFreeLeft :: "u64 \<Rightarrow> u64 \<Rightarrow> u64 \<Rightarrow> u64 \<Rightarrow> string \<times> u64" where
  "GetFreeLeft maxFreeStamina oldResource preTime now =
     (let newStamina = calculateNewStaminaEMA oldResource 0 preTime now
      in if maxFreeStamina < newStamina then (FreeStaminaOverFlow, 0)
         else ('''', maxFreeStamina - newStamina))"

definition updateDynamicOneDayStamina :: "u64 \<Rightarrow> u64 \<Rightarrow> u64 \<Rightarrow> u64" where
  "updateDynamicOneDayStamina oldOneDayStamina avgTps expectedTps =
     (let change = oldOneDayStamina div 100;
          s1 = (if avgTps > expectedTps then oldOneDayStamina - change
                else oldOneDayStamina + change);
          s2 = (if s1 < OneDayStamina then OneDayStamina else s1)
      in if s2 > OneDayStamina * 100 then OneDayStamina * 100 else s2)"

definition UpdateDynamicStamina ::
  "u64 \<Rightarrow> u64 \<Rightarrow> u64 \<Rightarrow> u64 \<Rightarrow> u64 \<Rightarrow> u64 \<Rightarrow> u64 \<times> u64" where
  "UpdateDynamicStamina tpsInWindow oneDayStamina trxCount lastUpdate blockNum expectedTps =
     (let tpsInWindowNew = calculateTpsEMA tpsInWindow trxCount lastUpdate blockNum
      in (updateDynamicOneDayStamina oneDayStamina (tpsInWindowNew div TpsWindowSize) expectedTps,
          tpsInWindowNew))"

section \<open>The fixed-point average is exact\<close>

lemma uint_big_Uint64: "0 \<le> x \<Longrightarrow> x < 2 ^ 64 \<Longrightarrow> uint (big_Uint64 x) = x"
  by (simp add: big_Uint64_def unsigned_of_int take_bit_int_eq_self)

lemma unat_big_Uint64: "0 \<le> x \<Longrightarrow> x < 2 ^ 64 \<Longrightarrow> int (unat (big_Uint64 x)) = x"
  by (simp add: uint_big_Uint64)

lemma divideCeilBig_bounds:
  assumes "0 < den" and "den < 2 ^ 64"
  shows "num \<le> divideCeilBig num den * den" and "divideCeilBig num den * den < num + den"
proof -
  have m: "0 \<le> num mod den" "num mod den < den" using assms(1) by simp_all
  have "uint (big_Uint64 (num mod den)) = num mod den"
    using m assms(2) by (simp add: uint_big_Uint64)
  then have pos: "big_Uint64 (num mod den) > 0 \<longleftrightarrow> num mod den > 0"
    by (simp add: word_less_def)
  have q: "divideCeilBig num den * den =
             num - num mod den + (if num mod den > 0 then den else 0)"
    by (simp add: divideCeilBig_def Let_def pos algebra_simps minus_mod_eq_div_mult)
  show "num \<le> divideCeilBig num den * den"
    unfolding q using m by simp
  show "divideCeilBig num den * den < num + den"
  proof (cases "0 < num mod den")
    case True
    then show ?thesis by (simp add: q)
  next
    case False
    with m(1) have "num mod den = 0" by linarith
    with assms(1) show ?thesis by (simp add: q)
  qed
qed

lemma divideCeilBig_mono_le:
  assumes "0 < den" and "den < 2 ^ 64" and "num \<le> k * den"
  shows "divideCeilBig num den \<le> k"
proof (rule ccontr)
  assume "\<not> ?thesis"
  then have "k + 1 \<le> divideCeilBig num den" by simp
  then have "(k + 1) * den \<le> divideCeilBig num den * den"
    using assms(1) by (intro mult_right_mono) simp_all
  also have "\<dots> < num + den" by (rule divideCeilBig_bounds(2) [OF assms(1,2)])
  finally show False using assms(3) by (simp add: algebra_simps)
qed

lemma divideCeilBig_nonneg:
  assumes "0 < den" and "den < 2 ^ 64" and "0 \<le> num"
  shows "0 \<le> divideCeilBig num den"
proof (rule ccontr)
  assume "\<not> ?thesis"
  then have "divideCeilBig num den * den < 0"
    using assms(1) by (simp add: mult_neg_pos)
  with divideCeilBig_bounds(1) [OF assms(1,2), of num] assms(3) show False by simp
qed

lemma recover_exact:
  fixes a b :: int
  assumes "0 < B" and "2 * B \<le> LimitPrecision"
  shows "(divideCeilBig (a * LimitPrecision) B + divideCeilBig (b * LimitPrecision) B) * B
           div LimitPrecision = a + b"
proof -
  let ?x = "divideCeilBig (a * LimitPrecision) B" and ?y = "divideCeilBig (b * LimitPrecision) B"
  have B: "B < 2 ^ 64" using assms(2) by (simp add: LimitPrecision_def)
  note x = divideCeilBig_bounds [OF assms(1) B, of "a * LimitPrecision"]
  note y = divideCeilBig_bounds [OF assms(1) B, of "b * LimitPrecision"]
  have "(?x + ?y) * B = (?x * B - a * LimitPrecision + (?y * B - b * LimitPrecision))
          + LimitPrecision * (a + b)"
    by (simp add: algebra_simps)
  moreover have "0 \<le> ?x * B - a * LimitPrecision + (?y * B - b * LimitPrecision)"
    using x(1) y(1) by simp
  moreover have "?x * B - a * LimitPrecision + (?y * B - b * LimitPrecision) < LimitPrecision"
    using x(2) y(2) assms(2) by linarith
  ultimately show ?thesis
    by (intro int_div_pos_eq [of _ _ _ "?x * B - a * LimitPrecision + (?y * B - b * LimitPrecision)"])
       (simp_all add: algebra_simps)
qed

lemma divideCeilBig_0 [simp]: "divideCeilBig 0 B = 0"
  by (simp add: divideCeilBig_def big_Uint64_def)

lemma sint_eq_unat:
  fixes w :: u64
  assumes "unat w < 2 ^ 63"
  shows "sint w = int (unat w)"
proof -
  have "uint w < 2 ^ 63"
    using of_nat_less_iff [where 'a = int, THEN iffD2, OF assms] by simp
  moreover have "- (2 ^ 63) \<le> uint w"
    by (rule order_trans [of _ 0]) simp_all
  ultimately have "signed_take_bit 63 (uint w) = uint w"
    by (intro signed_take_bit_int_eq_self)
  then show ?thesis by (simp add: sint_uint)
qed

text \<open>
  What the average promises for a window of \<open>period\<close> blocks that the precision can resolve. The
  meter of an account uses it with a day's window, the measure of the load with a minute's.
\<close>

locale ema_window =
  fixes period :: u64
  assumes some_blocks: "0 < period"
    and resolved: "2 * int (unat period) \<le> LimitPrecision"
begin

lemma few_blocks: "unat period < 2 ^ 63"
proof -
  have "(2 :: nat) ^ 63 = 9223372036854775808" by simp
  then show ?thesis using resolved unfolding LimitPrecision_def by linarith
qed

lemma sint_period: "sint period = int (unat period)"
  by (rule sint_eq_unat [OF few_blocks])

lemma blocks_pos: "0 < int (unat period)"
  using some_blocks by (metis of_nat_0_less_iff unat_gt_0 word_neq_0_conv)

lemma blocks_word: "big_Uint64 (int (unat period)) = period"
  by (simp add: big_Uint64_def)

lemma blocks_less: "int (unat period) < 2 ^ 64"
  by (rule int_unat_64_less)

lemma window_gap:
  fixes pre now :: u64
  assumes "now > pre" and "now < pre + period"
  shows "0 \<le> sint (period - (now - pre))"
    and "sint (period - (now - pre)) \<le> int (unat period)"
proof -
  have "unat pre + unat period < 2 ^ 64"
  proof (rule ccontr)
    assume "\<not> ?thesis"
    then have "period + pre < pre"
      unfolding add_overflow_iff by simp
    then show False using assms by (simp only: add.commute [of pre])
  qed
  then have "unat (pre + period) = unat pre + unat period"
    by (intro unat_add_no_wrap) simp
  with assms have d: "unat pre < unat now" "unat now < unat pre + unat period"
    unfolding word_less_nat_alt by simp_all
  have delta: "unat (now - pre) = unat now - unat pre"
    using assms(1) by (simp add: unat_sub order_less_imp_le)
  have "now - pre \<le> period" using d by (simp add: word_le_nat_alt delta)
  then have "unat (period - (now - pre)) = unat period - (unat now - unat pre)"
    by (simp add: unat_sub delta)
  then have u: "unat (period - (now - pre)) \<le> unat period" by simp
  with few_blocks have "sint (period - (now - pre)) = int (unat (period - (now - pre)))"
    by (intro sint_eq_unat) linarith
  with u show "0 \<le> sint (period - (now - pre))"
    "sint (period - (now - pre)) \<le> int (unat period)"
    by linarith+
qed

text \<open>The average after the decay step, before it is scaled back.\<close>

definition decayed_avg :: "u64 \<Rightarrow> u64 \<Rightarrow> u64 \<Rightarrow> int" where
  "decayed_avg old pre now =
     (let avgOld = divideCeilBig (sint old * LimitPrecision) (int (unat period))
      in if now > pre then
           (if now < pre + period then
              avgOld * divideCeilBig (sint (period - (now - pre)) * LimitPrecision) (int (unat period))
                div LimitPrecision
            else 0)
         else avgOld)"

lemma calculateEMA_decayed:
  "calculateEMA old use pre now period =
     big_Uint64 ((decayed_avg old pre now +
       divideCeilBig (sint use * LimitPrecision) (int (unat period))) * int (unat period)
         div LimitPrecision)"
  unfolding calculateEMA_def Let_def sint_period blocks_word decayed_avg_def ..

lemma decayed_avg_bounds:
  assumes "unat old < 2 ^ 63"
  shows "0 \<le> decayed_avg old pre now"
    and "decayed_avg old pre now \<le> divideCeilBig (int (unat old) * LimitPrecision) (int (unat period))"
proof -
  let ?B = "int (unat period)"
  let ?a = "divideCeilBig (int (unat old) * LimitPrecision) ?B"
  let ?g = "sint (period - (now - pre)) * LimitPrecision"
  have a: "0 \<le> ?a"
    by (rule divideCeilBig_nonneg [OF blocks_pos blocks_less]) (simp add: LimitPrecision_def)
  have s: "sint old = int (unat old)" using assms by (rule sint_eq_unat)
  have "0 \<le> decayed_avg old pre now \<and> decayed_avg old pre now \<le> ?a"
  proof (cases "now > pre \<and> now < pre + period")
    case True
    then have g: "0 \<le> ?g" "?g \<le> LimitPrecision * ?B"
      using window_gap [of pre now] by (simp_all add: LimitPrecision_def)
    have d0: "0 \<le> divideCeilBig ?g ?B"
      by (rule divideCeilBig_nonneg [OF blocks_pos blocks_less g(1)])
    have d1: "divideCeilBig ?g ?B \<le> LimitPrecision"
      by (rule divideCeilBig_mono_le [OF blocks_pos blocks_less g(2)])
    have "?a * divideCeilBig ?g ?B div LimitPrecision \<le> ?a * LimitPrecision div LimitPrecision"
      using a d1 by (intro zdiv_mono1 mult_left_mono) (simp_all add: LimitPrecision_def)
    also have "\<dots> = ?a" by (simp add: LimitPrecision_def)
    finally have "?a * divideCeilBig ?g ?B div LimitPrecision \<le> ?a" .
    moreover have "0 \<le> ?a * divideCeilBig ?g ?B div LimitPrecision"
      using a d0 by (intro pos_imp_zdiv_nonneg_iff [THEN iffD2]) (simp_all add: LimitPrecision_def)
    ultimately show ?thesis using True by (simp add: decayed_avg_def Let_def s)
  next
    case False
    then show ?thesis using a by (auto simp: decayed_avg_def Let_def s)
  qed
  then show "0 \<le> decayed_avg old pre now" "decayed_avg old pre now \<le> ?a" by simp_all
qed

text \<open>What was used now counts in full; what was used before counts at most in full.\<close>

lemma calculateEMA_bounds:
  assumes "unat old + unat use < 2 ^ 63"
  shows "unat use \<le> unat (calculateEMA old use pre now period)"
    and "unat (calculateEMA old use pre now period) \<le> unat old + unat use"
proof -
  let ?B = "int (unat period)"
  let ?u = "divideCeilBig (int (unat use) * LimitPrecision) ?B"
  let ?d = "(decayed_avg old pre now + ?u) * ?B div LimitPrecision"
  have lt: "unat old < 2 ^ 63" "unat use < 2 ^ 63" using assms by linarith+
  have "0 + ?u \<le> decayed_avg old pre now + ?u"
    using decayed_avg_bounds(1) [OF lt(1), of pre now] by simp
  then have "(0 + ?u) * ?B div LimitPrecision \<le> ?d"
    using blocks_pos by (intro zdiv_mono1 mult_right_mono) (simp_all add: LimitPrecision_def)
  with recover_exact [OF blocks_pos resolved, of 0 "int (unat use)"]
  have low: "int (unat use) \<le> ?d" by simp
  have "decayed_avg old pre now + ?u \<le> divideCeilBig (int (unat old) * LimitPrecision) ?B + ?u"
    using decayed_avg_bounds(2) [OF lt(1), of pre now] by simp
  then have "?d \<le> (divideCeilBig (int (unat old) * LimitPrecision) ?B + ?u) * ?B div LimitPrecision"
    using blocks_pos by (intro zdiv_mono1 mult_right_mono) (simp_all add: LimitPrecision_def)
  then have up: "?d \<le> int (unat old) + int (unat use)"
    by (simp only: recover_exact [OF blocks_pos resolved])
  have "(2 :: nat) ^ 63 = 9223372036854775808" "(2 :: int) ^ 64 = 18446744073709551616" by simp_all
  then have lt64: "int (unat old) + int (unat use) < 2 ^ 64" using assms by linarith
  have "int (unat (calculateEMA old use pre now period)) = ?d"
    unfolding calculateEMA_decayed sint_eq_unat [OF lt(2)]
    by (rule unat_big_Uint64) (use low up lt64 in linarith)+
  with low up show "unat use \<le> unat (calculateEMA old use pre now period)"
    "unat (calculateEMA old use pre now period) \<le> unat old + unat use"
    by linarith+
qed

lemma calculateEMA_same_time:
  assumes "unat old + unat use < 2 ^ 63"
  shows "calculateEMA old use t t period = old + use"
proof -
  have lt: "unat old < 2 ^ 63" "unat use < 2 ^ 63" using assms by linarith+
  have "calculateEMA old use t t period = big_Uint64 (int (unat old) + int (unat use))"
    unfolding calculateEMA_decayed
    by (simp only: decayed_avg_def Let_def less_irrefl if_False sint_eq_unat [OF lt(1)]
        sint_eq_unat [OF lt(2)] recover_exact [OF blocks_pos resolved])
  then show ?thesis by (simp add: big_Uint64_def)
qed

end

interpretation day: ema_window WindowSize
  by unfold_locales (simp_all add: WindowSize_def LimitPrecision_def)

interpretation minute: ema_window TpsWindowSize
  by unfold_locales (simp_all add: TpsWindowSize_def LimitPrecision_def)

text \<open>
  C13. Recorded usage only ever decays while an account is idle: for every usage below \<open>2 ^ 63\<close> and
  any two block numbers, the usage the meter reports is at most the usage recorded.
\<close>

theorem stamina_decays:
  assumes "unat old < 2 ^ 63"
  shows "calculateNewStaminaEMA old 0 pre now \<le> old"
  using day.calculateEMA_bounds(2) [of old 0 pre now] assms
  by (simp add: calculateNewStaminaEMA_def word_le_nat_alt)

theorem stamina_decays_witness:
  "unat (5000 :: u64) < 2 ^ 63 \<and> calculateNewStaminaEMA 5000 0 100 43300 \<le> 5000"
  using stamina_decays [of 5000 100 43300] by simp

text \<open>
  C12. Charging stamina is exact and never overdraws: under a limit below \<open>2 ^ 63\<close>, \<open>Consume\<close> succeeds
  precisely when the amount is covered by what \<open>GetStakeLeft\<close> reports without an overflow, and then
  the usage recorded is the decayed usage plus the amount charged, with no rounding and no
  wrap-around, at most the limit.
\<close>

theorem consume_iff_left:
  assumes "unat maxS < 2 ^ 63"
  shows "Consume old num pre now maxS = (True, r) \<longleftrightarrow>
     fst (GetStakeLeft old pre now maxS) = '''' \<and> num \<le> snd (GetStakeLeft old pre now maxS) \<and>
     unat r = unat (calculateNewStaminaEMA old 0 pre now) + unat num \<and> r \<le> maxS"
proof -
  let ?n = "calculateNewStaminaEMA old 0 pre now"
  show ?thesis
  proof (cases "?n \<le> maxS \<and> num \<le> maxS - ?n")
    case True
    then have "unat num \<le> unat maxS - unat ?n" and "unat ?n \<le> unat maxS"
      using unat_sub [of ?n maxS] by (simp_all add: word_le_nat_alt)
    then have le: "unat ?n + unat num \<le> unat maxS" by linarith
    then have lt: "unat ?n + unat num < 2 ^ 63" using assms by linarith
    then have u: "unat (?n + num) = unat ?n + unat num"
      by (intro unat_add_no_wrap) simp
    have "calculateNewStaminaEMA ?n num now now = ?n + num"
      using day.calculateEMA_same_time [OF lt] by (simp add: calculateNewStaminaEMA_def)
    then have c: "Consume old num pre now maxS = (True, ?n + num)"
      using True by (simp add: Consume_def Let_def not_less)
    have g: "GetStakeLeft old pre now maxS = ('''', maxS - ?n)"
      using True by (auto simp: GetStakeLeft_def Let_def)
    have "?n + num = r \<longleftrightarrow> unat r = unat ?n + unat num"
      by (auto simp: u word_unat_eq_iff)
    moreover have "unat r = unat ?n + unat num \<Longrightarrow> r \<le> maxS"
      using le by (simp add: word_le_nat_alt)
    ultimately show ?thesis
      using True by (auto simp only: c g prod.inject fst_conv snd_conv simp_thms)
  next
    case False
    have "Consume old num pre now maxS = (False, 0)"
      using False by (auto simp: Consume_def Let_def not_less not_le)
    moreover have "\<not> (fst (GetStakeLeft old pre now maxS) = '''' \<and>
        num \<le> snd (GetStakeLeft old pre now maxS))"
      using False by (simp add: GetStakeLeft_def Let_def StakeStaminaOverFlow_def not_less)
    ultimately show ?thesis by auto
  qed
qed

theorem consume_iff_left_witness:
  "unat (9000 :: u64) < 2 ^ 63 \<and> Consume 5000 3000 100 43300 9000 = (True, 5499) \<and>
   GetStakeLeft 5000 100 43300 9000 = ([], 6501) \<and> (3000 :: u64) \<le> 6501 \<and>
   unat (5499 :: u64) = unat (calculateNewStaminaEMA 5000 0 100 43300) + unat (3000 :: u64)"
proof -
  have lim: "unat (9000 :: u64) < 2 ^ 63" by simp
  have run: "Consume 5000 3000 100 43300 9000 = (True, 5499)"
    "GetStakeLeft 5000 100 43300 9000 = ([], 6501)" by code_simp+
  from run show ?thesis
    using consume_iff_left [OF lim, of 5000 3000 100 43300 5499] by simp
qed

lemma unat_clamp:
  fixes lo hi x :: "'a :: len word"
  assumes "lo \<le> hi"
  shows "unat (if hi < (if x < lo then lo else x) then hi else if x < lo then lo else x) =
    max (unat lo) (min (unat hi) (unat x))"
  using assms by (auto simp: word_less_nat_alt word_le_nat_alt max_def min_def)

text \<open>
  C14. The adaptive daily stamina budget follows the load. The transactions counted over the
  window of 60 blocks are at least those of this block and at most these and the ones counted
  before. When their average per block exceeds what is expected, the budget falls by exactly one
  percent, otherwise it grows by exactly one percent, within one day's worth and a hundred times
  that. This holds for budgets and counts below \<open>2 ^ 63\<close>.
\<close>

theorem dynamic_stamina_follows_load:
  assumes "unat w + unat n < 2 ^ 63" and "unat s < 2 ^ 63"
    and "UpdateDynamicStamina w s n l b e = (s', w')"
  shows "unat n \<le> unat w' \<and> unat w' \<le> unat w + unat n \<and>
    unat s' = max (unat OneDayStamina) (min (100 * unat OneDayStamina)
      (if 60 * (unat e + 1) \<le> unat w' then unat s - unat s div 100
       else unat s + unat s div 100))"
proof -
  have w': "w' = calculateEMA w n l b TpsWindowSize"
    and s': "s' = updateDynamicOneDayStamina s (w' div TpsWindowSize) e"
    using assms(3) by (auto simp: UpdateDynamicStamina_def calculateTpsEMA_def Let_def)
  have "unat (w' div TpsWindowSize) = unat w' div 60"
    by (simp add: unat_div TpsWindowSize_def)
  then have over: "e < w' div TpsWindowSize \<longleftrightarrow> 60 * (unat e + 1) \<le> unat w'"
    by (simp add: word_less_nat_alt less_eq_div_iff_mult_less_eq Suc_le_eq [symmetric] mult.commute)
  have hundred: "unat (OneDayStamina * 100) = 100 * unat OneDayStamina"
    by (simp add: OneDayStamina_def MaxStaminaPerBlock_def WindowSize_def)
  have d: "unat (s div 100) = unat s div 100" by (simp add: unat_div)
  have m: "unat (s - s div 100) = unat s - unat s div 100"
    by (simp add: unat_sub word_le_nat_alt d)
  have p: "unat (s + s div 100) = unat s + unat s div 100"
    using assms(2) by (subst unat_add_no_wrap) (simp_all add: d)
  have "unat s' = max (unat OneDayStamina) (min (unat (OneDayStamina * 100))
      (unat (if 60 * (unat e + 1) \<le> unat w' then s - s div 100 else s + s div 100)))"
    unfolding s' updateDynamicOneDayStamina_def Let_def over
    by (rule unat_clamp) (simp add: OneDayStamina_def MaxStaminaPerBlock_def WindowSize_def)
  then have "unat s' = max (unat OneDayStamina) (min (100 * unat OneDayStamina)
      (if 60 * (unat e + 1) \<le> unat w' then unat s - unat s div 100
       else unat s + unat s div 100))"
    by (simp only: if_distrib [of unat] m p hundred)
  then show ?thesis
    using minute.calculateEMA_bounds [OF assms(1), of l b] by (simp add: w')
qed

theorem dynamic_stamina_follows_load_witness:
  "UpdateDynamicStamina 6000 20000000000 200 7 8 100 = (19800000000, 6100) \<and>
   unat (200 :: u64) \<le> unat (6100 :: u64) \<and> unat (6100 :: u64) \<le> unat (6000 :: u64) + unat (200 :: u64) \<and>
   unat (19800000000 :: u64) = max (unat OneDayStamina) (min (100 * unat OneDayStamina)
     (unat (20000000000 :: u64) - unat (20000000000 :: u64) div 100))"
proof -
  have lim: "unat (6000 :: u64) + unat (200 :: u64) < 2 ^ 63" "unat (20000000000 :: u64) < 2 ^ 63"
    by simp_all
  have run: "UpdateDynamicStamina 6000 20000000000 200 7 8 100 = (19800000000, 6100)"
    by code_simp
  from dynamic_stamina_follows_load [OF lim run] run show ?thesis by simp
qed

end
