(* ===== verification/Table.thy ===== *)
theory Table
  imports Prelude "HOL-Library.Multiset"
begin

text \<open>
  The record tables of \<open>app/table\<close>. Every \<open>so_*.go\<close> file is generated from one template, so
  all tables share the same wrapper: \<open>CheckExist\<close>, \<open>MustExist\<close>, \<open>MustNotExist\<close>, \<open>Create\<close>,
  \<open>Modify\<close> (and the setters, which are \<open>Modify\<close> with one assignment), \<open>Remove\<close>, the getters,
  the unique secondary index and the ordered walks over a sort index. \<open>so_vestDelegation.go\<close> is
  the copy the definitions below are read from. A table is the association list of its rows;
  the index rows the wrapper writes beside them are functions of the rows and are computed when
  they are read. The last section states the laws clients rely on as a locale and gives the
  clients' lemmas on sums over a column.
\<close>

type_synonym ('k, 'v) tbl = "('k \<times> 'v) list"

section \<open>Rows\<close>

definition tbl_get :: "('k, 'v) tbl \<Rightarrow> 'k \<Rightarrow> 'v option" where
  "tbl_get t k = map_of t k"

fun tbl_put :: "'k \<Rightarrow> 'v \<Rightarrow> ('k, 'v) tbl \<Rightarrow> ('k, 'v) tbl" where
  "tbl_put k v [] = [(k, v)]"
| "tbl_put k v ((k', v') # t) = (if k = k' then (k, v) # t else (k', v') # tbl_put k v t)"

fun tbl_del :: "'k \<Rightarrow> ('k, 'v) tbl \<Rightarrow> ('k, 'v) tbl" where
  "tbl_del k [] = []"
| "tbl_del k ((k', v') # t) = (if k = k' then t else (k', v') # tbl_del k t)"

definition tbl_ok :: "('k, 'v) tbl \<Rightarrow> bool" where
  "tbl_ok t = distinct (map fst t)"

section \<open>The wrapper's operations\<close>

definition CheckExist :: "('k, 'v) tbl \<Rightarrow> 'k \<Rightarrow> bool" where
  "CheckExist t k = (tbl_get t k \<noteq> None)"

definition MustExist :: "('k, 'v) tbl \<Rightarrow> 'k \<Rightarrow> string \<Rightarrow> unit res" where
  "MustExist t k errMsg = (if \<not> CheckExist t k then Inl (Assert errMsg) else Inr ())"

definition MustNotExist :: "('k, 'v) tbl \<Rightarrow> 'k \<Rightarrow> string \<Rightarrow> unit res" where
  "MustNotExist t k errMsg = (if CheckExist t k then Inl (Assert errMsg) else Inr ())"

definition tbl_Create :: "'k \<Rightarrow> 'v \<Rightarrow> ('k, 'v) tbl \<Rightarrow> ('k, 'v) tbl res" where
  "tbl_Create k v t =
     (if CheckExist t k then Inl (TableErr ''the main key is already exist'')
      else Inr (tbl_put k v t))"

text \<open>
  \<open>Modify\<close> reads the row, runs the caller's function on a copy and writes it back. The function
  may itself panic (the checked amount arithmetic does); the row is then left as it was.
\<close>

definition tbl_Modify :: "'k \<Rightarrow> ('v \<Rightarrow> 'v res) \<Rightarrow> ('k, 'v) tbl \<Rightarrow> ('k, 'v) tbl res" where
  "tbl_Modify k f t =
     (case tbl_get t k of
        None \<Rightarrow> Inl (TableErr ''the table does not exist. Please create a table first'')
      | Some v \<Rightarrow> rbind (f v) (\<lambda>v'. Inr (tbl_put k v' t)))"

definition tbl_Remove :: "'k \<Rightarrow> ('k, 'v) tbl \<Rightarrow> ('k, 'v) tbl res" where
  "tbl_Remove k t =
     (if CheckExist t k then Inr (tbl_del k t) else Inl (TableErr ''delAllSortKeys failed''))"

text \<open>
  A getter of a row that does not exist returns nil; the callers read a field of it, which is a
  nil dereference.
\<close>

definition tbl_Get :: "('k, 'v) tbl \<Rightarrow> 'k \<Rightarrow> 'v res" where
  "tbl_Get t k = (case tbl_get t k of None \<Rightarrow> Inl NilDeref | Some v \<Rightarrow> Inr v)"

text \<open>
  The unique secondary index: the key of the row whose field has the value asked for. \<open>Create\<close>
  and \<open>Modify\<close> refuse a value that another row already has.
\<close>

definition tbl_UniQuery :: "('v \<Rightarrow> 'u) \<Rightarrow> 'u \<Rightarrow> ('k, 'v) tbl \<Rightarrow> 'k option" where
  "tbl_UniQuery field u t = map_option fst (find (\<lambda>(k, v). field v = u) t)"

definition tbl_CreateUni :: "('v \<Rightarrow> 'u) \<Rightarrow> 'k \<Rightarrow> 'v \<Rightarrow> ('k, 'v) tbl \<Rightarrow> ('k, 'v) tbl res" where
  "tbl_CreateUni field k v t =
     (if CheckExist t k then Inl (TableErr ''the main key is already exist'')
      else if tbl_UniQuery field (field v) t \<noteq> None
      then Inl (TableErr ''insert unique Field fail while insert table'')
      else Inr (tbl_put k v t))"

definition tbl_ModifyUni ::
  "('v \<Rightarrow> 'u) \<Rightarrow> 'k \<Rightarrow> ('v \<Rightarrow> 'v res) \<Rightarrow> ('k, 'v) tbl \<Rightarrow> ('k, 'v) tbl res" where
  "tbl_ModifyUni field k f t =
     (case tbl_get t k of
        None \<Rightarrow> Inl (TableErr ''the table does not exist. Please create a table first'')
      | Some v \<Rightarrow>
          rbind (f v) (\<lambda>v'.
          if field v' \<noteq> field v \<and> tbl_UniQuery field (field v') t \<noteq> None
          then Inl (TableErr ''fail to modify exist value'')
          else Inr (tbl_put k v' t)))"

text \<open>
  The ordered walks. The sort index of a field holds one entry per row under the order-preserving
  encoding of (field value, main key). An upward walk visits the entries from \<open>start\<close> (included) to
  \<open>end\<close> (excluded); a downward walk visits those from \<open>start\<close> (excluded) down to \<open>end\<close> (included).
\<close>

definition in_range :: "'u :: linorder option \<Rightarrow> 'u option \<Rightarrow> 'u \<Rightarrow> bool" where
  "in_range lo hi u =
     ((case lo of None \<Rightarrow> True | Some l \<Rightarrow> l \<le> u) \<and> (case hi of None \<Rightarrow> True | Some h \<Rightarrow> u < h))"

definition tbl_index ::
  "('v \<Rightarrow> 'u :: linorder) \<Rightarrow> ('k :: linorder, 'v) tbl \<Rightarrow> ('u \<times> 'k) list" where
  "tbl_index field t = sort (map (\<lambda>(k, v). (field v, k)) t)"

definition ForEachByOrder ::
  "('v \<Rightarrow> 'u :: linorder) \<Rightarrow> 'u option \<Rightarrow> 'u option \<Rightarrow> ('k :: linorder, 'v) tbl \<Rightarrow> 'k list" where
  "ForEachByOrder field start stop t =
     map snd (filter (\<lambda>(u, k). in_range start stop u) (tbl_index field t))"

definition ForEachByRevOrder ::
  "('v \<Rightarrow> 'u :: linorder) \<Rightarrow> 'u option \<Rightarrow> 'u option \<Rightarrow> ('k :: linorder, 'v) tbl \<Rightarrow> 'k list" where
  "ForEachByRevOrder field start stop t =
     rev (map snd (filter (\<lambda>(u, k). in_range stop start u) (tbl_index field t)))"

section \<open>Laws of the rows\<close>

lemma tbl_get_Nil [simp]: "tbl_get [] k = None"
  by (simp add: tbl_get_def)

lemma tbl_get_Cons: "tbl_get ((k', v) # t) k = (if k = k' then Some v else tbl_get t k)"
  by (simp add: tbl_get_def)

lemma tbl_get_put [tbl_simps]: "tbl_get (tbl_put k v t) j = (if j = k then Some v else tbl_get t j)"
  by (induction t) (auto simp: tbl_get_Cons)

lemma keys_put: "map fst (tbl_put k v t) = (if tbl_get t k = None then map fst t @ [k] else map fst t)"
  by (induction t) (auto simp: tbl_get_Cons split: if_splits)

lemma tbl_get_None_iff: "tbl_get t k = None \<longleftrightarrow> k \<notin> fst ` set t"
  by (simp add: tbl_get_def map_of_eq_None_iff)

lemma tbl_ok_put: "tbl_ok t \<Longrightarrow> tbl_ok (tbl_put k v t)"
  by (auto simp: tbl_ok_def keys_put tbl_get_None_iff)

lemma keys_del: "map fst (tbl_del k t) = remove1 k (map fst t)"
  by (induction t) auto

lemma tbl_ok_del: "tbl_ok t \<Longrightarrow> tbl_ok (tbl_del k t)"
  by (simp add: tbl_ok_def keys_del)

lemma tbl_get_del: "tbl_ok t \<Longrightarrow> tbl_get (tbl_del k t) j = (if j = k then None else tbl_get t j)"
proof (induction t)
  case Nil
  then show ?case by simp
next
  case (Cons p t)
  obtain k' v where p: "p = (k', v)" by (cases p)
  with Cons.prems have ok: "tbl_ok t" and fresh: "tbl_get t k' = None"
    by (auto simp: tbl_ok_def tbl_get_None_iff)
  show ?case
    using Cons.IH [OF ok] fresh by (auto simp: p tbl_get_Cons)
qed

lemma tbl_get_set: "tbl_get t k = Some v \<Longrightarrow> (k, v) \<in> set t"
  by (simp add: tbl_get_def map_of_SomeD)

lemma tbl_set_get: "tbl_ok t \<Longrightarrow> (k, v) \<in> set t \<Longrightarrow> tbl_get t k = Some v"
  by (simp add: tbl_get_def tbl_ok_def)

text \<open>A property of every row.\<close>

definition tbl_all :: "('v \<Rightarrow> bool) \<Rightarrow> ('k, 'v) tbl \<Rightarrow> bool" where
  "tbl_all P t = list_all (\<lambda>(_, v). P v) t"

lemma tbl_get_filter:
  "tbl_ok t \<Longrightarrow> tbl_get (filter (\<lambda>(k, v). P k) t) k = (if P k then tbl_get t k else None)"
  by (induction t) (auto simp: tbl_ok_def tbl_get_Cons tbl_get_None_iff)

lemma tbl_ok_filter: "tbl_ok t \<Longrightarrow> tbl_ok (filter P t)"
  by (simp add: tbl_ok_def distinct_map_filter)

lemma tbl_get_filterD: "tbl_ok t \<Longrightarrow> tbl_get (filter P t) k = Some v \<Longrightarrow> tbl_get t k = Some v \<and> P (k, v)"
  by (auto dest!: tbl_get_set intro: tbl_set_get)

lemma tbl_all_get: "tbl_all P t \<Longrightarrow> tbl_get t k = Some v \<Longrightarrow> P v"
  by (auto simp: tbl_all_def list_all_iff dest: tbl_get_set)

lemma tbl_all_put: "tbl_all P t \<Longrightarrow> P v \<Longrightarrow> tbl_all P (tbl_put k v t)"
  by (induction t) (auto simp: tbl_all_def)

lemma tbl_all_del: "tbl_all P t \<Longrightarrow> tbl_all P (tbl_del k t)"
  by (induction t) (auto simp: tbl_all_def)

section \<open>Inversion of the wrapper's operations\<close>

lemma CheckExist_iff [tbl_simps]: "CheckExist t k \<longleftrightarrow> (\<exists>v. tbl_get t k = Some v)"
  by (auto simp: CheckExist_def)

lemma MustExist_Inr [res_inv]: "MustExist t k m = Inr u \<longleftrightarrow> (\<exists>v. tbl_get t k = Some v)"
  by (auto simp: MustExist_def CheckExist_def)

lemma MustNotExist_Inr [res_inv]: "MustNotExist t k m = Inr u \<longleftrightarrow> tbl_get t k = None"
  by (auto simp: MustNotExist_def CheckExist_def)

lemma tbl_Create_Inr [res_inv]:
  "tbl_Create k v t = Inr t' \<longleftrightarrow> tbl_get t k = None \<and> t' = tbl_put k v t"
  by (auto simp: tbl_Create_def CheckExist_def)

lemma tbl_Modify_Inr [res_inv]:
  "tbl_Modify k f t = Inr t' \<longleftrightarrow>
     (\<exists>v v'. tbl_get t k = Some v \<and> f v = Inr v' \<and> t' = tbl_put k v' t)"
  by (auto simp: tbl_Modify_def rbind_Inr_iff split: option.splits)

lemma tbl_Remove_Inr [res_inv]:
  "tbl_Remove k t = Inr t' \<longleftrightarrow> (\<exists>v. tbl_get t k = Some v) \<and> t' = tbl_del k t"
  by (auto simp: tbl_Remove_def CheckExist_def)

lemma tbl_Get_Inr [res_inv]: "tbl_Get t k = Inr v \<longleftrightarrow> tbl_get t k = Some v"
  by (auto simp: tbl_Get_def split: option.splits)

lemma tbl_UniQuery_Some:
  "tbl_UniQuery field u t = Some k \<Longrightarrow> \<exists>v. (k, v) \<in> set t \<and> field v = u"
  by (auto simp: tbl_UniQuery_def find_Some_iff) (metis nth_mem)

lemma tbl_UniQuery_None:
  "tbl_UniQuery field u t = None \<longleftrightarrow> (\<forall>(k, v) \<in> set t. field v \<noteq> u)"
  by (auto simp: tbl_UniQuery_def find_None_iff)

lemma tbl_CreateUni_Inr [res_inv]:
  "tbl_CreateUni field k v t = Inr t' \<longleftrightarrow>
     tbl_get t k = None \<and> tbl_UniQuery field (field v) t = None \<and> t' = tbl_put k v t"
  by (auto simp: tbl_CreateUni_def CheckExist_def)

lemma tbl_ModifyUni_Inr [res_inv]:
  "tbl_ModifyUni field k f t = Inr t' \<longleftrightarrow>
     (\<exists>v v'. tbl_get t k = Some v \<and> f v = Inr v' \<and>
        (field v' = field v \<or> tbl_UniQuery field (field v') t = None) \<and> t' = tbl_put k v' t)"
  by (auto simp: tbl_ModifyUni_def rbind_Inr_iff split: option.splits if_splits)

section \<open>Sums over a table\<close>

definition tbl_sum :: "('k \<Rightarrow> 'v \<Rightarrow> nat) \<Rightarrow> ('k, 'v) tbl \<Rightarrow> nat" where
  "tbl_sum w t = sum_list (map (\<lambda>(k, v). w k v) t)"

lemma tbl_sum_Nil [simp]: "tbl_sum w [] = 0"
  by (simp add: tbl_sum_def)

lemma tbl_sum_Cons [simp]: "tbl_sum w ((k, v) # t) = w k v + tbl_sum w t"
  by (simp add: tbl_sum_def)

lemma tbl_sum_put_old:
  "tbl_get t k = Some v \<Longrightarrow> tbl_sum w (tbl_put k v' t) + w k v = tbl_sum w t + w k v'"
  by (induction t) (auto simp: tbl_get_Cons split: if_splits)

lemma tbl_sum_put_new:
  "tbl_get t k = None \<Longrightarrow> tbl_sum w (tbl_put k v t) = tbl_sum w t + w k v"
  by (induction t) (auto simp: tbl_get_Cons split: if_splits)

lemma tbl_sum_del: "tbl_get t k = Some v \<Longrightarrow> tbl_sum w (tbl_del k t) + w k v = tbl_sum w t"
  by (induction t) (auto simp: tbl_get_Cons split: if_splits)

lemma tbl_sum_cong: "(\<And>k v. (k, v) \<in> set t \<Longrightarrow> w k v = w' k v) \<Longrightarrow> tbl_sum w t = tbl_sum w' t"
  by (induction t) auto

lemma tbl_sum_ge: "tbl_get t k = Some v \<Longrightarrow> w k v \<le> tbl_sum w t"
  by (induction t) (auto simp: tbl_get_Cons split: if_splits)

lemma tbl_sum_ge2:
  "tbl_get t k = Some v \<Longrightarrow> tbl_get t j = Some u \<Longrightarrow> k \<noteq> j \<Longrightarrow> w k v + w j u \<le> tbl_sum w t"
  by (induction t) (auto simp: tbl_get_Cons split: if_splits dest: tbl_sum_ge [where w = w])

definition isum :: "('k \<Rightarrow> 'v \<Rightarrow> nat) \<Rightarrow> ('k, 'v) tbl \<Rightarrow> int" where
  "isum w t = int (tbl_sum w t)"

lemma isum_put [tbl_simps]:
  "tbl_get t k = Some v \<Longrightarrow> isum w (tbl_put k v' t) = isum w t - int (w k v) + int (w k v')"
  using tbl_sum_put_old [of t k v w v'] by (simp add: isum_def)

lemma isum_put_new [tbl_simps]:
  "tbl_get t k = None \<Longrightarrow> isum w (tbl_put k v t) = isum w t + int (w k v)"
  using tbl_sum_put_new [of t k w v] by (simp add: isum_def)

section \<open>The interface of a table\<close>

text \<open>
  What clients rely on: a look-up after an update or a removal, the invariant every update keeps,
  and how a column's sum follows an update. The clients' lemmas on moving an amount between rows
  are proved from these laws alone.
\<close>

locale row_store =
  fixes get :: "'t \<Rightarrow> 'k \<Rightarrow> 'v option"
    and put :: "'k \<Rightarrow> 'v \<Rightarrow> 't \<Rightarrow> 't"
    and del :: "'k \<Rightarrow> 't \<Rightarrow> 't"
    and ok :: "'t \<Rightarrow> bool"
    and total :: "('k \<Rightarrow> 'v \<Rightarrow> nat) \<Rightarrow> 't \<Rightarrow> nat"
  assumes get_put: "get (put k v t) j = (if j = k then Some v else get t j)"
    and get_del: "ok t \<Longrightarrow> get (del k t) j = (if j = k then None else get t j)"
    and ok_put: "ok t \<Longrightarrow> ok (put k v t)"
    and ok_del: "ok t \<Longrightarrow> ok (del k t)"
    and total_put_old: "get t k = Some v \<Longrightarrow> total w (put k v' t) + w k v = total w t + w k v'"
    and total_put_new: "get t k = None \<Longrightarrow> total w (put k v t) = total w t + w k v"
    and total_del: "get t k = Some v \<Longrightarrow> total w (del k t) + w k v = total w t"
begin

lemma total_put_same:
  assumes "get t k = Some v" and "w k v' = w k v"
  shows "total w (put k v' t) = total w t"
  using total_put_old [OF assms(1), of w v'] assms(2) by simp

lemma total_put_add:
  assumes "get t k = Some v" and "w k v' = w k v + d"
  shows "total w (put k v' t) = total w t + d"
  using total_put_old [OF assms(1), of w v'] assms(2) by simp

lemma total_put_sub:
  assumes "get t k = Some v" and "w k v' + d = w k v"
  shows "total w (put k v' t) + d = total w t"
  using total_put_old [OF assms(1), of w v'] assms(2) by simp

text \<open>Moving an amount from one row to another keeps the column's sum.\<close>

lemma total_move:
  assumes "get t a = Some x" and "w a x' + d = w a x"
    and "get (put a x' t) b = Some y" and "w b y' = w b y + d"
  shows "total w (put b y' (put a x' t)) = total w t"
  using total_put_add [OF assms(3), where w = w, OF assms(4)]
    total_put_sub [OF assms(1), where w = w, OF assms(2)] by simp

end

interpretation tb: row_store tbl_get tbl_put tbl_del tbl_ok tbl_sum
  by unfold_locales
     (simp_all add: tbl_get_put tbl_get_del tbl_ok_put tbl_ok_del tbl_sum_put_old tbl_sum_put_new
        tbl_sum_del)

section \<open>The ordered walks\<close>

lemma set_ForEachByOrder:
  "set (ForEachByOrder field start stop t) = {k. \<exists>v. (k, v) \<in> set t \<and> in_range start stop (field v)}"
  by (force simp: ForEachByOrder_def tbl_index_def)

lemma set_ForEachByRevOrder:
  "set (ForEachByRevOrder field start stop t) = {k. \<exists>v. (k, v) \<in> set t \<and> in_range stop start (field v)}"
  by (force simp: ForEachByRevOrder_def tbl_index_def)

lemma distinct_index_keys:
  assumes "tbl_ok t"
  shows "distinct (map snd (tbl_index field t))"
proof -
  have "mset (map snd (tbl_index field t)) = mset (map snd (map (\<lambda>(k, v). (field v, k)) t))"
    unfolding tbl_index_def by (simp only: mset_map mset_sort)
  also have "map snd (map (\<lambda>(k, v). (field v, k)) t) = map fst t"
    by (simp add: case_prod_unfold)
  finally have "mset (map snd (tbl_index field t)) = mset (map fst t)" .
  then show ?thesis
    using assms unfolding tbl_ok_def by (metis mset_eq_imp_distinct_iff)
qed

lemma distinct_map_snd_filter: "distinct (map snd xs) \<Longrightarrow> distinct (map snd (filter P xs))"
  by (induction xs) auto

lemma distinct_ForEachByOrder: "tbl_ok t \<Longrightarrow> distinct (ForEachByOrder field start stop t)"
  by (simp add: ForEachByOrder_def distinct_map_snd_filter distinct_index_keys)

lemma distinct_ForEachByRevOrder: "tbl_ok t \<Longrightarrow> distinct (ForEachByRevOrder field start stop t)"
  by (simp add: ForEachByRevOrder_def distinct_map_snd_filter distinct_index_keys)

end
