(* ===== verification/ChainState.thy ===== *)
theory ChainState
  imports ResourceLimit Table
begin

text \<open>
  The state of the chain: the rows of the tables the application keeps (\<open>app/table\<close>, defined by the
  \<open>csv\<close> files and generated into \<open>so_*.pb.go\<close>), the dynamic global properties
  (\<open>prototype/type.proto\<close>), the chain constants of a mainnet build (\<open>common/constants\<close>), the
  hard-fork schedule, and the accessors of \<open>app/dgp.go\<close>. A message-typed column is kept by value:
  every access decodes the stored row anew, so rows never share memory. Columns that only the
  plugins and the RPC layer touch (\<open>post_count\<close>, \<open>created_trx_count\<close>) or that nothing touches
  (\<open>last_stake_time\<close>, \<open>category\<close>, \<open>last_payout\<close>) are left out.
\<close>

type_synonym name = string
type_synonym bytes = "u8 list"
type_synonym pubkey = bytes
type_synonym hash = bytes

text \<open>\<open>[]byte(s)\<close>.\<close>

definition bytes_of_string :: "string \<Rightarrow> bytes" where
  "bytes_of_string str = map (\<lambda>c. of_nat (of_char c)) str"

section \<open>Constants\<close>

definition COSInitSupply :: u64 where "COSInitSupply = 6500000000 * COSTokenDecimals"
definition COSTotalSupply :: u64 where "COSTotalSupply = 10000000000 * COSTokenDecimals"
definition COSInitMiner :: name where "COSInitMiner = ''initminer''"
definition COSSysAccount :: name where "COSSysAccount = ''contentos''"

definition BlockInterval :: u64 where "BlockInterval = 1"
definition GenesisTime :: u32 where "GenesisTime = 1"
definition PostInvalidId :: u64 where "PostInvalidId = 0"
definition PostMaxDepth :: u32 where "PostMaxDepth = 8"
definition PerUserBpVoteLimit :: u32 where "PerUserBpVoteLimit = 1"
definition MinStaminaFree :: u64 where "MinStaminaFree = 0"
definition DefaultStaminaFree :: u64 where "DefaultStaminaFree = 100000"
definition MaxStaminaFree :: u64 where "MaxStaminaFree = 10000000"
definition MinTPSExpected :: u64 where "MinTPSExpected = 100"
definition DefaultTPSExpected :: u64 where "DefaultTPSExpected = 100"
definition MaxTPSExpected :: u64 where "MaxTPSExpected = 2000"
definition MinAccountCreateFee :: u64 where "MinAccountCreateFee = 1"
definition DefaultAccountCreateFee :: u64 where "DefaultAccountCreateFee = COSTokenDecimals div 10"
definition MaxAccountCreateFee :: u64 where "MaxAccountCreateFee = 10000 * COSTokenDecimals"
definition MinBpRegisterVest :: u64 where "MinBpRegisterVest = 30000 * COSTokenDecimals"
definition MinVoteInterval :: u32 where "MinVoteInterval = 0"
definition MinPostInterval :: u32 where "MinPostInterval = 0"
definition PERCENT :: u64 where "PERCENT = 10000"
definition RewardRateCreator :: u64 where "RewardRateCreator = 6000"
definition RewardRateDapp :: u64 where "RewardRateDapp = 1000"
definition RewardRateAuthor :: u64 where "RewardRateAuthor = 7500"
definition RewardRateReply :: u64 where "RewardRateReply = 1500"
definition ConvertWeeks :: u64 where "ConvertWeeks = 13"
definition HardFork2ConvertWeeks :: u64 where "HardFork2ConvertWeeks = 7"
definition NetConsumePointNum :: u64 where "NetConsumePointNum = 10"
definition NetConsumePointDen :: u64 where "NetConsumePointDen = 1"
definition CpuConsumePointDen :: u64 where "CpuConsumePointDen = 100"
definition CommonOpStamina :: u64 where "CommonOpStamina = 100"
definition MinReputation :: u32 where "MinReputation = 0"
definition DefaultReputation :: u32 where "DefaultReputation = 100"
definition CopyrightUnkown :: u32 where "CopyrightUnkown = 0"
definition CopyrightConfirmation :: u32 where "CopyrightConfirmation = 2"
definition MaxReputation :: u32 where "MaxReputation = 10000"
definition CopyrightInfringement :: u32 where "CopyrightInfringement = 1"
definition MaxTicketsPerTurn :: u64 where "MaxTicketsPerTurn = 100000"
definition InitTopN :: u32 where "InitTopN = 500"
definition InitEpochDuration :: u64 where "InitEpochDuration = 60 * 60 * 24 * 7"
definition MaxTopN :: u32 where "MaxTopN = 10000"
definition MinTicketPrice :: u64 where "MinTicketPrice = 100"
definition InitPostWeightedVps :: string where "InitPostWeightedVps = ''2000000000''"
definition InitReplyWeightedVps :: string where "InitReplyWeightedVps = ''2000000000''"
definition InitVoteWeightedVps :: string where "InitVoteWeightedVps = ''2000000000''"
definition InitDappWeightedVps :: string where "InitDappWeightedVps = ''2000000000''"
definition FullVP :: u32 where "FullVP = 1000"
definition VPMarks :: u32 where "VPMarks = 30"
definition MinVestDelegationAmount :: u64 where "MinVestDelegationAmount = 1"
definition MinVestDelegationInBlocks :: u64 where "MinVestDelegationInBlocks = 1"
definition MaxVestDelegationInBlocks :: u64 where
  "MaxVestDelegationInBlocks = 1000 * 365 * 60 * 60 * 24 div BlockInterval"
definition MaxInt64 :: u64 where "MaxInt64 = 9223372036854775807"

text \<open>Mainnet values (\<open>constants_mainnet.go\<close>).\<close>

definition PostCashOutDelayBlock :: u64 where "PostCashOutDelayBlock = 60 * 60 * 24 * 7"
definition VoteCashOutDelayBlock :: u64 where "VoteCashOutDelayBlock = PostCashOutDelayBlock"
definition VoteRegenerateTime :: u32 where "VoteRegenerateTime = 60 * 60 * 24"
definition PowerDownBlockInterval :: u64 where "PowerDownBlockInterval = (60 * 60 * 24) * 7"
definition StakeFreezeTime :: u64 where "StakeFreezeTime = 60 * 60 * 24 * 3"
definition PerTicketPrice :: u64 where "PerTicketPrice = 10000000"
definition PerTicketWeight :: u64 where "PerTicketWeight = 1"
definition VestDelegationDeliveryInBlocks :: u64 where
  "VestDelegationDeliveryInBlocks = 7 * 60 * 60 * 24 div BlockInterval"

definition Original :: u64 where "Original = 0"
definition HardFork1 :: u64 where "HardFork1 = 1732100"
definition HardFork2 :: u64 where "HardFork2 = 11314200"
definition HardFork3 :: u64 where "HardFork3 = 16411000"
definition HardFork4 :: u64 where "HardFork4 = 116110000"

definition hardForks :: "u64 list" where
  "hardForks = [Original, HardFork1, HardFork2, HardFork3, HardFork4]"

definition GetHardFork :: "u64 \<Rightarrow> u64" where
  "GetHardFork blockNum = fold (\<lambda>hf r. if blockNum \<ge> hf then hf else r) hardForks Original"

section \<open>Rows\<close>

record account =
  acc_Name :: name
  acc_CreatedTime :: u32
  acc_Creator :: name
  acc_Balance :: coin
  acc_Vest :: vest
  acc_BpVoteCount :: u32
  acc_LastVoteTime :: u32
  acc_LastPostTime :: u32
  acc_VotePower :: u32
  acc_StartPowerdownBlockNum :: u64
  acc_NextPowerdownBlockNum :: u64
  acc_EachPowerdownRate :: vest
  acc_ToPowerdown :: vest
  acc_HasPowerdown :: vest
  acc_PubKey :: pubkey
  acc_Stamina :: u64
  acc_StaminaUseBlock :: u64
  acc_StaminaFree :: u64
  acc_StaminaFreeUseBlock :: u64
  acc_StakeVestFromMe :: vest
  acc_StakeVestForMe :: vest
  acc_Reputation :: u32
  acc_ReputationMemo :: string
  acc_ChargedTicket :: u32
  acc_Freeze :: u32
  acc_FreezeMemo :: string
  acc_BorrowedVest :: vest
  acc_LentVest :: vest
  acc_DeliveringVest :: vest

record bp_vest_id =
  bv_Active :: bool
  bv_VoteVest :: vest

record block_producer =
  bp_Owner :: name
  bp_CreatedTime :: u32
  bp_Url :: string
  bp_BpVest :: bp_vest_id
  bp_SigningKey :: pubkey
  bp_ProposedStaminaFree :: u64
  bp_TpsExpected :: u64
  bp_AccountCreateFee :: coin
  bp_TopNAcquireFreeToken :: u32
  bp_EpochDuration :: u64
  bp_PerTicketPrice :: coin
  bp_PerTicketWeight :: u64
  bp_VoterCount :: u64
  bp_GenBlockCount :: u64

text \<open>A vote for a block producer; its main key is the pair (block producer, voter).\<close>

record bp_vote =
  bvo_VoterName :: name
  bvo_VoteTime :: u32

record post =
  po_PostId :: u64
  po_Author :: name
  po_Title :: string
  po_Body :: string
  po_Tags :: "string list"
  po_Created :: u32
  po_Depth :: u32
  po_Children :: u32
  po_RootId :: u64
  po_ParentId :: u64
  po_VoteCnt :: u64
  po_Beneficiaries :: "(name \<times> u32) list"
  po_CashoutBlockNum :: u64
  po_WeightedVp :: string
  po_Rewards :: vest
  po_DappRewards :: vest
  po_Ticket :: u32
  po_Copyright :: u32
  po_CopyrightMemo :: string

text \<open>A vote for a post; its main key is the pair (voter, post id).\<close>

type_synonym voter_id = "name \<times> u64"

record vote =
  vo_VoteTime :: u32
  vo_PostId :: u64
  vo_WeightedVp :: string
  vo_Upvote :: bool

record stake_record =
  sr_StakeAmount :: vest
  sr_LastStakeBlockNum :: u64

record gift_ticket_key =
  gk_Type :: u32
  gk_From :: string
  gk_To :: string
  gk_CreateBlock :: u64

record gift_ticket =
  gt_Denom :: u64
  gt_Count :: u64
  gt_ExpireBlock :: u64

record vest_delegation =
  vd_FromAccount :: name
  vd_ToAccount :: name
  vd_Amount :: vest
  vd_CreatedBlock :: u64
  vd_MaturityBlock :: u64
  vd_DeliveryBlock :: u64
  vd_Delivering :: bool

text \<open>A contract; its main key is the pair (owner, contract name).\<close>

record contract =
  ct_CreatedTime :: u32
  ct_Abi :: string
  ct_Balance :: coin
  ct_Code :: bytes
  ct_ApplyCount :: u32
  ct_Upgradeable :: bool
  ct_Hash :: hash
  ct_Url :: string
  ct_Describe :: string

record bp_schedule =
  bs_CurrentShuffledBlockProducer :: "name list"
  bs_PubKey :: "pubkey list"
  bs_Seq :: u64

record dynamic_properties =
  dp_HeadBlockId :: hash
  dp_HeadBlockNumber :: u64
  dp_TotalCos :: coin
  dp_Time :: u32
  dp_CurrentBlockProducer :: name
  dp_Tps :: u32
  dp_TotalVest :: vest
  dp_TotalTrxCnt :: u64
  dp_TotalPostCnt :: u64
  dp_TotalUserCnt :: u64
  dp_MaxTps :: u32
  dp_MaxTpsBlockNum :: u64
  dp_IthYear :: u32
  dp_AnnualBudget :: vest
  dp_AnnualMinted :: vest
  dp_PoolPostRewards :: vest
  dp_PoolReplyRewards :: vest
  dp_PoolVoteRewards :: vest
  dp_PoolDappRewards :: vest
  dp_WeightedVpsPost :: string
  dp_WeightedVpsReply :: string
  dp_WeightedVpsVote :: string
  dp_WeightedVpsDapp :: string
  dp_ClaimedPostRewards :: vest
  dp_ClaimedReplyRewards :: vest
  dp_ClaimedVoteRewards :: vest
  dp_ClaimedDappRewards :: vest
  dp_StakeVest :: vest
  dp_BlockProducerBootCompleted :: bool
  dp_StaminaFree :: u64
  dp_TpsExpected :: u64
  dp_AvgTpsUpdateBlock :: u64
  dp_AvgTpsInWindow :: u64
  dp_OneDayStamina :: u64
  dp_AccountCreateFee :: coin
  dp_ReputationAdmin :: "name option"
  dp_CurrentEpochStartBlock :: u64
  dp_EpochDuration :: u64
  dp_TopNAcquireFreeToken :: u32
  dp_PerTicketPrice :: coin
  dp_PerTicketWeight :: u64
  dp_TicketsIncome :: vest
  dp_ChargedTicketsNum :: u64
  dp_CopyrightAdmin :: "name option"
  dp_TicketsBpBonus :: vest

record db =
  db_accounts :: "(name, account) tbl"
  db_producers :: "(name, block_producer) tbl"
  db_bpVotes :: "(name \<times> name, bp_vote) tbl"
  db_posts :: "(u64, post) tbl"
  db_votes :: "(voter_id, vote) tbl"
  db_voteCashouts :: "(u64, voter_id list) tbl"
  db_stakes :: "(name \<times> name, stake_record) tbl"
  db_tickets :: "(gift_ticket_key, gift_ticket) tbl"
  db_delegations :: "(u64, vest_delegation) tbl"
  db_contracts :: "(name \<times> string, contract) tbl"
  db_schedule :: bp_schedule
  db_blockSummary :: "(u32, hash) tbl"
  db_blocktrxs :: "(u64, bytes) tbl"
  db_incId :: u64
  db_props :: dynamic_properties

section \<open>Reading and writing the dynamic global properties\<close>

text \<open>
  \<open>GetProps\<close> is the selector \<^const>\<open>db_props\<close>; \<open>ModifyProps\<close> reads the properties, runs the
  caller's function on the copy and stores the copy.
\<close>

definition ModifyProps ::
  "(dynamic_properties \<Rightarrow> dynamic_properties res) \<Rightarrow> db \<Rightarrow> db res" where
  "ModifyProps modifier s =
     rbind (modifier (db_props s)) (\<lambda>props. Inr (s\<lparr>db_props := props\<rparr>))"

definition HeadBlockTime :: "db \<Rightarrow> u32" where
  "HeadBlockTime s = dp_Time (db_props s)"

definition TransferToVest :: "coin \<Rightarrow> db \<Rightarrow> db res" where
  "TransferToVest value = ModifyProps (\<lambda>dgpo.
     rbind (coin_Sub (dp_TotalCos dgpo) value) (\<lambda>cos.
     rbind (vest_Add (dp_TotalVest dgpo) (coin_ToVest value)) (\<lambda>vest.
     Inr (dgpo\<lparr>dp_TotalCos := cos, dp_TotalVest := vest\<rparr>))))"

definition TransferFromVest :: "vest \<Rightarrow> db \<Rightarrow> db res" where
  "TransferFromVest value = ModifyProps (\<lambda>dgpo.
     rbind (coin_Add (dp_TotalCos dgpo) (vest_ToCoin value)) (\<lambda>cos.
     rbind (vest_Sub (dp_TotalVest dgpo) value) (\<lambda>vest.
     Inr (dgpo\<lparr>dp_TotalCos := cos, dp_TotalVest := vest\<rparr>))))"

definition TransferToStakeVest :: "coin \<Rightarrow> db \<Rightarrow> db res" where
  "TransferToStakeVest value = ModifyProps (\<lambda>dgpo.
     rbind (vest_Add (dp_StakeVest dgpo) (coin_ToVest value)) (\<lambda>stake.
     Inr (dgpo\<lparr>dp_StakeVest := stake\<rparr>)))"

definition TransferFromStakeVest :: "vest \<Rightarrow> db \<Rightarrow> db res" where
  "TransferFromStakeVest value = ModifyProps (\<lambda>dgpo.
     rbind (vest_Sub (dp_StakeVest dgpo) value) (\<lambda>stake.
     Inr (dgpo\<lparr>dp_StakeVest := stake\<rparr>)))"

definition UpdateTicketIncomeAndNum :: "vest \<Rightarrow> u64 \<Rightarrow> db \<Rightarrow> db res" where
  "UpdateTicketIncomeAndNum income cnt = ModifyProps (\<lambda>props.
     Inr (props\<lparr>dp_TicketsIncome := income, dp_ChargedTicketsNum := cnt\<rparr>))"

section \<open>The tables of the database\<close>

text \<open>
  The wrappers of the individual tables: \<open>NewSoAccountWrap(db, name).Modify(f)\<close> and so on. The
  account table has a second unique column, the public key, and the block producer votes one,
  the voter's name.
\<close>

definition account_Get :: "name \<Rightarrow> db \<Rightarrow> account res" where
  "account_Get k s = tbl_Get (db_accounts s) k"

definition account_Create :: "name \<Rightarrow> account \<Rightarrow> db \<Rightarrow> db res" where
  "account_Create k a s =
     rbind (tbl_CreateUni acc_PubKey k a (db_accounts s)) (\<lambda>t. Inr (s\<lparr>db_accounts := t\<rparr>))"

definition account_Modify :: "name \<Rightarrow> (account \<Rightarrow> account res) \<Rightarrow> db \<Rightarrow> db res" where
  "account_Modify k f s =
     rbind (tbl_ModifyUni acc_PubKey k f (db_accounts s)) (\<lambda>t. Inr (s\<lparr>db_accounts := t\<rparr>))"

definition producer_Get :: "name \<Rightarrow> db \<Rightarrow> block_producer res" where
  "producer_Get k s = tbl_Get (db_producers s) k"

definition producer_Create :: "name \<Rightarrow> block_producer \<Rightarrow> db \<Rightarrow> db res" where
  "producer_Create k b s =
     rbind (tbl_Create k b (db_producers s)) (\<lambda>t. Inr (s\<lparr>db_producers := t\<rparr>))"

definition producer_Modify :: "name \<Rightarrow> (block_producer \<Rightarrow> block_producer res) \<Rightarrow> db \<Rightarrow> db res" where
  "producer_Modify k f s =
     rbind (tbl_Modify k f (db_producers s)) (\<lambda>t. Inr (s\<lparr>db_producers := t\<rparr>))"

definition bpVote_Create :: "name \<times> name \<Rightarrow> bp_vote \<Rightarrow> db \<Rightarrow> db res" where
  "bpVote_Create k v s =
     rbind (tbl_CreateUni bvo_VoterName k v (db_bpVotes s)) (\<lambda>t. Inr (s\<lparr>db_bpVotes := t\<rparr>))"

definition bpVote_Remove :: "name \<times> name \<Rightarrow> db \<Rightarrow> db res" where
  "bpVote_Remove k s =
     rbind (tbl_Remove k (db_bpVotes s)) (\<lambda>t. Inr (s\<lparr>db_bpVotes := t\<rparr>))"

definition post_Get :: "u64 \<Rightarrow> db \<Rightarrow> post res" where
  "post_Get k s = tbl_Get (db_posts s) k"

definition post_Create :: "u64 \<Rightarrow> post \<Rightarrow> db \<Rightarrow> db res" where
  "post_Create k p s = rbind (tbl_Create k p (db_posts s)) (\<lambda>t. Inr (s\<lparr>db_posts := t\<rparr>))"

definition post_Modify :: "u64 \<Rightarrow> (post \<Rightarrow> post res) \<Rightarrow> db \<Rightarrow> db res" where
  "post_Modify k f s = rbind (tbl_Modify k f (db_posts s)) (\<lambda>t. Inr (s\<lparr>db_posts := t\<rparr>))"

definition vote_Create :: "voter_id \<Rightarrow> vote \<Rightarrow> db \<Rightarrow> db res" where
  "vote_Create k v s = rbind (tbl_Create k v (db_votes s)) (\<lambda>t. Inr (s\<lparr>db_votes := t\<rparr>))"

definition stake_Get :: "name \<times> name \<Rightarrow> db \<Rightarrow> stake_record res" where
  "stake_Get k s = tbl_Get (db_stakes s) k"

definition stake_Create :: "name \<times> name \<Rightarrow> stake_record \<Rightarrow> db \<Rightarrow> db res" where
  "stake_Create k r s = rbind (tbl_Create k r (db_stakes s)) (\<lambda>t. Inr (s\<lparr>db_stakes := t\<rparr>))"

definition stake_Modify ::
  "name \<times> name \<Rightarrow> (stake_record \<Rightarrow> stake_record res) \<Rightarrow> db \<Rightarrow> db res" where
  "stake_Modify k f s = rbind (tbl_Modify k f (db_stakes s)) (\<lambda>t. Inr (s\<lparr>db_stakes := t\<rparr>))"

definition ticket_Create :: "gift_ticket_key \<Rightarrow> gift_ticket \<Rightarrow> db \<Rightarrow> db res" where
  "ticket_Create k r s = rbind (tbl_Create k r (db_tickets s)) (\<lambda>t. Inr (s\<lparr>db_tickets := t\<rparr>))"

definition ticket_Remove :: "gift_ticket_key \<Rightarrow> db \<Rightarrow> db res" where
  "ticket_Remove k s = rbind (tbl_Remove k (db_tickets s)) (\<lambda>t. Inr (s\<lparr>db_tickets := t\<rparr>))"

definition delegation_Get :: "u64 \<Rightarrow> db \<Rightarrow> vest_delegation res" where
  "delegation_Get k s = tbl_Get (db_delegations s) k"

definition delegation_Create :: "u64 \<Rightarrow> vest_delegation \<Rightarrow> db \<Rightarrow> db res" where
  "delegation_Create k r s =
     rbind (tbl_Create k r (db_delegations s)) (\<lambda>t. Inr (s\<lparr>db_delegations := t\<rparr>))"

definition delegation_Modify ::
  "u64 \<Rightarrow> (vest_delegation \<Rightarrow> vest_delegation res) \<Rightarrow> db \<Rightarrow> db res" where
  "delegation_Modify k f s =
     rbind (tbl_Modify k f (db_delegations s)) (\<lambda>t. Inr (s\<lparr>db_delegations := t\<rparr>))"

definition delegation_Remove :: "u64 \<Rightarrow> db \<Rightarrow> db res" where
  "delegation_Remove k s =
     rbind (tbl_Remove k (db_delegations s)) (\<lambda>t. Inr (s\<lparr>db_delegations := t\<rparr>))"

definition contract_Get :: "name \<times> string \<Rightarrow> db \<Rightarrow> contract res" where
  "contract_Get k s = tbl_Get (db_contracts s) k"

definition contract_Create :: "name \<times> string \<Rightarrow> contract \<Rightarrow> db \<Rightarrow> db res" where
  "contract_Create k c s =
     rbind (tbl_Create k c (db_contracts s)) (\<lambda>t. Inr (s\<lparr>db_contracts := t\<rparr>))"

definition contract_Modify ::
  "name \<times> string \<Rightarrow> (contract \<Rightarrow> contract res) \<Rightarrow> db \<Rightarrow> db res" where
  "contract_Modify k f s =
     rbind (tbl_Modify k f (db_contracts s)) (\<lambda>t. Inr (s\<lparr>db_contracts := t\<rparr>))"

section \<open>Inversion of the tables' wrappers\<close>

lemma ModifyProps_Inr [res_inv]:
  "ModifyProps f s = Inr s' \<longleftrightarrow> (\<exists>p. f (db_props s) = Inr p \<and> s' = s\<lparr>db_props := p\<rparr>)"
  by (auto simp: ModifyProps_def rbind_Inr_iff)

lemma account_Get_Inr [res_inv]: "account_Get k s = Inr a \<longleftrightarrow> tbl_get (db_accounts s) k = Some a"
  by (simp add: account_Get_def tbl_Get_Inr)

lemma account_Modify_Inr [res_inv]:
  "account_Modify k f s = Inr s' \<longleftrightarrow>
     (\<exists>a a'. tbl_get (db_accounts s) k = Some a \<and> f a = Inr a' \<and>
        (acc_PubKey a' = acc_PubKey a \<or>
         tbl_UniQuery acc_PubKey (acc_PubKey a') (db_accounts s) = None) \<and>
        s' = s\<lparr>db_accounts := tbl_put k a' (db_accounts s)\<rparr>)"
  by (auto simp: account_Modify_def res_inv)

lemma account_Create_Inr [res_inv]:
  "account_Create k a s = Inr s' \<longleftrightarrow>
     tbl_get (db_accounts s) k = None \<and>
     tbl_UniQuery acc_PubKey (acc_PubKey a) (db_accounts s) = None \<and>
     s' = s\<lparr>db_accounts := tbl_put k a (db_accounts s)\<rparr>"
  by (auto simp: account_Create_def res_inv)

lemma producer_Get_Inr [res_inv]:
  "producer_Get k s = Inr v \<longleftrightarrow> tbl_get (db_producers s) k = Some v"
  by (auto simp: producer_Get_def res_inv)

lemma producer_Create_Inr [res_inv]:
  "producer_Create k v s = Inr s' \<longleftrightarrow>
     tbl_get (db_producers s) k = None \<and> s' = s\<lparr>db_producers := tbl_put k v (db_producers s)\<rparr>"
  by (auto simp: producer_Create_def res_inv)

lemma producer_Modify_Inr [res_inv]:
  "producer_Modify k f s = Inr s' \<longleftrightarrow>
     (\<exists>v v'. tbl_get (db_producers s) k = Some v \<and> f v = Inr v' \<and>
        s' = s\<lparr>db_producers := tbl_put k v' (db_producers s)\<rparr>)"
  by (auto simp: producer_Modify_def res_inv)

lemma post_Get_Inr [res_inv]:
  "post_Get k s = Inr v \<longleftrightarrow> tbl_get (db_posts s) k = Some v"
  by (auto simp: post_Get_def res_inv)

lemma post_Create_Inr [res_inv]:
  "post_Create k v s = Inr s' \<longleftrightarrow>
     tbl_get (db_posts s) k = None \<and> s' = s\<lparr>db_posts := tbl_put k v (db_posts s)\<rparr>"
  by (auto simp: post_Create_def res_inv)

lemma post_Modify_Inr [res_inv]:
  "post_Modify k f s = Inr s' \<longleftrightarrow>
     (\<exists>v v'. tbl_get (db_posts s) k = Some v \<and> f v = Inr v' \<and>
        s' = s\<lparr>db_posts := tbl_put k v' (db_posts s)\<rparr>)"
  by (auto simp: post_Modify_def res_inv)

lemma vote_Create_Inr [res_inv]:
  "vote_Create k v s = Inr s' \<longleftrightarrow>
     tbl_get (db_votes s) k = None \<and> s' = s\<lparr>db_votes := tbl_put k v (db_votes s)\<rparr>"
  by (auto simp: vote_Create_def res_inv)

lemma stake_Get_Inr [res_inv]:
  "stake_Get k s = Inr v \<longleftrightarrow> tbl_get (db_stakes s) k = Some v"
  by (auto simp: stake_Get_def res_inv)

lemma stake_Create_Inr [res_inv]:
  "stake_Create k v s = Inr s' \<longleftrightarrow>
     tbl_get (db_stakes s) k = None \<and> s' = s\<lparr>db_stakes := tbl_put k v (db_stakes s)\<rparr>"
  by (auto simp: stake_Create_def res_inv)

lemma stake_Modify_Inr [res_inv]:
  "stake_Modify k f s = Inr s' \<longleftrightarrow>
     (\<exists>v v'. tbl_get (db_stakes s) k = Some v \<and> f v = Inr v' \<and>
        s' = s\<lparr>db_stakes := tbl_put k v' (db_stakes s)\<rparr>)"
  by (auto simp: stake_Modify_def res_inv)

lemma ticket_Create_Inr [res_inv]:
  "ticket_Create k v s = Inr s' \<longleftrightarrow>
     tbl_get (db_tickets s) k = None \<and> s' = s\<lparr>db_tickets := tbl_put k v (db_tickets s)\<rparr>"
  by (auto simp: ticket_Create_def res_inv)

lemma ticket_Remove_Inr [res_inv]:
  "ticket_Remove k s = Inr s' \<longleftrightarrow>
     (\<exists>v. tbl_get (db_tickets s) k = Some v) \<and> s' = s\<lparr>db_tickets := tbl_del k (db_tickets s)\<rparr>"
  by (auto simp: ticket_Remove_def res_inv)

lemma delegation_Get_Inr [res_inv]:
  "delegation_Get k s = Inr v \<longleftrightarrow> tbl_get (db_delegations s) k = Some v"
  by (auto simp: delegation_Get_def res_inv)

lemma delegation_Create_Inr [res_inv]:
  "delegation_Create k v s = Inr s' \<longleftrightarrow>
     tbl_get (db_delegations s) k = None \<and> s' = s\<lparr>db_delegations := tbl_put k v (db_delegations s)\<rparr>"
  by (auto simp: delegation_Create_def res_inv)

lemma delegation_Modify_Inr [res_inv]:
  "delegation_Modify k f s = Inr s' \<longleftrightarrow>
     (\<exists>v v'. tbl_get (db_delegations s) k = Some v \<and> f v = Inr v' \<and>
        s' = s\<lparr>db_delegations := tbl_put k v' (db_delegations s)\<rparr>)"
  by (auto simp: delegation_Modify_def res_inv)

lemma delegation_Remove_Inr [res_inv]:
  "delegation_Remove k s = Inr s' \<longleftrightarrow>
     (\<exists>v. tbl_get (db_delegations s) k = Some v) \<and> s' = s\<lparr>db_delegations := tbl_del k (db_delegations s)\<rparr>"
  by (auto simp: delegation_Remove_def res_inv)

lemma contract_Get_Inr [res_inv]:
  "contract_Get k s = Inr v \<longleftrightarrow> tbl_get (db_contracts s) k = Some v"
  by (auto simp: contract_Get_def res_inv)

lemma contract_Create_Inr [res_inv]:
  "contract_Create k v s = Inr s' \<longleftrightarrow>
     tbl_get (db_contracts s) k = None \<and> s' = s\<lparr>db_contracts := tbl_put k v (db_contracts s)\<rparr>"
  by (auto simp: contract_Create_def res_inv)

lemma contract_Modify_Inr [res_inv]:
  "contract_Modify k f s = Inr s' \<longleftrightarrow>
     (\<exists>v v'. tbl_get (db_contracts s) k = Some v \<and> f v = Inr v' \<and>
        s' = s\<lparr>db_contracts := tbl_put k v' (db_contracts s)\<rparr>)"
  by (auto simp: contract_Modify_def res_inv)

lemma bpVote_Remove_Inr [res_inv]:
  "bpVote_Remove k s = Inr s' \<longleftrightarrow>
     (\<exists>v. tbl_get (db_bpVotes s) k = Some v) \<and> s' = s\<lparr>db_bpVotes := tbl_del k (db_bpVotes s)\<rparr>"
  by (auto simp: bpVote_Remove_def res_inv)

lemma bpVote_Create_Inr [res_inv]:
  "bpVote_Create k v s = Inr s' \<longleftrightarrow>
     tbl_get (db_bpVotes s) k = None \<and>
     tbl_UniQuery bvo_VoterName (bvo_VoterName v) (db_bpVotes s) = None \<and>
     s' = s\<lparr>db_bpVotes := tbl_put k v (db_bpVotes s)\<rparr>"
  by (auto simp: bpVote_Create_def res_inv)

end
