(* ===== verification/Operations.thy ===== *)
theory Operations
  imports ChainState
begin

text \<open>
  The operations a transaction is made of (\<open>prototype/operation.proto\<close>, \<open>prototype/op_*.go\<close>):
  one record per message, the checks of \<open>Validate\<close>, the signer \<open>GetSigner\<close> asks for and the
  properties \<open>GetAffectedProps\<close> announces to the scheduler. Amounts and the chain properties are
  pointers in Go and are options here, so a message that leaves them out is a value of the model;
  an account name or a public key that is left out is the empty one, which the source rejects in
  the same places. \<open>Validate\<close> returns \<open>Inl\<close> for a run-time panic, \<open>Inr (Some e)\<close> for an error and
  \<open>Inr None\<close> for Go's nil error.
\<close>

section \<open>The messages\<close>

record chain_properties =
  cp_AccountCreationFee :: "coin option"
  cp_StaminaFree :: u64
  cp_TpsExpected :: u64
  cp_TopNAcquireFreeToken :: u32
  cp_EpochDuration :: u64
  cp_PerTicketPrice :: "coin option"
  cp_PerTicketWeight :: u64

record account_create_operation =
  ac_Fee :: "coin option"
  ac_Creator :: name
  ac_NewAccountName :: name
  ac_PubKey :: pubkey

record account_update_operation =
  au_Owner :: name
  au_PubKey :: pubkey

record transfer_operation =
  tr_From :: name
  tr_To :: name
  tr_Amount :: "coin option"
  tr_Memo :: string

record transfer_to_vest_operation =
  tv_From :: name
  tv_To :: name
  tv_Amount :: "coin option"
  tv_Memo :: string

record vote_operation =
  vt_Voter :: name
  vt_Idx :: u64

record bp_register_operation =
  br_Owner :: name
  br_Url :: string
  br_Desc :: string
  br_BlockSigningKey :: pubkey
  br_Props :: "chain_properties option"

record bp_update_operation =
  bu_Owner :: name
  bu_Props :: "chain_properties option"

record bp_enable_operation =
  be_Owner :: name
  be_Cancel :: bool

record bp_vote_operation =
  bw_Voter :: name
  bw_BlockProducer :: name
  bw_Cancel :: bool

record follow_operation =
  fo_Account :: name
  fo_FAccount :: name
  fo_Cancel :: bool

record contract_deploy_operation =
  cd_Owner :: name
  cd_Contract :: string
  cd_Abi :: bytes
  cd_Code :: bytes
  cd_Upgradeable :: bool
  cd_Url :: string
  cd_Describe :: string

record contract_apply_operation =
  ca_Caller :: name
  ca_Owner :: name
  ca_Contract :: string
  ca_Method :: string
  ca_Params :: string
  ca_Amount :: "coin option"

record internal_contract_apply_operation =
  ia_FromCaller :: name
  ia_FromOwner :: name
  ia_FromContract :: string
  ia_FromMethod :: string
  ia_ToOwner :: name
  ia_ToContract :: string
  ia_ToMethod :: string
  ia_Params :: bytes
  ia_Amount :: coin

record post_operation =
  pp_Uuid :: u64
  pp_Owner :: name
  pp_Title :: string
  pp_Content :: string
  pp_Tags :: "string list"
  pp_Beneficiaries :: "(name \<times> u32) list"

record reply_operation =
  rp_Uuid :: u64
  rp_Owner :: name
  rp_Content :: string
  rp_ParentUuid :: u64
  rp_Beneficiaries :: "(name \<times> u32) list"

record convert_vest_operation =
  cv_From :: name
  cv_Amount :: "vest option"

record stake_operation =
  st_From :: name
  st_To :: name
  st_Amount :: "coin option"

record un_stake_operation =
  us_Creditor :: name
  us_Debtor :: name
  us_Amount :: "coin option"

record acquire_ticket_operation =
  at_Account :: name
  at_Count :: u64

record vote_by_ticket_operation =
  vb_Account :: name
  vb_Idx :: u64
  vb_Count :: u64

record delegate_vest_operation =
  dv_From :: name
  dv_To :: name
  dv_Amount :: "vest option"
  dv_Expiration :: u64

record un_delegate_vest_operation =
  ud_Account :: name
  ud_OrderId :: u64

datatype operation =
    AccountCreate account_create_operation
  | Transfer transfer_operation
  | BpRegister bp_register_operation
  | BpEnable bp_enable_operation
  | BpVote bp_vote_operation
  | Post post_operation
  | Reply reply_operation
  | Follow follow_operation
  | Vote vote_operation
  | TransferToVestOp transfer_to_vest_operation
  | ContractDeploy contract_deploy_operation
  | ContractApply contract_apply_operation
  | ConvertVest convert_vest_operation
  | Stake stake_operation
  | UnStake un_stake_operation
  | BpUpdate bp_update_operation
  | AccountUpdate account_update_operation
  | AcquireTicket acquire_ticket_operation
  | VoteByTicket vote_by_ticket_operation
  | DelegateVest delegate_vest_operation
  | UnDelegateVest un_delegate_vest_operation

section \<open>Checks on strings and keys\<close>

type_synonym verdict = "string option res"

definition need :: "'a option \<Rightarrow> 'a res" where
  "need p = (case p of None \<Rightarrow> Inl NilDeref | Some v \<Rightarrow> Inr v)"

lemma need_Inr [res_inv]: "need p = Inr v \<longleftrightarrow> p = Some v"
  by (auto simp: need_def split: option.splits)

lemma need_Some [simp]: "need (Some v) = Inr v"
  by (simp add: need_def)

definition isValidNameChar :: "char \<Rightarrow> bool" where
  "isValidNameChar c =
     (if c \<ge> CHR ''0'' \<and> c \<le> CHR ''9'' then True
      else if c \<ge> CHR ''a'' \<and> c \<le> CHR ''z'' then True else False)"

definition AccountName_Validate :: "name \<Rightarrow> string option" where
  "AccountName_Validate n =
     (if length n < 6 \<or> length n > 16 then Some (''name length invalid: '' @ n)
      else case find (\<lambda>c. \<not> isValidNameChar c) n of
             Some c \<Rightarrow> Some (''name contains invalid char: '' @ [c])
           | None \<Rightarrow> None)"

definition ValidVarName :: "string \<Rightarrow> string option" where
  "ValidVarName s =
     (if length s < 1 \<or> length s > 64 then Some ''invalid length''
      else let c = hd s in
      if \<not> (c \<ge> CHR ''A'' \<and> c \<le> CHR ''Z'' \<or> c \<ge> CHR ''a'' \<and> c \<le> CHR ''z'' \<or> c = CHR ''_'')
      then Some ''invalid char''
      else if list_all (\<lambda>c. c \<ge> CHR ''0'' \<and> c \<le> CHR ''9'' \<or> c \<ge> CHR ''A'' \<and> c \<le> CHR ''Z'' \<or>
                             c \<ge> CHR ''a'' \<and> c \<le> CHR ''z'' \<or> c = CHR ''_'') (tl s)
      then None else Some ''invalid char'')"

definition stringLengthValidator :: "string \<Rightarrow> nat \<Rightarrow> nat \<Rightarrow> string option" where
  "stringLengthValidator s lo hi =
     (if length s < lo \<or> length s > hi then Some ''invalid length'' else None)"

definition AtMost1KChars :: "string \<Rightarrow> string option" where
  "AtMost1KChars s = stringLengthValidator s 0 (1024 * 1)"

definition AtMost4KChars :: "string \<Rightarrow> string option" where
  "AtMost4KChars s = stringLengthValidator s 0 (1024 * 4)"

definition PublicKey_Validate :: "pubkey \<Rightarrow> string option" where
  "PublicKey_Validate k = (if length k \<noteq> 33 then Some ''Key Length Error'' else None)"

text \<open>
  The shape every \<open>Validate\<close> has: a sequence of checks, each an early return of its error
  (\<open>errors.WithMessage\<close> puts a prefix in front of it).
\<close>

definition check :: "string option \<Rightarrow> verdict \<Rightarrow> verdict" where
  "check e k = (case e of Some m \<Rightarrow> Inr (Some m) | None \<Rightarrow> k)"

definition check_msg :: "string option \<Rightarrow> string \<Rightarrow> verdict \<Rightarrow> verdict" where
  "check_msg e pre k = check (map_option (\<lambda>m. pre @ '': '' @ m) e) k"

definition fail_if :: "bool \<Rightarrow> string \<Rightarrow> verdict \<Rightarrow> verdict" where
  "fail_if b m k = (if b then Inr (Some m) else k)"

definition passed :: verdict where
  "passed = Inr None"

text \<open>\<open>p == nil || p.Value == 0\<close>, and the getter \<open>p.GetValue()\<close>, which is 0 on nil.\<close>

definition nil_or_zero :: "u64 option \<Rightarrow> bool" where
  "nil_or_zero p = (case p of None \<Rightarrow> True | Some v \<Rightarrow> v = 0)"

definition GetValue :: "u64 option \<Rightarrow> u64" where
  "GetValue p = (case p of None \<Rightarrow> 0 | Some v \<Rightarrow> v)"

section \<open>Validation of each operation\<close>

definition AccountCreate_Validate :: "account_create_operation \<Rightarrow> verdict" where
  "AccountCreate_Validate a =
     check_msg (AccountName_Validate (ac_Creator a)) ''Creator error'' (
     check_msg (AccountName_Validate (ac_NewAccountName a)) ''NewAccountName error'' (
     check_msg (PublicKey_Validate (ac_PubKey a)) ''Owner error'' (
     fail_if (nil_or_zero (ac_Fee a)) ''Account Create must set Fee'' passed)))"

definition AccountUpdate_Validate :: "account_update_operation \<Rightarrow> verdict" where
  "AccountUpdate_Validate m =
     check (PublicKey_Validate (au_PubKey m)) (
     check (AccountName_Validate (au_Owner m)) passed)"

definition Transfer_Validate :: "transfer_operation \<Rightarrow> verdict" where
  "Transfer_Validate t =
     check_msg (AccountName_Validate (tr_From t)) ''From error'' (
     check_msg (AccountName_Validate (tr_To t)) ''To error'' (
     fail_if (nil_or_zero (tr_Amount t)) ''transfer op must has amount value'' (
     check_msg (AtMost4KChars (tr_Memo t)) ''invalid memo'' passed)))"

definition TransferToVest_Validate :: "transfer_to_vest_operation \<Rightarrow> verdict" where
  "TransferToVest_Validate m =
     check_msg (AccountName_Validate (tv_From m)) ''From error'' (
     check_msg (AccountName_Validate (tv_To m)) ''To error'' (
     fail_if (nil_or_zero (tv_Amount m)) ''amount cant be 0'' (
     check_msg (AtMost4KChars (tv_Memo m)) ''invalid memo'' passed)))"

definition Post_Validate :: "post_operation \<Rightarrow> verdict" where
  "Post_Validate m =
     check_msg (AccountName_Validate (pp_Owner m)) ''Owner error'' (
     fail_if (pp_Uuid m = PostInvalidId) ''uuid cant be 0'' (
     fail_if (length (pp_Title m) = 0) ''title cant be null'' (
     fail_if (length (pp_Content m) = 0) ''content cant be null'' (
     fail_if (length (pp_Tags m) = 0) ''tags cant be null'' (
     fail_if (list_ex (\<lambda>val. length val = 0) (pp_Tags m)) ''tag length cant be null'' passed)))))"

definition Reply_Validate :: "reply_operation \<Rightarrow> verdict" where
  "Reply_Validate m =
     check_msg (AccountName_Validate (rp_Owner m)) ''Follower error'' (
     fail_if (rp_Uuid m = PostInvalidId) ''uuid cant be 0'' (
     fail_if (rp_ParentUuid m = PostInvalidId) ''parent uuid cant be 0'' (
     fail_if (length (rp_Content m) = 0) ''content cant be null'' passed)))"

definition Vote_Validate :: "vote_operation \<Rightarrow> verdict" where
  "Vote_Validate m =
     check_msg (AccountName_Validate (vt_Voter m)) ''Voter error'' (
     fail_if (vt_Idx m = 0) ''uuid cant be 0'' passed)"

definition BpRegister_Validate :: "bp_register_operation \<Rightarrow> verdict" where
  "BpRegister_Validate m =
     check_msg (AccountName_Validate (br_Owner m)) ''Owner error'' (
     check_msg (PublicKey_Validate (br_BlockSigningKey m)) ''BlockSigningKey error'' (
     fail_if (br_Props m = None) ''Null Pointer'' (
     check_msg (AtMost1KChars (br_Url m)) ''invalid url'' (
     check_msg (AtMost4KChars (br_Desc m)) ''invalid description'' passed))))"

definition BpUpdate_Validate :: "bp_update_operation \<Rightarrow> verdict" where
  "BpUpdate_Validate m = check_msg (AccountName_Validate (bu_Owner m)) ''Owner error'' passed"

definition BpEnable_Validate :: "bp_enable_operation \<Rightarrow> verdict" where
  "BpEnable_Validate m = check_msg (AccountName_Validate (be_Owner m)) ''Owner error'' passed"

definition BpVote_Validate :: "bp_vote_operation \<Rightarrow> verdict" where
  "BpVote_Validate m =
     check_msg (AccountName_Validate (bw_Voter m)) ''Voter error'' (
     check_msg (AccountName_Validate (bw_BlockProducer m)) ''BlockProducer error'' passed)"

definition Follow_Validate :: "follow_operation \<Rightarrow> verdict" where
  "Follow_Validate m =
     check_msg (AccountName_Validate (fo_Account m)) ''Follower error'' (
     check_msg (AccountName_Validate (fo_FAccount m)) ''Following error'' passed)"

definition ContractDeploy_Validate :: "contract_deploy_operation \<Rightarrow> verdict" where
  "ContractDeploy_Validate m =
     fail_if (length (cd_Code m) \<le> 0) ''code size must cant be 0'' (
     fail_if (length (cd_Abi m) \<le> 0) ''abi size must cant be 0'' (
     check_msg (ValidVarName (cd_Contract m)) ''invalid contract name'' (
     check_msg (AtMost1KChars (cd_Url m)) ''invalid contract url'' (
     check_msg (AtMost4KChars (cd_Describe m)) ''invalid contract description'' (
     check (AccountName_Validate (cd_Owner m)) passed)))))"

definition ContractApply_Validate :: "contract_apply_operation \<Rightarrow> verdict" where
  "ContractApply_Validate m =
     check (AccountName_Validate (ca_Owner m)) (
     check (AccountName_Validate (ca_Caller m)) (
     check_msg (ValidVarName (ca_Contract m)) ''invalid contract name'' (
     check_msg (ValidVarName (ca_Method m)) ''invalid contract method name'' passed)))"

definition ConvertVest_Validate :: "convert_vest_operation \<Rightarrow> verdict" where
  "ConvertVest_Validate t =
     check_msg (AccountName_Validate (cv_From t)) ''From error'' (
     fail_if (case cv_Amount t of None \<Rightarrow> True | Some v \<Rightarrow> v < COSTokenDecimals)
       (''Amount field is required by convert vest operation'' @
        '' and the value should greater than 1000000 (1 cos)'') passed)"

definition Stake_Validate :: "stake_operation \<Rightarrow> verdict" where
  "Stake_Validate m =
     check (AccountName_Validate (st_From m)) (
     check (AccountName_Validate (st_To m)) (
     rbind (need (st_Amount m)) (\<lambda>amount.
     fail_if (amount = 0) ''Coin Value Zero Error'' passed)))"

definition UnStake_Validate :: "un_stake_operation \<Rightarrow> verdict" where
  "UnStake_Validate m =
     check (AccountName_Validate (us_Creditor m)) (
     check (AccountName_Validate (us_Debtor m)) (
     rbind (need (us_Amount m)) (\<lambda>amount.
     fail_if (amount = 0) ''Coin Value Zero Error'' passed)))"

definition AcquireTicket_Validate :: "acquire_ticket_operation \<Rightarrow> verdict" where
  "AcquireTicket_Validate a =
     check_msg (AccountName_Validate (at_Account a)) ''Account error'' (
     fail_if (at_Count a \<le> 0) ''Acquire at least 1 ticket'' passed)"

definition VoteByTicket_Validate :: "vote_by_ticket_operation \<Rightarrow> verdict" where
  "VoteByTicket_Validate a =
     check_msg (AccountName_Validate (vb_Account a)) ''account error'' (
     fail_if (vb_Count a \<le> 0) ''vote at least 1 ticket'' passed)"

definition DelegateVest_Validate :: "delegate_vest_operation \<Rightarrow> verdict" where
  "DelegateVest_Validate m =
     check_msg (AccountName_Validate (dv_From m)) ''from account error'' (
     check_msg (AccountName_Validate (dv_To m)) ''to account error'' (
     fail_if (GetValue (dv_Amount m) < MinVestDelegationAmount) ''amount too small'' (
     fail_if (dv_Expiration m < MinVestDelegationInBlocks) ''expiration too short'' (
     fail_if (dv_Expiration m > MaxVestDelegationInBlocks) ''expiration too long'' passed))))"

definition UnDelegateVest_Validate :: "un_delegate_vest_operation \<Rightarrow> verdict" where
  "UnDelegateVest_Validate m = fail_if (ud_OrderId m = 0) ''invalid order id'' passed"

definition validateOp :: "operation \<Rightarrow> verdict" where
  "validateOp op =
     (case op of
        AccountCreate o1 \<Rightarrow> AccountCreate_Validate o1
      | Transfer o2 \<Rightarrow> Transfer_Validate o2
      | BpRegister o3 \<Rightarrow> BpRegister_Validate o3
      | BpEnable o4 \<Rightarrow> BpEnable_Validate o4
      | BpVote o5 \<Rightarrow> BpVote_Validate o5
      | Post o6 \<Rightarrow> Post_Validate o6
      | Reply o7 \<Rightarrow> Reply_Validate o7
      | Follow o8 \<Rightarrow> Follow_Validate o8
      | Vote o9 \<Rightarrow> Vote_Validate o9
      | TransferToVestOp o10 \<Rightarrow> TransferToVest_Validate o10
      | ContractDeploy o13 \<Rightarrow> ContractDeploy_Validate o13
      | ContractApply o14 \<Rightarrow> ContractApply_Validate o14
      | ConvertVest o16 \<Rightarrow> ConvertVest_Validate o16
      | Stake o17 \<Rightarrow> Stake_Validate o17
      | UnStake o18 \<Rightarrow> UnStake_Validate o18
      | BpUpdate o19 \<Rightarrow> BpUpdate_Validate o19
      | AccountUpdate o20 \<Rightarrow> AccountUpdate_Validate o20
      | AcquireTicket o21 \<Rightarrow> AcquireTicket_Validate o21
      | VoteByTicket o22 \<Rightarrow> VoteByTicket_Validate o22
      | DelegateVest o23 \<Rightarrow> DelegateVest_Validate o23
      | UnDelegateVest o24 \<Rightarrow> UnDelegateVest_Validate o24)"

section \<open>Transactions\<close>

record transaction =
  tx_RefBlockNum :: u32
  tx_RefBlockPrefix :: u32
  tx_Expiration :: "u32 option"
  tx_Operations :: "operation list"

fun validateOps :: "nat \<Rightarrow> operation list \<Rightarrow> verdict" where
  "validateOps index [] = passed"
| "validateOps index (op # ops) =
     rbind (validateOp op) (\<lambda>e.
     check_msg e (''Operation Error index: '' @ show_nat index) (validateOps (Suc index) ops))"

definition Transaction_Validate :: "transaction \<Rightarrow> verdict" where
  "Transaction_Validate m =
     fail_if (tx_Expiration m = None) ''trx must has Expiration'' (
     fail_if (length (tx_Operations m) = 0) ''trx must has Operations'' (
     validateOps 0 (tx_Operations m)))"

text \<open>The signer of an operation, and the set of signers of a transaction as a list of its keys.\<close>

definition GetSigner :: "operation \<Rightarrow> name" where
  "GetSigner op =
     (case op of
        AccountCreate a \<Rightarrow> ac_Creator a
      | Transfer t \<Rightarrow> tr_From t
      | BpRegister m \<Rightarrow> br_Owner m
      | BpEnable m \<Rightarrow> be_Owner m
      | BpVote m \<Rightarrow> bw_Voter m
      | Post m \<Rightarrow> pp_Owner m
      | Reply m \<Rightarrow> rp_Owner m
      | Follow m \<Rightarrow> fo_Account m
      | Vote m \<Rightarrow> vt_Voter m
      | TransferToVestOp m \<Rightarrow> tv_From m
      | ContractDeploy m \<Rightarrow> cd_Owner m
      | ContractApply m \<Rightarrow> ca_Caller m
      | ConvertVest t \<Rightarrow> cv_From t
      | Stake m \<Rightarrow> st_From m
      | UnStake m \<Rightarrow> us_Creditor m
      | BpUpdate m \<Rightarrow> bu_Owner m
      | AccountUpdate m \<Rightarrow> au_Owner m
      | AcquireTicket a \<Rightarrow> at_Account a
      | VoteByTicket a \<Rightarrow> vb_Account a
      | DelegateVest m \<Rightarrow> dv_From m
      | UnDelegateVest m \<Rightarrow> ud_Account m)"

definition GetOpCreatorsMap :: "transaction \<Rightarrow> name list" where
  "GetOpCreatorsMap tx = remdups (map GetSigner (tx_Operations tx))"

text \<open>
  What an operation announces to the scheduler: a transfer the two accounts, every other
  operation the whole state, written \<open>*\<close>.
\<close>

definition op_GetAffectedProps :: "operation \<Rightarrow> string list" where
  "op_GetAffectedProps op =
     (case op of Transfer m \<Rightarrow> remdups [tr_From m, tr_To m] | _ \<Rightarrow> [''*''])"

definition GetAffectedProps :: "transaction \<Rightarrow> string list" where
  "GetAffectedProps tx =
     (let p = remdups (concat (map op_GetAffectedProps (tx_Operations tx)))
      in if ''*'' \<in> set p then [''*''] else p)"

end
