(* ===== verification/Evaluator.thy ===== *)
theory Evaluator
  imports Operations
begin

text \<open>
  The evaluators of \<open>app/evaluator.go\<close>: one definition per \<open>Apply\<close> method, from the operation and
  the state of the transaction to the new state or the panic that ends the transaction. The
  operations on contracts are in their own theory, since they run the virtual machine. Times and
  block numbers are machine words and their differences wrap as in the source.
\<close>

definition isBadGuy :: "u64 \<Rightarrow> name \<Rightarrow> bool" where
  "isBadGuy currentHardFork account =
     (currentHardFork \<ge> HardFork4 \<and> (account = ''iuaghdfkjan'' \<or> account = ''woerujdfsdf''))"

section \<open>Accounts and transfers\<close>

definition new_account :: "name \<Rightarrow> name \<Rightarrow> u32 \<Rightarrow> vest \<Rightarrow> pubkey \<Rightarrow> account" where
  "new_account name creator now vest key =
     \<lparr>acc_Name = name, acc_CreatedTime = now, acc_Creator = creator, acc_Balance = 0,
      acc_Vest = vest, acc_BpVoteCount = 0, acc_LastVoteTime = now, acc_LastPostTime = now,
      acc_VotePower = FullVP, acc_StartPowerdownBlockNum = 0,
      acc_NextPowerdownBlockNum = MaxUint64, acc_EachPowerdownRate = 0, acc_ToPowerdown = 0,
      acc_HasPowerdown = 0, acc_PubKey = key, acc_Stamina = 0, acc_StaminaUseBlock = 0,
      acc_StaminaFree = 0, acc_StaminaFreeUseBlock = 0, acc_StakeVestFromMe = 0,
      acc_StakeVestForMe = 0, acc_Reputation = DefaultReputation, acc_ReputationMemo = '''',
      acc_ChargedTicket = 0, acc_Freeze = 0, acc_FreezeMemo = '''', acc_BorrowedVest = 0,
      acc_LentVest = 0, acc_DeliveringVest = 0\<rparr>"

text \<open>The functions the evaluators hand to \<open>Modify\<close>: one column changed by a checked amount.\<close>

definition sub_Balance :: "coin \<Rightarrow> account \<Rightarrow> account res" where
  "sub_Balance amount t = rbind (coin_Sub (acc_Balance t) amount) (\<lambda>b. Inr (t\<lparr>acc_Balance := b\<rparr>))"

definition add_Balance :: "coin \<Rightarrow> account \<Rightarrow> account res" where
  "add_Balance amount t = rbind (coin_Add (acc_Balance t) amount) (\<lambda>b. Inr (t\<lparr>acc_Balance := b\<rparr>))"

definition add_Vest :: "vest \<Rightarrow> account \<Rightarrow> account res" where
  "add_Vest amount t = rbind (vest_Add (acc_Vest t) amount) (\<lambda>v. Inr (t\<lparr>acc_Vest := v\<rparr>))"

definition AccountCreate_Apply :: "account_create_operation \<Rightarrow> db \<Rightarrow> db res" where
  "AccountCreate_Apply op s =
     rbind (MustExist (db_accounts s) (ac_Creator op) ''creator not exist'') (\<lambda>_.
     rbind (need (ac_Fee op)) (\<lambda>accountCreateFee.
     rbind (opAssert (accountCreateFee \<ge> dp_AccountCreateFee (db_props s))
              (''Your fee is lower than global '' @
               show_nat (unat (dp_AccountCreateFee (db_props s))))) (\<lambda>_.
     rbind (account_Get (ac_Creator op) s) (\<lambda>creator.
     rbind (opAssert (acc_Balance creator \<ge> accountCreateFee)
              ''Insufficient balance to create account.'') (\<lambda>_.
     rbind (account_Modify (ac_Creator op) (sub_Balance accountCreateFee) s) (\<lambda>s1.
     rbind (account_Create (ac_NewAccountName op)
              (new_account (ac_NewAccountName op) (ac_Creator op) (HeadBlockTime s1)
                 (coin_ToVest accountCreateFee) (ac_PubKey op)) s1) (\<lambda>s2.
     rbind (TransferToVest accountCreateFee s2) (\<lambda>s3.
     ModifyProps (\<lambda>props. Inr (props\<lparr>dp_TotalUserCnt := dp_TotalUserCnt props + 1\<rparr>)) s3))))))))"

definition AccountUpdate_Apply :: "account_update_operation \<Rightarrow> db \<Rightarrow> db res" where
  "AccountUpdate_Apply op s =
     rbind (MustExist (db_accounts s) (au_Owner op) ''update account not exist '') (\<lambda>_.
     account_Modify (au_Owner op) (\<lambda>t. Inr (t\<lparr>acc_PubKey := au_PubKey op\<rparr>)) s)"

definition Transfer_Apply :: "u64 \<Rightarrow> transfer_operation \<Rightarrow> db \<Rightarrow> db res" where
  "Transfer_Apply hardFork op s =
     rbind (MustExist (db_accounts s) (tr_To op) ''To account do not exist '') (\<lambda>_.
     rbind (opAssert (tr_From op \<noteq> tr_To op)
              ''Transfer must between two different accounts'') (\<lambda>_.
     rbind (opAssert (\<not> isBadGuy hardFork (tr_From op)) ''from account forbidden'') (\<lambda>_.
     rbind (need (tr_Amount op)) (\<lambda>amount.
     rbind (account_Modify (tr_From op) (sub_Balance amount) s) (\<lambda>s1.
     account_Modify (tr_To op) (add_Balance amount) s1)))))"

section \<open>Posts and replies\<close>

fun checkBeneficiaries :: "db \<Rightarrow> u32 \<Rightarrow> (name \<times> u32) list \<Rightarrow> unit res" where
  "checkBeneficiaries s weightAccumulator [] = Inr ()"
| "checkBeneficiaries s weightAccumulator ((name, weight) # rest) =
     rbind (MustExist (db_accounts s) name
              (''beneficiary route '' @ name @ '' does not exist in chaindb'')) (\<lambda>_.
     rbind (opAssert (weight \<le> ucast PERCENT) ''each weight should lower than 10000'') (\<lambda>_.
     let acc = weightAccumulator + weight in
     rbind (opAssert (acc \<le> ucast PERCENT)
              ''the total weight from all beneficiary routes at most 10000'') (\<lambda>_.
     checkBeneficiaries s acc rest)))"

definition Post_Apply :: "post_operation \<Rightarrow> db \<Rightarrow> db res" where
  "Post_Apply op s =
     rbind (MustNotExist (db_posts s) (pp_Uuid op) ''post uuid exist'') (\<lambda>_.
     rbind (MustExist (db_accounts s) (pp_Owner op) ''author does not exist in db'') (\<lambda>_.
     rbind (if length (pp_Beneficiaries op) > 0
            then checkBeneficiaries s 0 (pp_Beneficiaries op) else Inr ()) (\<lambda>_.
     rbind (account_Get (pp_Owner op) s) (\<lambda>author.
     let elapsedSeconds = HeadBlockTime s - acc_LastPostTime author in
     rbind (opAssert (elapsedSeconds > MinPostInterval) ''posting frequently'') (\<lambda>_.
     rbind (post_Create (pp_Uuid op)
              \<lparr>po_PostId = pp_Uuid op, po_Author = pp_Owner op, po_Title = pp_Title op,
               po_Body = pp_Content op, po_Tags = pp_Tags op, po_Created = HeadBlockTime s,
               po_Depth = 0, po_Children = 0, po_RootId = PostInvalidId,
               po_ParentId = PostInvalidId, po_VoteCnt = 0,
               po_Beneficiaries = pp_Beneficiaries op,
               po_CashoutBlockNum = dp_HeadBlockNumber (db_props s) + PostCashOutDelayBlock,
               po_WeightedVp = ''0'', po_Rewards = 0, po_DappRewards = 0, po_Ticket = 0,
               po_Copyright = CopyrightUnkown, po_CopyrightMemo = ''''\<rparr> s) (\<lambda>s1.
     rbind (account_Modify (pp_Owner op)
              (\<lambda>t. Inr (t\<lparr>acc_LastPostTime := HeadBlockTime s1\<rparr>)) s1) (\<lambda>s2.
     ModifyProps (\<lambda>props. Inr (props\<lparr>dp_TotalPostCnt := dp_TotalPostCnt props + 1\<rparr>)) s2)))))))"

definition Reply_Apply :: "reply_operation \<Rightarrow> db \<Rightarrow> db res" where
  "Reply_Apply op s =
     rbind (MustNotExist (db_posts s) (rp_Uuid op) ''post uuid exist'') (\<lambda>_.
     rbind (MustExist (db_posts s) (rp_ParentUuid op) ''parent uuid do not exist'') (\<lambda>_.
     rbind (post_Get (rp_ParentUuid op) s) (\<lambda>pid.
     rbind (opAssert (po_Depth pid + 1 < PostMaxDepth) ''reply depth error'') (\<lambda>_.
     rbind (MustExist (db_accounts s) (rp_Owner op) ''author does not exist in db'') (\<lambda>_.
     rbind (if length (rp_Beneficiaries op) > 0
            then checkBeneficiaries s 0 (rp_Beneficiaries op) else Inr ()) (\<lambda>_.
     rbind (account_Get (rp_Owner op) s) (\<lambda>author.
     let elapsedSeconds = HeadBlockTime s - acc_LastPostTime author in
     rbind (opAssert (elapsedSeconds > MinPostInterval) ''reply frequently'') (\<lambda>_.
     let rootId = (if po_RootId pid = PostInvalidId then po_PostId pid else po_RootId pid) in
     rbind (post_Create (rp_Uuid op)
              \<lparr>po_PostId = rp_Uuid op, po_Author = rp_Owner op, po_Title = '''',
               po_Body = rp_Content op, po_Tags = [], po_Created = HeadBlockTime s,
               po_Depth = po_Depth pid + 1, po_Children = 0, po_RootId = rootId,
               po_ParentId = rp_ParentUuid op, po_VoteCnt = 0,
               po_Beneficiaries = rp_Beneficiaries op,
               po_CashoutBlockNum = dp_HeadBlockNumber (db_props s) + PostCashOutDelayBlock,
               po_WeightedVp = ''0'', po_Rewards = 0, po_DappRewards = 0, po_Ticket = 0,
               po_Copyright = CopyrightUnkown, po_CopyrightMemo = ''''\<rparr> s) (\<lambda>s1.
     rbind (account_Modify (rp_Owner op)
              (\<lambda>t. Inr (t\<lparr>acc_LastPostTime := HeadBlockTime s1\<rparr>)) s1) (\<lambda>s2.
     post_Modify (rp_ParentUuid op)
       (\<lambda>t. Inr (t\<lparr>po_Children := po_Children t + 1\<rparr>)) s2))))))))))"

section \<open>Votes for posts\<close>

text \<open>
  \<open>big.Int.Sqrt\<close>: the integer square root, two bits of the argument at a time.
\<close>

fun big_Sqrt_nat :: "nat \<Rightarrow> nat" where
  "big_Sqrt_nat n =
     (if n = 0 then 0
      else let r = 2 * big_Sqrt_nat (n div 4) in if (r + 1) * (r + 1) \<le> n then r + 1 else r)"

declare big_Sqrt_nat.simps [simp del]

definition big_Sqrt :: "int \<Rightarrow> int" where
  "big_Sqrt x = int (big_Sqrt_nat (nat x))"

text \<open>
  \<open>big.Int.SetString\<close> with its second result dropped. The value after a failure is unspecified in
  Go; the columns it is used on hold numerals printed by \<open>big.Int.String\<close>.
\<close>

definition big_SetString :: "string \<Rightarrow> int" where
  "big_SetString str = (case big_of_string str of None \<Rightarrow> 0 | Some v \<Rightarrow> v)"

lemma big_SetString_string_of_big [simp]: "big_SetString (string_of_big x) = x"
  by (simp add: big_SetString_def)

text \<open>
  The vote power that comes back after a pause; the multiplication is one of 32-bit words.
\<close>

definition regeneratedPower :: "u32 \<Rightarrow> u32" where
  "regeneratedPower elapsedSeconds = FullVP * elapsedSeconds div VoteRegenerateTime"

definition vote_currentVp :: "u32 \<Rightarrow> u32 \<Rightarrow> u32" where
  "vote_currentVp vp elapsedSeconds =
     (let votePower = vp + regeneratedPower elapsedSeconds
      in if votePower > FullVP then FullVP else votePower)"

definition vote_usedVp :: u32 where
  "vote_usedVp = FullVP div VPMarks"

definition vote_weightedVp :: "u64 \<Rightarrow> account \<Rightarrow> int" where
  "vote_weightedVp hardFork voter =
     (let w0 = uint (acc_Vest voter);
          w1 = (if hardFork < HardFork1 then big_Sqrt w0 else w0);
          w2 = w1 * uint vote_usedVp
      in if acc_Reputation voter = MinReputation then 0 else w2)"

definition voteCashout_append :: "u64 \<Rightarrow> voter_id \<Rightarrow> db \<Rightarrow> db res" where
  "voteCashout_append height voterId s =
     (if CheckExist (db_voteCashouts s) height
      then rbind (tbl_Modify height (\<lambda>voterIds. Inr (voterIds @ [voterId])) (db_voteCashouts s))
             (\<lambda>t. Inr (s\<lparr>db_voteCashouts := t\<rparr>))
      else rbind (tbl_Create height [voterId] (db_voteCashouts s))
             (\<lambda>t. Inr (s\<lparr>db_voteCashouts := t\<rparr>)))"

definition Vote_Apply :: "u64 \<Rightarrow> vote_operation \<Rightarrow> db \<Rightarrow> db res" where
  "Vote_Apply hardFork op s =
     rbind (account_Get (vt_Voter op) s) (\<lambda>voter.
     let elapsedSeconds = HeadBlockTime s - acc_LastVoteTime voter;
         voterId = (vt_Voter op, vt_Idx op) in
     rbind (opAssert (elapsedSeconds > MinVoteInterval) ''voting frequently'') (\<lambda>_.
     rbind (MustExist (db_posts s) (vt_Idx op) ''post invalid'') (\<lambda>_.
     rbind (MustNotExist (db_votes s) voterId ''vote info exist'') (\<lambda>_.
     rbind (post_Get (vt_Idx op) s) (\<lambda>post.
     rbind (opAssert (po_Author post \<noteq> vt_Voter op) ''cant vote self'') (\<lambda>_.
     rbind (opAssert (po_CashoutBlockNum post \<noteq> MaxUint64) ''cant vote cashouted post'') (\<lambda>_.
     let currentVp = vote_currentVp (acc_VotePower voter) elapsedSeconds;
         usedVp = vote_usedVp in
     rbind (opAssert (currentVp \<ge> usedVp) ''vote power not enough'') (\<lambda>_.
     let weightedVp = vote_weightedVp hardFork voter;
         tvp = weightedVp + big_SetString (po_WeightedVp post) in
     rbind (post_Modify (vt_Idx op)
              (\<lambda>t. Inr (t\<lparr>po_WeightedVp := string_of_big tvp, po_VoteCnt := po_VoteCnt t + 1\<rparr>)) s) (\<lambda>s1.
     rbind (account_Modify (vt_Voter op)
              (\<lambda>t. Inr (t\<lparr>acc_VotePower := currentVp - usedVp,
                          acc_LastVoteTime := HeadBlockTime s1\<rparr>)) s1) (\<lambda>s2.
     rbind (vote_Create voterId
              \<lparr>vo_VoteTime = HeadBlockTime s2, vo_PostId = vt_Idx op,
               vo_WeightedVp = string_of_big weightedVp, vo_Upvote = True\<rparr> s2) (\<lambda>s3.
     voteCashout_append (dp_HeadBlockNumber (db_props s3) + VoteCashOutDelayBlock) voterId s3)))))))))))"

section \<open>Block producers\<close>

text \<open>
  The bounds on proposed chain properties, the same in registration and update. A fee or a ticket
  price that is left out is dereferenced; the two values read are handed on.
\<close>

definition check_chain_properties :: "chain_properties \<Rightarrow> (coin \<times> coin) res" where
  "check_chain_properties props =
     rbind (opAssert (cp_StaminaFree props \<ge> MinStaminaFree)
              ''proposed stamina free too low min value 0'') (\<lambda>_.
     rbind (opAssert (cp_StaminaFree props \<le> MaxStaminaFree)
              ''proposed stamina free too high max value 10000000'') (\<lambda>_.
     rbind (opAssert (cp_TpsExpected props \<ge> MinTPSExpected)
              ''expected tps too low min value 100'') (\<lambda>_.
     rbind (opAssert (cp_TpsExpected props \<le> MaxTPSExpected)
              ''expected tps too high max value 2000'') (\<lambda>_.
     rbind (need (cp_AccountCreationFee props)) (\<lambda>accountCreateFee.
     rbind (opAssert (accountCreateFee \<ge> MinAccountCreateFee)
              ''account create fee too low min value 1'') (\<lambda>_.
     rbind (opAssert (accountCreateFee \<le> MaxAccountCreateFee)
              ''account create fee too high max value 10000000000'') (\<lambda>_.
     rbind (opAssert (cp_TopNAcquireFreeToken props \<le> MaxTopN)
              ''top N VEST holders, the N is too big, which should lower than 10000'') (\<lambda>_.
     rbind (need (cp_PerTicketPrice props)) (\<lambda>perTicketPrice.
     rbind (opAssert (perTicketPrice \<ge> MinTicketPrice)
       ''the ticket price should greater than 100'') (\<lambda>_.
     Inr (accountCreateFee, perTicketPrice)))))))))))"

definition BpRegister_Apply :: "bp_register_operation \<Rightarrow> db \<Rightarrow> db res" where
  "BpRegister_Apply op s =
     rbind (MustExist (db_accounts s) (br_Owner op) ''block producer account not exist'') (\<lambda>_.
     rbind (account_Get (br_Owner op) s) (\<lambda>account.
     rbind (opAssert (acc_Vest account \<ge> MinBpRegisterVest)
              ''vest balance should greater than 30000'') (\<lambda>_.
     rbind (MustNotExist (db_producers s) (br_Owner op)
              ''you are already a block producer, do not register twice'') (\<lambda>_.
     rbind (opAssert (acc_Reputation account > MinReputation) ''reputation too low'') (\<lambda>_.
     rbind (need (br_Props op)) (\<lambda>props.
     rbind (check_chain_properties props) (\<lambda>(accountCreateFee, perTicketPrice).
     producer_Create (br_Owner op)
       \<lparr>bp_Owner = br_Owner op, bp_CreatedTime = HeadBlockTime s, bp_Url = br_Url op,
        bp_BpVest = \<lparr>bv_Active = True, bv_VoteVest = 0\<rparr>,
        bp_SigningKey = br_BlockSigningKey op, bp_ProposedStaminaFree = cp_StaminaFree props,
        bp_TpsExpected = cp_TpsExpected props,
        bp_AccountCreateFee = accountCreateFee,
        bp_TopNAcquireFreeToken = cp_TopNAcquireFreeToken props,
        bp_EpochDuration = cp_EpochDuration props, bp_PerTicketPrice = perTicketPrice,
        bp_PerTicketWeight = cp_PerTicketWeight props, bp_VoterCount = 0,
        bp_GenBlockCount = 0\<rparr> s)))))))"

definition set_BpVest :: "bool \<Rightarrow> vest \<Rightarrow> block_producer \<Rightarrow> block_producer res" where
  "set_BpVest active vest t = Inr (t\<lparr>bp_BpVest := \<lparr>bv_Active = active, bv_VoteVest = vest\<rparr>\<rparr>)"

definition BpEnable_Apply :: "bp_enable_operation \<Rightarrow> db \<Rightarrow> db res" where
  "BpEnable_Apply op s =
     rbind (MustExist (db_producers s) (be_Owner op) ''block producer do not exist'') (\<lambda>_.
     rbind (producer_Get (be_Owner op) s) (\<lambda>bp.
     if be_Cancel op then
       rbind (opAssert (bv_Active (bp_BpVest bp))
                ''block producer has already been disabled'') (\<lambda>_.
       producer_Modify (be_Owner op) (set_BpVest False (bv_VoteVest (bp_BpVest bp))) s)
     else
       rbind (opAssert (\<not> bv_Active (bp_BpVest bp))
                ''block producer has already been enabled'') (\<lambda>_.
       producer_Modify (be_Owner op) (set_BpVest True (bv_VoteVest (bp_BpVest bp))) s)))"

definition BpVote_Apply :: "bp_vote_operation \<Rightarrow> db \<Rightarrow> db res" where
  "BpVote_Apply op s =
     rbind (MustExist (db_accounts s) (bw_Voter op) ''voter account not exist'') (\<lambda>_.
     rbind (account_Get (bw_Voter op) s) (\<lambda>voter.
     let voteCnt = acc_BpVoteCount voter; voterVests = acc_Vest voter in
     rbind (MustExist (db_accounts s) (bw_BlockProducer op)
              ''block producer account not exist '') (\<lambda>_.
     rbind (MustExist (db_producers s) (bw_BlockProducer op)
              ''the account you want to vote is not a block producer'') (\<lambda>_.
     rbind (producer_Get (bw_BlockProducer op) s) (\<lambda>bp.
     let bpVoteVestCnt = bv_VoteVest (bp_BpVest bp); bpActive = bv_Active (bp_BpVest bp);
         bpVoterCount = bp_VoterCount bp; bpId = (bw_BlockProducer op, bw_Voter op) in
     if bw_Cancel op then
       rbind (MustExist (db_bpVotes s) bpId ''vote record not exist'') (\<lambda>_.
       rbind (bpVote_Remove bpId s) (\<lambda>s1.
       rbind (vest_Sub bpVoteVestCnt voterVests) (\<lambda>vest.
       rbind (producer_Modify (bw_BlockProducer op) (set_BpVest bpActive vest) s1) (\<lambda>s2.
       rbind (opAssert (bpVoterCount > 0)
                ''block producer voter count should be greater than 0'') (\<lambda>_.
       rbind (producer_Modify (bw_BlockProducer op)
                (\<lambda>t. Inr (t\<lparr>bp_VoterCount := bpVoterCount - 1\<rparr>)) s2) (\<lambda>s3.
       rbind (opAssert (voteCnt > 0) ''vote count must not be 0'') (\<lambda>_.
       account_Modify (bw_Voter op) (\<lambda>t. Inr (t\<lparr>acc_BpVoteCount := voteCnt - 1\<rparr>)) s3)))))))
     else
       rbind (opAssert bpActive ''block producer has been disabled'') (\<lambda>_.
       rbind (MustNotExist (db_bpVotes s) bpId ''already vote to this bp, do not vote twice'') (\<lambda>_.
       rbind (opAssert (voteCnt < PerUserBpVoteLimit) ''vote count exceeding'') (\<lambda>_.
       rbind (bpVote_Create bpId
                \<lparr>bvo_VoterName = bw_Voter op, bvo_VoteTime = HeadBlockTime s\<rparr> s) (\<lambda>s1.
       rbind (account_Modify (bw_Voter op) (\<lambda>t. Inr (t\<lparr>acc_BpVoteCount := voteCnt + 1\<rparr>)) s1) (\<lambda>s2.
       rbind (vest_Add bpVoteVestCnt voterVests) (\<lambda>vest.
       rbind (producer_Modify (bw_BlockProducer op) (set_BpVest bpActive vest) s2) (\<lambda>s3.
       producer_Modify (bw_BlockProducer op)
         (\<lambda>t. Inr (t\<lparr>bp_VoterCount := bpVoterCount + 1\<rparr>)) s3))))))))))))"

definition BpUpdate_Apply :: "bp_update_operation \<Rightarrow> db \<Rightarrow> db res" where
  "BpUpdate_Apply op s =
     rbind (need (bu_Props op)) (\<lambda>props.
     rbind (check_chain_properties props) (\<lambda>(accountCreateFee, perTicketPrice).
     producer_Modify (bu_Owner op)
       (\<lambda>t. Inr (t\<lparr>bp_ProposedStaminaFree := cp_StaminaFree props,
                   bp_TpsExpected := cp_TpsExpected props,
                   bp_AccountCreateFee := accountCreateFee,
                   bp_TopNAcquireFreeToken := cp_TopNAcquireFreeToken props,
                   bp_EpochDuration := cp_EpochDuration props,
                   bp_PerTicketPrice := perTicketPrice,
                   bp_PerTicketWeight := cp_PerTicketWeight props\<rparr>)) s))"

definition Follow_Apply :: "follow_operation \<Rightarrow> db \<Rightarrow> db res" where
  "Follow_Apply op s =
     rbind (MustExist (db_accounts s) (fo_Account op) ''follow account do not exist '') (\<lambda>_.
     rbind (MustExist (db_accounts s) (fo_FAccount op) ''follow f_account do not exist '') (\<lambda>_.
     rbind (opAssert (fo_Account op \<noteq> fo_FAccount op) ''can not follow yourself'') (\<lambda>_.
     Inr s)))"

section \<open>Vesting, power-down and staking\<close>

definition updateBpVoteValue :: "name \<Rightarrow> vest \<Rightarrow> vest \<Rightarrow> db \<Rightarrow> db res" where
  "updateBpVoteValue voter oldVest newVest s =
     (case tbl_UniQuery bvo_VoterName voter (db_bpVotes s) of
        None \<Rightarrow> Inr s
      | Some (bpName, _) \<Rightarrow>
          if CheckExist (db_producers s) bpName then
            producer_Modify bpName (\<lambda>t.
              rbind (vest_Sub (bv_VoteVest (bp_BpVest t)) oldVest) (\<lambda>v.
              rbind (vest_Add v newVest) (\<lambda>v'.
              Inr (t\<lparr>bp_BpVest := (bp_BpVest t)\<lparr>bv_VoteVest := v'\<rparr>\<rparr>)))) s
          else Inr s)"

definition TransferToVest_Apply :: "u64 \<Rightarrow> transfer_to_vest_operation \<Rightarrow> db \<Rightarrow> db res" where
  "TransferToVest_Apply hardFork op s =
     rbind (MustExist (db_accounts s) (tv_To op) ''to account do not exist'') (\<lambda>_.
     rbind (opAssert (\<not> isBadGuy hardFork (tv_From op)) ''from account forbidden'') (\<lambda>_.
     rbind (account_Get (tv_To op) s) (\<lambda>tid.
     rbind (need (tv_Amount op)) (\<lambda>amount.
     let oldVest = acc_Vest tid; addVests = coin_ToVest amount in
     rbind (account_Modify (tv_From op) (sub_Balance amount) s) (\<lambda>s1.
     rbind (account_Modify (tv_To op) (add_Vest addVests) s1) (\<lambda>s2.
     rbind (account_Get (tv_To op) s2) (\<lambda>tid2.
     rbind (updateBpVoteValue (tv_To op) oldVest (acc_Vest tid2) s2) (\<lambda>s3.
     TransferToVest amount s3))))))))"

definition ConvertVest_Apply :: "u64 \<Rightarrow> convert_vest_operation \<Rightarrow> db \<Rightarrow> db res" where
  "ConvertVest_Apply hardFork op s =
     rbind (MustExist (db_accounts s) (cv_From op) ''account do not exist'') (\<lambda>_.
     rbind (account_Get (cv_From op) s) (\<lambda>acc.
     rbind (vest_Sub (acc_Vest acc) (acc_BorrowedVest acc)) (\<lambda>own.
     rbind (vest_Sub own (coin_ToVest (dp_AccountCreateFee (db_props s)))) (\<lambda>free.
     rbind (need (cv_Amount op)) (\<lambda>amount.
     rbind (opAssert (free \<ge> amount) ''VEST balance not enough'') (\<lambda>_.
     let currentBlock = dp_HeadBlockNumber (db_props s);
         eachRate = (if hardFork < HardFork2 then amount div (ConvertWeeks - 1)
                     else amount div (HardFork2ConvertWeeks - 1)) in
     account_Modify (cv_From op)
       (\<lambda>t. Inr (t\<lparr>acc_StartPowerdownBlockNum := currentBlock,
                   acc_NextPowerdownBlockNum := currentBlock + PowerDownBlockInterval,
                   acc_EachPowerdownRate := eachRate,
                   acc_HasPowerdown := 0,
                   acc_ToPowerdown := amount\<rparr>)) s))))))"

definition stake_record_add :: "name \<times> name \<Rightarrow> vest \<Rightarrow> db \<Rightarrow> db res" where
  "stake_record_add key addVests s =
     (let headBlockNum = dp_HeadBlockNumber (db_props s) in
      if \<not> CheckExist (db_stakes s) key
      then stake_Create key
             \<lparr>sr_StakeAmount = addVests, sr_LastStakeBlockNum = headBlockNum\<rparr> s
      else stake_Modify key (\<lambda>t.
             rbind (vest_Add (sr_StakeAmount t) addVests) (\<lambda>v.
             Inr (t\<lparr>sr_StakeAmount := v, sr_LastStakeBlockNum := headBlockNum\<rparr>))) s)"

definition Stake_Apply :: "u64 \<Rightarrow> stake_operation \<Rightarrow> db \<Rightarrow> db res" where
  "Stake_Apply hardFork op s =
     rbind (MustExist (db_accounts s) (st_From op) ''from account do not exist'') (\<lambda>_.
     rbind (MustExist (db_accounts s) (st_To op) ''to account do not exist'') (\<lambda>_.
     rbind (opAssert (\<not> isBadGuy hardFork (st_From op)) ''from account forbidden'') (\<lambda>_.
     rbind (need (st_Amount op)) (\<lambda>amount.
     let addVests = coin_ToVest amount; key = (st_From op, st_To op) in
     rbind (account_Modify (st_From op) (\<lambda>t.
              rbind (coin_Sub (acc_Balance t) amount) (\<lambda>b.
              rbind (vest_Add (acc_StakeVestFromMe t) (coin_ToVest amount)) (\<lambda>v.
              Inr (t\<lparr>acc_Balance := b, acc_StakeVestFromMe := v\<rparr>)))) s) (\<lambda>s1.
     rbind (account_Modify (st_To op) (\<lambda>t.
              rbind (vest_Add (acc_StakeVestForMe t) addVests) (\<lambda>v.
              Inr (t\<lparr>acc_StakeVestForMe := v\<rparr>))) s1) (\<lambda>s2.
     rbind (stake_record_add key addVests s2) (\<lambda>s3.
     rbind (TransferToVest amount s3) (\<lambda>s4.
     TransferToStakeVest amount s4))))))))"

definition UnStake_Apply :: "un_stake_operation \<Rightarrow> db \<Rightarrow> db res" where
  "UnStake_Apply op s =
     (let key = (us_Creditor op, us_Debtor op) in
     rbind (MustExist (db_stakes s) key ''stake record not exist'') (\<lambda>_.
     rbind (stake_Get key s) (\<lambda>record.
     let headBlockNum = dp_HeadBlockNumber (db_props s) in
     rbind (opAssert (headBlockNum - sr_LastStakeBlockNum record > StakeFreezeTime)
              ''can not unstake when freeze'') (\<lambda>_.
     rbind (need (us_Amount op)) (\<lambda>value.
     rbind (account_Modify (us_Debtor op) (\<lambda>t.
              rbind (vest_Sub (acc_StakeVestForMe t) (coin_ToVest value)) (\<lambda>v.
              Inr (t\<lparr>acc_StakeVestForMe := v\<rparr>))) s) (\<lambda>s1.
     rbind (account_Modify (us_Creditor op) (\<lambda>t.
              rbind (coin_Add (acc_Balance t) value) (\<lambda>b.
              rbind (vest_Sub (acc_StakeVestFromMe t) (coin_ToVest value)) (\<lambda>v.
              Inr (t\<lparr>acc_Balance := b, acc_StakeVestFromMe := v\<rparr>)))) s1) (\<lambda>s2.
     rbind (stake_Modify key (\<lambda>t.
              rbind (vest_Sub (sr_StakeAmount t) (coin_ToVest value)) (\<lambda>v.
              Inr (t\<lparr>sr_StakeAmount := v\<rparr>))) s2) (\<lambda>s3.
     rbind (TransferFromVest (coin_ToVest value) s3) (\<lambda>s4.
     TransferFromStakeVest (coin_ToVest value) s4)))))))))"

section \<open>Tickets\<close>

definition AcquireTicket_Apply :: "acquire_ticket_operation \<Rightarrow> db \<Rightarrow> db res" where
  "AcquireTicket_Apply op s =
     (let cnt = at_Count op in
     rbind (opAssert (cnt > 0) ''at least 1 ticket per turn'') (\<lambda>_.
     rbind (opAssert (cnt \<le> MaxTicketsPerTurn) ''at most 100000 ticket per turn'') (\<lambda>_.
     rbind (coin_Mul (dp_PerTicketPrice (db_props s)) cnt) (\<lambda>fee.
     rbind (account_Modify (at_Account op) (sub_Balance fee) s) (\<lambda>s1.
     rbind (account_Get (at_Account op) s1) (\<lambda>account.
     rbind (opAssert (acc_ChargedTicket account + ucast cnt > acc_ChargedTicket account)
              ''ticket count overflow'') (\<lambda>_.
     rbind (account_Modify (at_Account op)
              (\<lambda>t. Inr (t\<lparr>acc_ChargedTicket := acc_ChargedTicket account + ucast cnt\<rparr>)) s1) (\<lambda>s2.
     let ticketKey = \<lparr>gk_Type = 1, gk_From = COSSysAccount, gk_To = at_Account op,
                      gk_CreateBlock = dp_HeadBlockNumber (db_props s2) + 1\<rparr> in
     rbind (MustNotExist (db_tickets s2) ticketKey ''ticket record existed'') (\<lambda>_.
     rbind (ticket_Create ticketKey
              \<lparr>gt_Denom = dp_PerTicketWeight (db_props s2), gt_Count = cnt,
               gt_ExpireBlock = MaxUint64\<rparr> s2) (\<lambda>s3.
     let props = db_props s3 in
     rbind (vest_Add (dp_TicketsIncome props) (coin_ToVest fee)) (\<lambda>currentIncome.
     let currentTicketsNum = dp_ChargedTicketsNum props + cnt in
     rbind (UpdateTicketIncomeAndNum currentIncome currentTicketsNum s3) (\<lambda>s4.
     ModifyProps (\<lambda>dprop.
       rbind (coin_Sub (dp_TotalCos dprop) fee) (\<lambda>c.
       Inr (dprop\<lparr>dp_TotalCos := c\<rparr>))) s4))))))))))))"

text \<open>
  Voting with tickets has two halves: the voter's tickets go to the post, free ticket first, and
  the price of the charged ones moves from the ticket income to the bonus of the producers.
\<close>

definition VoteByTicket_spend :: "vote_by_ticket_operation \<Rightarrow> db \<Rightarrow> (u64 \<times> db) res" where
  "VoteByTicket_spend op s =
     rbind (MustExist (db_posts s) (vb_Idx op) ''post does not exist'') (\<lambda>_.
     rbind (post_Get (vb_Idx op) s) (\<lambda>post.
     rbind (opAssert (po_CashoutBlockNum post \<noteq> MaxUint64) ''post already cashed out'') (\<lambda>_.
     let originTicketCount = po_Ticket post;
         freeKey = \<lparr>gk_Type = 0, gk_From = COSSysAccount, gk_To = vb_Account op,
                    gk_CreateBlock = dp_CurrentEpochStartBlock (db_props s)\<rparr>;
         freeTicket = CheckExist (db_tickets s) freeKey in
     rbind (opAssert (vb_Count op > 0) ''at least 1 ticket to vote per turn'') (\<lambda>_.
     rbind (opAssert (vb_Count op \<le> MaxTicketsPerTurn) ''at most 100000 ticket per turn'') (\<lambda>_.
     let account = tbl_get (db_accounts s) (vb_Account op);
         reputation = (case account of None \<Rightarrow> 0 | Some a \<Rightarrow> acc_Reputation a);
         charged = (case account of None \<Rightarrow> 0 | Some a \<Rightarrow> acc_ChargedTicket a);
         factor = (if reputation = MinReputation then 0 else 1) :: u32;
         cnt = (if freeTicket then vb_Count op - 1 else vb_Count op) in
     rbind (opAssert (charged \<ge> ucast cnt) ''insufficient ticket to vote'') (\<lambda>_.
     rbind (account_Modify (vb_Account op)
              (\<lambda>t. Inr (t\<lparr>acc_ChargedTicket := charged - ucast cnt\<rparr>)) s) (\<lambda>s1.
     rbind (if freeTicket then ticket_Remove freeKey s1 else Inr s1) (\<lambda>s2.
     rbind (post_Modify (vb_Idx op)
              (\<lambda>t. Inr (t\<lparr>po_Ticket := originTicketCount +
                 (if freeTicket then ucast (cnt + 1) else ucast cnt) * factor\<rparr>)) s2) (\<lambda>s3.
     let ticketKey = \<lparr>gk_Type = 1, gk_From = vb_Account op, gk_To = show_nat (unat (vb_Idx op)),
                      gk_CreateBlock = dp_HeadBlockNumber (db_props s3) + 1\<rparr> in
     rbind (MustNotExist (db_tickets s3) ticketKey ''ticket record existed'') (\<lambda>_.
     rbind (ticket_Create ticketKey
              \<lparr>gt_Denom = dp_PerTicketWeight (db_props s3), gt_Count = cnt,
               gt_ExpireBlock = MaxUint64\<rparr> s3) (\<lambda>s4.
     Inr (cnt, s4))))))))))))"

definition VoteByTicket_bonus :: "u64 \<Rightarrow> db \<Rightarrow> db res" where
  "VoteByTicket_bonus cnt s =
     (let props = db_props s in
     rbind (MustExist (db_accounts s) (dp_CurrentBlockProducer props)
              (''cannot find bp '' @ dp_CurrentBlockProducer props)) (\<lambda>_.
     rbind (opAssert (dp_ChargedTicketsNum props \<ge> cnt) ''should acquire tickets first'') (\<lambda>_.
     rbind (if dp_ChargedTicketsNum props = 0 then Inr 0
            else vest_Mul (dp_TicketsIncome props div dp_ChargedTicketsNum props) cnt) (\<lambda>equalValue.
     rbind (vest_Sub (dp_TicketsIncome props) equalValue) (\<lambda>currentIncome.
     let currentTicketsNum = dp_ChargedTicketsNum props - cnt in
     rbind (UpdateTicketIncomeAndNum currentIncome currentTicketsNum s) (\<lambda>s5.
     if equalValue > 0 then
       ModifyProps (\<lambda>prop.
         rbind (vest_Add (dp_TicketsBpBonus prop) equalValue) (\<lambda>bonus.
         rbind (vest_Add (dp_TotalVest prop) equalValue) (\<lambda>total.
         Inr (prop\<lparr>dp_TicketsBpBonus := bonus, dp_TotalVest := total\<rparr>)))) s5
     else Inr s5))))))"

definition VoteByTicket_Apply :: "vote_by_ticket_operation \<Rightarrow> db \<Rightarrow> db res" where
  "VoteByTicket_Apply op s = rbind (VoteByTicket_spend op s) (\<lambda>(cnt, s4). VoteByTicket_bonus cnt s4)"

section \<open>Delegation\<close>

definition NewRecordID :: "db \<Rightarrow> u64 \<times> db" where
  "NewRecordID s = (let rid = db_incId s + 1 in (rid, s\<lparr>db_incId := rid\<rparr>))"

definition delegation_maxAmount :: "account \<Rightarrow> coin \<Rightarrow> vest res" where
  "delegation_maxAmount acc fee =
     rbind (vest_Sub (acc_Vest acc) (acc_BorrowedVest acc)) (\<lambda>m1.
     rbind (vest_Sub m1 (coin_ToVest fee)) (\<lambda>m2.
     if acc_EachPowerdownRate acc > 0 then
       rbind (vest_Sub (acc_ToPowerdown acc) (acc_HasPowerdown acc)) (\<lambda>inPowerDown.
       if m2 \<le> inPowerDown then Inr 0 else vest_Sub m2 inPowerDown)
     else Inr m2))"

definition DelegateVest_Apply :: "u64 \<Rightarrow> delegate_vest_operation \<Rightarrow> db \<Rightarrow> db res" where
  "DelegateVest_Apply hardFork op s =
     rbind (MustExist (db_accounts s) (dv_From op) '''') (\<lambda>_.
     rbind (MustExist (db_accounts s) (dv_To op) '''') (\<lambda>_.
     rbind (opAssert (\<not> isBadGuy hardFork (dv_From op)) ''from account forbidden'') (\<lambda>_.
     rbind (account_Get (dv_From op) s) (\<lambda>fromAccount.
     rbind (account_Get (dv_To op) s) (\<lambda>toAccount.
     rbind (opAssert (acc_Reputation fromAccount > MinReputation) ''reputation too low'') (\<lambda>_.
     rbind (opAssert (acc_Name fromAccount \<noteq> acc_Name toAccount)
              ''self delegation not allowed'') (\<lambda>_.
     rbind (opAssert (GetValue (dv_Amount op) \<ge> MinVestDelegationAmount)
              ''delegation amount too small'') (\<lambda>_.
     let props = db_props s in
     rbind (delegation_maxAmount fromAccount (dp_AccountCreateFee props)) (\<lambda>maxAmount.
     rbind (opAssert (maxAmount \<ge> GetValue (dv_Amount op)) ''insufficient account vest'') (\<lambda>_.
     case NewRecordID s of (orderId, s1) \<Rightarrow>
     rbind (need (dv_Amount op)) (\<lambda>amount.
     rbind (delegation_Create orderId
              \<lparr>vd_FromAccount = acc_Name fromAccount, vd_ToAccount = acc_Name toAccount,
               vd_Amount = amount, vd_CreatedBlock = dp_HeadBlockNumber props + 1,
               vd_MaturityBlock = dp_HeadBlockNumber props + 1 + dv_Expiration op,
               vd_DeliveryBlock = MaxInt64, vd_Delivering = False\<rparr> s1) (\<lambda>s2.
     let oldFromAccountVest = acc_Vest fromAccount; oldToAccountVest = acc_Vest toAccount in
     rbind (account_Modify (dv_From op) (\<lambda>r.
              rbind (vest_Add (acc_LentVest r) amount) (\<lambda>l.
              rbind (vest_Sub (acc_Vest r) amount) (\<lambda>v.
              Inr (r\<lparr>acc_LentVest := l, acc_Vest := v\<rparr>)))) s2) (\<lambda>s3.
     rbind (account_Get (dv_From op) s3) (\<lambda>from3.
     rbind (updateBpVoteValue (dv_From op) oldFromAccountVest (acc_Vest from3) s3) (\<lambda>s4.
     rbind (account_Modify (dv_To op) (\<lambda>r.
              rbind (vest_Add (acc_BorrowedVest r) amount) (\<lambda>b.
              rbind (vest_Add (acc_Vest r) amount) (\<lambda>v.
              Inr (r\<lparr>acc_BorrowedVest := b, acc_Vest := v\<rparr>)))) s4) (\<lambda>s5.
     rbind (account_Get (dv_To op) s5) (\<lambda>to5.
     updateBpVoteValue (dv_To op) oldToAccountVest (acc_Vest to5) s5)))))))))))))))))"

definition UnDelegateVest_Apply :: "un_delegate_vest_operation \<Rightarrow> db \<Rightarrow> db res" where
  "UnDelegateVest_Apply op s =
     rbind (MustExist (db_accounts s) (ud_Account op) '''') (\<lambda>_.
     rbind (account_Get (ud_Account op) s) (\<lambda>fromAccount.
     rbind (opAssert (acc_Reputation fromAccount > MinReputation) ''reputation too low'') (\<lambda>_.
     rbind (MustExist (db_delegations s) (ud_OrderId op) ''order id not found'') (\<lambda>_.
     rbind (delegation_Get (ud_OrderId op) s) (\<lambda>rec.
     rbind (opAssert (vd_FromAccount rec = acc_Name fromAccount) ''order owner mismatch'') (\<lambda>_.
     let currentBlock = dp_HeadBlockNumber (db_props s) in
     rbind (opAssert (currentBlock \<ge> vd_MaturityBlock rec) ''order not matured'') (\<lambda>_.
     rbind (opAssert (\<not> vd_Delivering rec) ''order delivering'') (\<lambda>_.
     rbind (MustExist (db_accounts s) (vd_ToAccount rec) '''') (\<lambda>_.
     let vest = vd_Amount rec in
     rbind (delegation_Modify (ud_OrderId op)
              (\<lambda>r. Inr (r\<lparr>vd_Delivering := True,
                 vd_DeliveryBlock := currentBlock + 1 + VestDelegationDeliveryInBlocks\<rparr>)) s) (\<lambda>s1.
     rbind (account_Modify (ud_Account op) (\<lambda>r.
              rbind (vest_Sub (acc_LentVest r) vest) (\<lambda>l.
              rbind (vest_Add (acc_DeliveringVest r) vest) (\<lambda>d.
              Inr (r\<lparr>acc_LentVest := l, acc_DeliveringVest := d\<rparr>)))) s1) (\<lambda>s2.
     rbind (account_Get (vd_ToAccount rec) s2) (\<lambda>toAccount.
     rbind (account_Modify (vd_ToAccount rec) (\<lambda>r.
              rbind (vest_Sub (acc_BorrowedVest r) vest) (\<lambda>b.
              rbind (vest_Sub (acc_Vest r) vest) (\<lambda>v.
              Inr (r\<lparr>acc_BorrowedVest := b, acc_Vest := v\<rparr>)))) s2) (\<lambda>s3.
     rbind (account_Get (vd_ToAccount rec) s3) (\<lambda>to3.
     updateBpVoteValue (acc_Name toAccount) (acc_Vest toAccount) (acc_Vest to3) s3))))))))))))))"

end
