(* ===== verification/TrxContext.thy ===== *)
theory TrxContext
  imports Evaluator
begin

text \<open>
  The context a transaction runs in (\<open>app/trx_context.go\<close>): the stamina it has used, split into
  network bytes and CPU gas, the check and the deduction of that stamina against the signer's
  account, and the coin transfers the virtual machine asks for. The context is a Go object: what
  it records before a panic stays recorded, so a step returns the context together with its
  outcome, while the database changes of a panicked transaction are dropped.
\<close>

section \<open>The context\<close>

record resource_unit =
  ru_raw :: u64
  ru_realCost :: u64

record trx_context =
  tc_db :: db
  tc_signer :: name
  tc_gasMap :: "(name, resource_unit) tbl"
  tc_netMap :: "(name, resource_unit) tbl"

type_synonym 'a outcome = "trx_context \<times> 'a res"

definition NewTrxContext :: "db \<Rightarrow> name \<Rightarrow> trx_context" where
  "NewTrxContext s signer = \<lparr>tc_db = s, tc_signer = signer, tc_gasMap = [], tc_netMap = []\<rparr>"

definition obind :: "'a outcome \<Rightarrow> ('a \<Rightarrow> trx_context \<Rightarrow> 'b outcome) \<Rightarrow> 'b outcome" where
  "obind m f = (case m of (c, Inl e) \<Rightarrow> (c, Inl e) | (c, Inr a) \<Rightarrow> f a c)"

text \<open>A step on the database alone, run in the context.\<close>

definition on_db :: "(db \<Rightarrow> db res) \<Rightarrow> trx_context \<Rightarrow> unit outcome" where
  "on_db f c = (case f (tc_db c) of Inl e \<Rightarrow> (c, Inl e) | Inr s \<Rightarrow> (c\<lparr>tc_db := s\<rparr>, Inr ()))"

definition RecordStaminaFee :: "name \<Rightarrow> u64 \<Rightarrow> trx_context \<Rightarrow> trx_context" where
  "RecordStaminaFee caller spent c =
     (case tbl_get (tc_gasMap c) caller of
        Some v \<Rightarrow> c\<lparr>tc_gasMap := tbl_put caller (v\<lparr>ru_raw := ru_raw v + spent\<rparr>) (tc_gasMap c)\<rparr>
      | None \<Rightarrow> c\<lparr>tc_gasMap := tbl_put caller \<lparr>ru_raw = spent, ru_realCost = 0\<rparr> (tc_gasMap c)\<rparr>)"

definition RecordOperationStaminaFee :: "trx_context \<Rightarrow> trx_context" where
  "RecordOperationStaminaFee c = RecordStaminaFee (tc_signer c) CommonOpStamina c"

definition HasGasFee :: "trx_context \<Rightarrow> bool" where
  "HasGasFee c = (length (tc_gasMap c) > 0)"

definition use_of :: "(name, resource_unit) tbl \<Rightarrow> u64" where
  "use_of m = fold (\<lambda>(_, use) a. a + ru_realCost use) m 0"

definition GetNetUse :: "trx_context \<Rightarrow> u64" where
  "GetNetUse c = use_of (tc_netMap c)"

definition GetCpuUse :: "trx_context \<Rightarrow> u64" where
  "GetCpuUse c = use_of (tc_gasMap c)"

definition RequireAuth :: "name \<Rightarrow> trx_context \<Rightarrow> string option" where
  "RequireAuth name c =
     (if name \<noteq> tc_signer c
      then Some (''requireAuth('' @ name @ '') failed, signed by '' @ tc_signer c) else None)"

section \<open>Stamina an account may use\<close>

text \<open>\<open>big.Int.Div\<close>, Euclidean division.\<close>

definition big_Div :: "int \<Rightarrow> int \<Rightarrow> int" where
  "big_Div x y = (if y \<ge> 0 then x div y else - (x div (- y)))"

definition calculateUserMaxStamina :: "name \<Rightarrow> db \<Rightarrow> u64 res" where
  "calculateUserMaxStamina name s =
     rbind (account_Get name s) (\<lambda>account.
     let oneDayStamina = dp_OneDayStamina (db_props s);
         stakeVest = acc_StakeVestForMe account;
         allStakeVest = dp_StakeVest (db_props s) in
     if allStakeVest = 0 then Inr 0
     else let b1 = sint stakeVest * LimitPrecision;
              b2 = b1 * sint oneDayStamina;
              b3 = big_Div b2 (sint allStakeVest)
          in Inr (big_Uint64 (big_Div b3 LimitPrecision)))"

text \<open>The columns of an account that may not exist; a scalar getter gives 0 then.\<close>

definition stamina_of :: "(account \<Rightarrow> u64) \<Rightarrow> name \<Rightarrow> db \<Rightarrow> u64" where
  "stamina_of col name s = (case tbl_get (db_accounts s) name of None \<Rightarrow> 0 | Some a \<Rightarrow> col a)"

definition free_left :: "name \<Rightarrow> db \<Rightarrow> string \<times> u64" where
  "free_left name s =
     GetFreeLeft (dp_StaminaFree (db_props s)) (stamina_of acc_StaminaFree name s)
       (stamina_of acc_StaminaFreeUseBlock name s) (dp_HeadBlockNumber (db_props s))"

definition stake_left :: "name \<Rightarrow> u64 \<Rightarrow> db \<Rightarrow> string \<times> u64" where
  "stake_left name maxStamina s =
     GetStakeLeft (stamina_of acc_Stamina name s) (stamina_of acc_StaminaUseBlock name s)
       (dp_HeadBlockNumber (db_props s)) maxStamina"

definition getRemainStakeStamina :: "name \<Rightarrow> db \<Rightarrow> (string \<times> u64) res" where
  "getRemainStakeStamina name s =
     rbind (calculateUserMaxStamina name s) (\<lambda>maxStamina. Inr (stake_left name maxStamina s))"

definition getRemainFreeStamina :: "name \<Rightarrow> db \<Rightarrow> string \<times> u64" where
  "getRemainFreeStamina name s = free_left name s"

definition GetVmRemainCpuStamina :: "name \<Rightarrow> trx_context \<Rightarrow> u64 res" where
  "GetVmRemainCpuStamina name c =
     rbind (getRemainStakeStamina name (tc_db c)) (\<lambda>(_, stakeRemain).
     let freeRemain = snd (getRemainFreeStamina name (tc_db c));
         allRemain = stakeRemain + freeRemain in
     rbind (tbl_Get (tc_netMap c) name) (\<lambda>net.
     Inr (allRemain - (ru_raw net * NetConsumePointNum div NetConsumePointDen))))"

section \<open>Checking and deducting stamina\<close>

definition CheckNet_one :: "u64 \<Rightarrow> name \<Rightarrow> trx_context \<Rightarrow> unit outcome" where
  "CheckNet_one sizeInBytes name c =
     (let netUse = sizeInBytes * NetConsumePointNum;
          s = tc_db c;
          c1 = c\<lparr>tc_netMap := tbl_put name \<lparr>ru_raw = 0, ru_realCost = 0\<rparr> (tc_netMap c)\<rparr>;
          counted = c\<lparr>tc_netMap := tbl_put name \<lparr>ru_raw = sizeInBytes, ru_realCost = 0\<rparr> (tc_netMap c)\<rparr> in
      case calculateUserMaxStamina name s of
        Inl e \<Rightarrow> (c1, Inl e)
      | Inr maxStamina \<Rightarrow>
          (let (freeOver, freeLeft) = free_left name s;
               (stakeOver, stakeLeft) = stake_left name maxStamina s in
           if freeLeft \<ge> netUse then (counted, Inr ())
           else if stakeLeft \<ge> netUse - freeLeft then (counted, Inr ())
           else (if freeOver = FreeStaminaOverFlow \<or> stakeOver = StakeStaminaOverFlow
                 then RecordStaminaFee name 0 c1 else c1,
                 Inl (Assert (''net resource not enough, user:'' @ name)))))"

text \<open>
  The source walks over the keys of a Go map; the transaction manager
  refuses transactions with more than one signer, so there is one key.
\<close>

fun CheckNet :: "u64 \<Rightarrow> name list \<Rightarrow> trx_context \<Rightarrow> unit outcome" where
  "CheckNet sizeInBytes [] c = (c, Inr ())"
| "CheckNet sizeInBytes (name # names) c =
     obind (CheckNet_one sizeInBytes name c) (\<lambda>_. CheckNet sizeInBytes names)"

definition staminaUse :: "bool \<Rightarrow> u64 \<Rightarrow> u64" where
  "staminaUse isNet raw = (if isNet then raw * NetConsumePointNum else raw div CpuConsumePointDen)"

text \<open>What the free stamina did not cover comes from the staked stamina.\<close>

definition deduct_stake :: "u64 \<Rightarrow> u64 \<Rightarrow> u64 \<Rightarrow> name \<Rightarrow> db \<Rightarrow> (db \<times> u64) res" where
  "deduct_stake now left paid caller s =
     rbind (calculateUserMaxStamina caller s) (\<lambda>maxStamina.
     case Consume (stamina_of acc_Stamina caller s) left
            (stamina_of acc_StaminaUseBlock caller s) now maxStamina of
       (True, newStamina) \<Rightarrow>
         rbind (account_Modify caller (\<lambda>t. Inr (t\<lparr>acc_Stamina := newStamina\<rparr>)) s) (\<lambda>s1.
         rbind (account_Modify caller (\<lambda>t. Inr (t\<lparr>acc_StaminaUseBlock := now\<rparr>)) s1) (\<lambda>s2.
         Inr (s2, paid + left)))
     | (False, _) \<Rightarrow>
         (let stakeLeft = snd (stake_left caller maxStamina s) in
         rbind (account_Modify caller (\<lambda>t. Inr (t\<lparr>acc_Stamina := maxStamina\<rparr>)) s) (\<lambda>s1.
         rbind (account_Modify caller (\<lambda>t. Inr (t\<lparr>acc_StaminaUseBlock := now\<rparr>)) s1) (\<lambda>s2.
         Inr (s2, paid + stakeLeft)))))"

definition deduct_one :: "u64 \<Rightarrow> name \<Rightarrow> db \<Rightarrow> (db \<times> u64) res" where
  "deduct_one use caller s =
     (let now = dp_HeadBlockNumber (db_props s);
          freeMax = dp_StaminaFree (db_props s) in
      case ConsumeFree freeMax (stamina_of acc_StaminaFree caller s) use
             (stamina_of acc_StaminaFreeUseBlock caller s) now of
        (True, newFreeStamina) \<Rightarrow>
          rbind (account_Modify caller (\<lambda>t. Inr (t\<lparr>acc_StaminaFree := newFreeStamina\<rparr>)) s) (\<lambda>s1.
          rbind (account_Modify caller (\<lambda>t. Inr (t\<lparr>acc_StaminaFreeUseBlock := now\<rparr>)) s1) (\<lambda>s2.
          Inr (s2, use)))
      | (False, _) \<Rightarrow>
          (let freeLeft = snd (free_left caller s) in
          rbind (account_Modify caller (\<lambda>t. Inr (t\<lparr>acc_StaminaFree := freeMax\<rparr>)) s) (\<lambda>s1.
          rbind (account_Modify caller (\<lambda>t. Inr (t\<lparr>acc_StaminaFreeUseBlock := now\<rparr>)) s1) (\<lambda>s2.
          deduct_stake now (use - freeLeft) freeLeft caller s2))))"

fun deductStamina ::
  "bool \<Rightarrow> (name, resource_unit) tbl \<Rightarrow> db \<Rightarrow> (db \<times> (name, resource_unit) tbl) res" where
  "deductStamina isNet [] s = Inr (s, [])"
| "deductStamina isNet ((caller, spent) # m) s =
     (if \<not> CheckExist (db_accounts s) caller
      then rbind (deductStamina isNet m s) (\<lambda>(s', m'). Inr (s', (caller, spent) # m'))
      else rbind (deduct_one (staminaUse isNet (ru_raw spent)) caller s) (\<lambda>(s1, paid).
           rbind (deductStamina isNet m s1) (\<lambda>(s', m').
           Inr (s', (caller, spent\<lparr>ru_realCost := paid\<rparr>) # m'))))"

text \<open>
  \<open>PayGas\<close>: the CPU gas and then the network use are deducted from the database \<open>s\<close> of the block.
\<close>

definition PayGas :: "db \<Rightarrow> trx_context \<Rightarrow> (db \<times> trx_context) res" where
  "PayGas s c =
     rbind (deductStamina False (tc_gasMap c) s) (\<lambda>(s1, gas).
     rbind (deductStamina True (tc_netMap c) s1) (\<lambda>(s2, net).
     Inr (s2, c\<lparr>tc_gasMap := gas, tc_netMap := net\<rparr>)))"

section \<open>Transfers between contracts and accounts\<close>

definition set_acc_Balance :: "coin \<Rightarrow> account \<Rightarrow> account res" where
  "set_acc_Balance v t = Inr (t\<lparr>acc_Balance := v\<rparr>)"

definition set_ct_Balance :: "coin \<Rightarrow> contract \<Rightarrow> contract res" where
  "set_ct_Balance v t = Inr (t\<lparr>ct_Balance := v\<rparr>)"

definition TransferFromContractToUser :: "string \<Rightarrow> name \<Rightarrow> name \<Rightarrow> u64 \<Rightarrow> db \<Rightarrow> db res" where
  "TransferFromContractToUser contract owner to amount s =
     rbind (contract_Get (owner, contract) s) (\<lambda>c.
     if ct_Balance c < amount then Inl (Assert ''Endanger Transfer Operation'')
     else
       rbind (contract_Modify (owner, contract) (set_ct_Balance (ct_Balance c - amount)) s) (\<lambda>s1.
       rbind (account_Get to s1) (\<lambda>acc.
       account_Modify to (set_acc_Balance (acc_Balance acc + amount)) s1)))"

definition TransferFromContractToUserVest :: "string \<Rightarrow> name \<Rightarrow> name \<Rightarrow> u64 \<Rightarrow> db \<Rightarrow> db res" where
  "TransferFromContractToUserVest contract owner to amount s =
     rbind (contract_Get (owner, contract) s) (\<lambda>c.
     if ct_Balance c < amount then Inl (Assert ''Endanger Transfer Operation'')
     else
       rbind (coin_Sub (ct_Balance c) amount) (\<lambda>coin.
       rbind (contract_Modify (owner, contract) (set_ct_Balance coin) s) (\<lambda>s1.
       rbind (account_Get to s1) (\<lambda>acc.
       rbind (vest_Add (acc_Vest acc) amount) (\<lambda>vest.
       rbind (account_Modify to (\<lambda>t. Inr (t\<lparr>acc_Vest := vest\<rparr>)) s1) (\<lambda>s2.
       TransferToVest amount s2))))))"

definition TransferFromUserToContract ::
  "name \<Rightarrow> string \<Rightarrow> name \<Rightarrow> u64 \<Rightarrow> trx_context \<Rightarrow> db res" where
  "TransferFromUserToContract from contract owner amount c =
     (case RequireAuth from c of
        Some e \<Rightarrow> Inl (Assert (''requireAuth('' @ from @ '') failed : '' @ e))
      | None \<Rightarrow>
          (let s = tc_db c in
          rbind (account_Get from s) (\<lambda>acc.
          if acc_Balance acc < amount then Inl (Assert ''Endanger Transfer Operation'')
          else
            rbind (contract_Get (owner, contract) s) (\<lambda>ct.
            rbind (contract_Modify (owner, contract) (set_ct_Balance (ct_Balance ct + amount)) s) (\<lambda>s1.
            rbind (account_Get from s1) (\<lambda>acc1.
            account_Modify from (set_acc_Balance (acc_Balance acc1 - amount)) s1))))))"

definition TransferFromContractToContract ::
  "string \<Rightarrow> name \<Rightarrow> string \<Rightarrow> name \<Rightarrow> u64 \<Rightarrow> db \<Rightarrow> db res" where
  "TransferFromContractToContract fromContract fromOwner toContract toOwner amount s =
     (if fromContract = toContract \<and> fromOwner = toOwner then Inr s
      else
        rbind (contract_Get (fromOwner, fromContract) s) (\<lambda>from.
        if ct_Balance from < amount then Inl (Assert ''Insufficient balance of contract'')
        else
          rbind (contract_Get (toOwner, toContract) s) (\<lambda>to.
          rbind (contract_Modify (fromOwner, fromContract)
                   (set_ct_Balance (ct_Balance from - amount)) s) (\<lambda>s1.
          contract_Modify (toOwner, toContract)
            (set_ct_Balance (ct_Balance to + amount)) s1))))"

end
