(* ===== verification/Contracts.thy ===== *)
theory Contracts
  imports TrxContext
begin

text \<open>
  Contracts: deployment and calls (\<open>app/evaluator.go\<close>) and the native functions through which a
  running contract changes the chain (\<open>vm/vm_cosvm.go\<close>, \<open>vm/vm_cosvm_export.go\<close>,
  \<open>vm/vm_cosvm_native.go\<close>).

  The WebAssembly interpreter, decompression, hashing and the ABI code are parameters, collected in
  the record \<open>vm_env\<close>. For given code, call context and database the interpreter yields the
  native functions the code calls, in order, each with the gas charged for instructions before it,
  and how the code ends. A call that only reads the state or prints has no effect of its own and is
  part of the interpreter's choice; a contract's own tables live under keys of their own and are
  not modelled.
\<close>

section \<open>Native functions\<close>

record vm_context =
  vc_Caller :: name
  vc_CallingContractOwner :: "name option"
  vc_CallingContractName :: string
  vc_CallingContractMethod :: string
  vc_Owner :: name
  vc_Contract :: string
  vc_Method :: string
  vc_ParamsData :: bytes
  vc_Amount :: "coin option"
  vc_Gas :: nat
  vc_Code :: bytes
  vc_CodeHash :: hash

datatype native_call =
    RequiredAuth name
  | CosAssert bool string
  | ContractTransferToUser name u64
  | ContractTransferToUserVest name u64
  | ContractTransferToContract name string u64
  | ContractCall name string string bytes u64
  | SetReputationAdmin name
  | SetCopyrightAdmin name
  | SetCopyright "(u64 \<times> u32 \<times> string) list"
  | SetReputation "(name \<times> u32 \<times> string) list"
  | SetFreeze u32 "(name \<times> string) list"

text \<open>The gas the host charges for a call (\<open>initNativeFuncs\<close>).\<close>

definition native_gas :: "native_call \<Rightarrow> nat" where
  "native_gas f =
     (case f of
        RequiredAuth _ \<Rightarrow> 200
      | CosAssert _ _ \<Rightarrow> 100
      | ContractTransferToUser _ _ \<Rightarrow> 800
      | ContractTransferToUserVest _ _ \<Rightarrow> 800
      | ContractTransferToContract _ _ _ \<Rightarrow> 800
      | ContractCall _ _ _ _ _ \<Rightarrow> 1000
      | SetReputationAdmin _ \<Rightarrow> 0
      | SetCopyrightAdmin _ \<Rightarrow> 0
      | SetCopyright _ \<Rightarrow> 0
      | SetReputation _ \<Rightarrow> 0
      | SetFreeze _ _ \<Rightarrow> 0)"

text \<open>How the code ends: the gas of its own instructions and the error it returns, if any.\<close>

record vm_result =
  vr_Gas :: nat
  vr_Error :: "string option"

record vm_env =
  env_Decompress :: "bytes \<Rightarrow> bytes option"
  env_Sha256 :: "bytes \<Rightarrow> hash"
  env_UnmarshalABI :: "bytes \<Rightarrow> bool"
  env_Validate :: "bytes \<Rightarrow> bool"
  env_EncodeParams :: "string \<Rightarrow> string \<Rightarrow> (string \<Rightarrow> bytes option) option"
  env_DecodeParams :: "string \<Rightarrow> string \<Rightarrow> (bytes \<Rightarrow> bool) option"
  env_Exec :: "vm_context \<Rightarrow> db \<Rightarrow> (nat \<times> native_call) list \<times> vm_result"

definition string_of_bytes :: "bytes \<Rightarrow> string" where
  "string_of_bytes bs = map (\<lambda>b. char_of (unat b)) bs"

text \<open>
  The state of one running contract: the database, the copy of the dynamic properties the machine
  was created with (\<open>cosVM.props\<close>) and the gas used by contracts it called.
\<close>

record vm_state =
  vs_db :: db
  vs_props :: dynamic_properties
  vs_extra :: nat

definition GetReputationAdmin :: "vm_state \<Rightarrow> name" where
  "GetReputationAdmin st = (case dp_ReputationAdmin (vs_props st) of None \<Rightarrow> '''' | Some n \<Rightarrow> n)"

definition GetCopyrightAdmin :: "vm_state \<Rightarrow> name" where
  "GetCopyrightAdmin st = (case dp_CopyrightAdmin (vs_props st) of None \<Rightarrow> '''' | Some n \<Rightarrow> n)"

text \<open>
  The two administrator setters copy \<open>cosVM.props\<close>, change one field and store the whole copy.
\<close>

definition native_SetReputationAdmin :: "name \<Rightarrow> vm_state \<Rightarrow> vm_state" where
  "native_SetReputationAdmin name st =
     (let props = (vs_props st)\<lparr>dp_ReputationAdmin := Some name\<rparr>
      in st\<lparr>vs_db := (vs_db st)\<lparr>db_props := props\<rparr>, vs_props := props\<rparr>)"

definition native_SetCopyrightAdmin :: "name \<Rightarrow> vm_state \<Rightarrow> vm_state" where
  "native_SetCopyrightAdmin name st =
     (let props = (vs_props st)\<lparr>dp_CopyrightAdmin := Some name\<rparr>
      in st\<lparr>vs_db := (vs_db st)\<lparr>db_props := props\<rparr>, vs_props := props\<rparr>)"

definition SetUserCopyright :: "u64 \<times> u32 \<times> string \<Rightarrow> db \<Rightarrow> db res" where
  "SetUserCopyright = (\<lambda>(postId, value, memo) s.
     rbind (opAssert (value \<ge> CopyrightUnkown \<and> value \<le> CopyrightConfirmation)
              ''setCopyright().copyright: out of bounds'') (\<lambda>_.
     rbind (post_Modify postId (\<lambda>t. Inr (t\<lparr>po_Copyright := value\<rparr>)) s) (\<lambda>s1.
     post_Modify postId (\<lambda>t. Inr (t\<lparr>po_CopyrightMemo := memo\<rparr>)) s1)))"

text \<open>An account whose reputation falls to the minimum no longer produces blocks.\<close>

definition disable_producer :: "name \<Rightarrow> db \<Rightarrow> db res" where
  "disable_producer name s =
     (case tbl_get (db_producers s) name of
        Some bp \<Rightarrow>
          if bv_Active (bp_BpVest bp)
          then producer_Modify name (set_BpVest False (bv_VoteVest (bp_BpVest bp))) s
          else Inr s
      | None \<Rightarrow> Inr s)"

definition SetUserReputation :: "name \<times> u32 \<times> string \<Rightarrow> db \<Rightarrow> db res" where
  "SetUserReputation = (\<lambda>(name, value, memo) s.
     rbind (opAssert (value \<ge> MinReputation \<and> value \<le> MaxReputation)
              ''setReputation().reputation: out of bounds'') (\<lambda>_.
     rbind (account_Modify name (\<lambda>t. Inr (t\<lparr>acc_Reputation := value\<rparr>)) s) (\<lambda>s1.
     rbind (account_Modify name (\<lambda>t. Inr (t\<lparr>acc_ReputationMemo := memo\<rparr>)) s1) (\<lambda>s2.
     if value = MinReputation then disable_producer name s2 else Inr s2))))"

definition SetUserFreeze :: "u32 \<Rightarrow> name \<times> string \<Rightarrow> db \<Rightarrow> db res" where
  "SetUserFreeze value = (\<lambda>(name, memo) s.
     rbind (account_Modify name (\<lambda>t. Inr (t\<lparr>acc_Freeze := value\<rparr>)) s) (\<lambda>s1.
     account_Modify name (\<lambda>t. Inr (t\<lparr>acc_FreezeMemo := memo\<rparr>)) s1))"

definition lift_db :: "(db \<Rightarrow> db res) \<Rightarrow> vm_state \<Rightarrow> vm_state res" where
  "lift_db f st = rbind (f (vs_db st)) (\<lambda>s. Inr (st\<lparr>vs_db := s\<rparr>))"

text \<open>Every native function but the call of another contract.\<close>

definition native_apply :: "name \<Rightarrow> vm_context \<Rightarrow> native_call \<Rightarrow> vm_state \<Rightarrow> vm_state res" where
  "native_apply signer ctx f st =
     (case f of
        RequiredAuth name \<Rightarrow> rbind (opAssert (name = signer) ''require auth error'') (\<lambda>_. Inr st)
      | CosAssert condition msg \<Rightarrow> rbind (opAssert condition msg) (\<lambda>_. Inr st)
      | ContractTransferToUser to amount \<Rightarrow>
          lift_db (TransferFromContractToUser (vc_Contract ctx) (vc_Owner ctx) to amount) st
      | ContractTransferToUserVest to amount \<Rightarrow>
          lift_db (TransferFromContractToUserVest (vc_Contract ctx) (vc_Owner ctx) to amount) st
      | ContractTransferToContract owner contract amount \<Rightarrow>
          lift_db (TransferFromContractToContract (vc_Contract ctx) (vc_Owner ctx)
                     contract owner amount) st
      | ContractCall _ _ _ _ _ \<Rightarrow> Inr st
      | SetReputationAdmin name \<Rightarrow>
          rbind (opAssert (vc_Owner ctx = COSSysAccount) ''SetReputationAdmin(): access denied'')
            (\<lambda>_. Inr (native_SetReputationAdmin name st))
      | SetCopyrightAdmin name \<Rightarrow>
          rbind (opAssert (vc_Owner ctx = COSSysAccount) ''SetCopyrightAdmin: access denied'')
            (\<lambda>_. Inr (native_SetCopyrightAdmin name st))
      | SetCopyright posts \<Rightarrow>
          rbind (opAssert (vc_Owner ctx = COSSysAccount \<and> vc_Caller ctx = GetCopyrightAdmin st)
                   ''SetCopyright(): access denied'')
            (\<lambda>_. lift_db (for_each SetUserCopyright posts) st)
      | SetReputation accounts \<Rightarrow>
          rbind (opAssert (vc_Owner ctx = COSSysAccount \<and> vc_Caller ctx = GetReputationAdmin st)
                   ''SetReputation(): access denied'')
            (\<lambda>_. lift_db (for_each SetUserReputation accounts) st)
      | SetFreeze op accounts \<Rightarrow>
          rbind (opAssert (vc_Owner ctx = COSSysAccount) ''setFreeze(): access denied'') (\<lambda>_.
          rbind (opAssert (op = 0 \<or> op = 1) ''freeze=1 or unfreeze=0'') (\<lambda>_.
          lift_db (for_each (SetUserFreeze op) accounts) st)))"

section \<open>Calling another contract\<close>

text \<open>\<open>InternalContractApplyEvaluator.Apply\<close> up to the run of the machine.\<close>

definition InternalContractApply_prepare ::
  "vm_env \<Rightarrow> internal_contract_apply_operation \<Rightarrow> nat \<Rightarrow> db \<Rightarrow> (vm_context \<times> db) res" where
  "InternalContractApply_prepare env op remainGas s =
     rbind (MustExist (db_contracts s) (ia_FromOwner op, ia_FromContract op)
              ''fromContract contract doesnt exist'') (\<lambda>_.
     rbind (MustExist (db_contracts s) (ia_ToOwner op, ia_ToContract op)
              ''toContract contract doesnt exist'') (\<lambda>_.
     rbind (MustExist (db_accounts s) (ia_FromCaller op) ''caller account doesnt exist'') (\<lambda>_.
     rbind (contract_Get (ia_FromOwner op, ia_FromContract op) s) (\<lambda>fromContract.
     rbind (opAssert (ct_Balance fromContract \<ge> ia_Amount op)
              ''fromContract balance less than transfer amount'') (\<lambda>_.
     rbind (contract_Get (ia_ToOwner op, ia_ToContract op) s) (\<lambda>toContract.
     rbind (opAssert (env_UnmarshalABI env (bytes_of_string (ct_Abi toContract)))
              ''invalid toContract abi'') (\<lambda>_.
     rbind (case env_DecodeParams env (ct_Abi toContract) (ia_ToMethod op) of
              None \<Rightarrow> Inl (Assert (''unknown contract method: '' @ ia_ToMethod op))
            | Some decode \<Rightarrow> opAssert (decode (ia_Params op)) ''invalid contract parameters'') (\<lambda>_.
     rbind (if ia_Amount op > 0
            then TransferFromContractToContract (ia_FromContract op) (ia_FromOwner op)
                   (ia_ToContract op) (ia_ToOwner op) (ia_Amount op) s
            else Inr s) (\<lambda>s1.
     Inr (\<lparr>vc_Caller = ia_FromCaller op, vc_CallingContractOwner = Some (ia_FromOwner op),
           vc_CallingContractName = ia_FromContract op,
           vc_CallingContractMethod = ia_FromMethod op, vc_Owner = ia_ToOwner op,
           vc_Contract = ia_ToContract op, vc_Method = ia_ToMethod op,
           vc_ParamsData = ia_Params op, vc_Amount = Some (ia_Amount op), vc_Gas = remainGas,
           vc_Code = ct_Code toContract, vc_CodeHash = ct_Hash toContract\<rparr>, s1))))))))))"

definition internal_op ::
  "vm_context \<Rightarrow> name \<Rightarrow> string \<Rightarrow> string \<Rightarrow> bytes \<Rightarrow> u64 \<Rightarrow> internal_contract_apply_operation" where
  "internal_op ctx owner contract method params coins =
     \<lparr>ia_FromCaller = vc_Caller ctx, ia_FromOwner = vc_Owner ctx, ia_FromContract = vc_Contract ctx,
      ia_FromMethod = vc_Method ctx, ia_ToOwner = owner, ia_ToContract = contract,
      ia_ToMethod = method, ia_Params = params, ia_Amount = coins\<rparr>"

lemma InternalContractApply_prepare_gas:
  "InternalContractApply_prepare env op g s = Inr (ctx, s') \<Longrightarrow> vc_Gas ctx = g"
  by (auto simp: InternalContractApply_prepare_def res_inv split: option.splits)

text \<open>
  A run of the machine: the native calls one after the other. The result is the state reached,
  the gas spent and the panic or error that ended the run, if one did. A call of another contract
  hands on the gas that is left, which is less than what this contract has, so the nesting ends.
\<close>

definition contract_call_of :: "native_call \<Rightarrow> (name \<times> string \<times> string \<times> bytes \<times> u64) option" where
  "contract_call_of f =
     (case f of ContractCall owner contract method params coins \<Rightarrow>
                  Some (owner, contract, method, params, coins)
              | _ \<Rightarrow> None)"

lemma contract_call_of_Some:
  "contract_call_of f = Some (a, b, c, d, e) \<longleftrightarrow> f = ContractCall a b c d e"
  by (cases f) (auto simp: contract_call_of_def)

lemma contract_call_of_None:
  "contract_call_of f = None \<longleftrightarrow> \<not> (\<exists>a b c d e. f = ContractCall a b c d e)"
  by (cases f) (auto simp: contract_call_of_def)

type_synonym vm_run = "vm_state \<times> nat \<times> panic option"

function run_events ::
  "vm_env \<Rightarrow> name \<Rightarrow> vm_context \<Rightarrow> (nat \<times> native_call) list \<Rightarrow> vm_result \<Rightarrow> vm_state \<Rightarrow> vm_run" where
  "run_events env signer ctx [] r st =
     (st, vr_Gas r + vs_extra st, map_option Assert (vr_Error r))"
| "run_events env signer ctx ((g, f) # evs) r st =
     (let spent = g + native_gas f + vs_extra st in
      case contract_call_of f of
        Some (owner, contract, method, params, coins) \<Rightarrow>
          if \<not> vc_Gas ctx > spent
          then (st, spent, Some (Assert ''ContractCall(): out of gas.''))
          else
            (case InternalContractApply_prepare env
                    (internal_op ctx owner contract method params coins)
                    (vc_Gas ctx - spent) (vs_db st) of
               Inl e \<Rightarrow> (st, spent, Some e)
             | Inr (ctx', s1) \<Rightarrow>
                 (let (evs', r') = env_Exec env ctx' s1;
                      (st', gas', err) = run_events env signer ctx' evs' r'
                         \<lparr>vs_db = s1, vs_props = db_props s1, vs_extra = 0\<rparr>;
                      st2 = st\<lparr>vs_db := vs_db st', vs_extra := vs_extra st + gas'\<rparr>
                  in case err of
                       Some e \<Rightarrow> (st2, spent + gas', Some (Assert ''internal contract apply failed''))
                     | None \<Rightarrow> run_events env signer ctx evs r st2))
      | None \<Rightarrow>
          (case native_apply signer ctx f st of
             Inl e \<Rightarrow> (st, spent, Some e)
           | Inr st2 \<Rightarrow> run_events env signer ctx evs r st2))"
  by pat_completeness auto

termination
  by (relation "measures [\<lambda>(env, signer, ctx, evs, r, st). vc_Gas ctx,
                          \<lambda>(env, signer, ctx, evs, r, st). length evs]")
     (auto dest!: InternalContractApply_prepare_gas simp: native_gas_def contract_call_of_Some)

text \<open>
  What a run keeps. \<open>I\<close> relates the calls still to come to the state, \<open>Q\<close> is what is known of the
  database wherever the run stops.
\<close>

lemma run_events_invariant:
  assumes stop: "\<And>evs st. I evs st \<Longrightarrow> Q (vs_db st)"
    and native: "\<And>ctx g f evs st st2. I ((g, f) # evs) st \<Longrightarrow> contract_call_of f = None \<Longrightarrow>
        native_apply signer ctx f st = Inr st2 \<Longrightarrow> I evs st2"
    and enter: "\<And>op g f evs st gas ctx' s1 evs' r'. I ((g, f) # evs) st \<Longrightarrow>
        InternalContractApply_prepare env op gas (vs_db st) = Inr (ctx', s1) \<Longrightarrow>
        env_Exec env ctx' s1 = (evs', r') \<Longrightarrow>
        I evs' \<lparr>vs_db = s1, vs_props = db_props s1, vs_extra = 0\<rparr>"
    and leave: "\<And>g f evs st s2 n. I ((g, f) # evs) st \<Longrightarrow> contract_call_of f \<noteq> None \<Longrightarrow> Q s2 \<Longrightarrow>
        I evs (st\<lparr>vs_db := s2, vs_extra := n\<rparr>)"
  shows "run_events env signer ctx evs r st = (st', gas, err) \<Longrightarrow> I evs st \<Longrightarrow> Q (vs_db st')"
  using native enter leave
proof (induction env signer ctx evs r st arbitrary: st' gas err rule: run_events.induct)
  case (1 env signer ctx r st)
  then show ?case using stop by auto
next
  case (2 env signer ctx g f evs r st)
  note run = 2(4) and I = 2(5) and native = 2(6) and enter = 2(7) and leave = 2(8)
  let ?spent = "g + native_gas f + vs_extra st"
  show ?case
  proof (cases "contract_call_of f")
    case None
    show ?thesis
    proof (cases "native_apply signer ctx f st")
      case (Inl e)
      with run None stop [OF I] show ?thesis by (auto simp: Let_def)
    next
      case (Inr st2)
      have "run_events env signer ctx evs r st2 = (st', gas, err)"
        using run None Inr by (simp add: Let_def)
      from 2(1) [OF refl None Inr this native [OF I None Inr] native enter leave] show ?thesis .
    qed
  next
    case (Some q)
    obtain ow ct m ps n where q: "q = (ow, ct, m, ps, n)" by (cases q)
    note Some' = Some [unfolded q]
    show ?thesis
    proof (cases "vc_Gas ctx > ?spent")
      case False
      with run Some' stop [OF I] show ?thesis by (auto simp: Let_def)
    next
      case gas: True
      then have gas': "\<not> \<not> vc_Gas ctx > ?spent" by simp
      show ?thesis
      proof (cases "InternalContractApply_prepare env (internal_op ctx ow ct m ps n)
                      (vc_Gas ctx - ?spent) (vs_db st)")
        case (Inl e)
        with run Some' gas stop [OF I] show ?thesis by (auto simp: Let_def)
      next
        case (Inr b)
        obtain ctx' s1 where b: "b = (ctx', s1)" by (cases b)
        note Inr' = Inr [unfolded b]
        obtain evs' r' where ex: "env_Exec env ctx' s1 = (evs', r')" by (cases "env_Exec env ctx' s1")
        obtain st1 gas1 err1 where inner: "run_events env signer ctx' evs' r'
            \<lparr>vs_db = s1, vs_props = db_props s1, vs_extra = 0\<rparr> = (st1, gas1, err1)"
          by (cases "run_events env signer ctx' evs' r'
            \<lparr>vs_db = s1, vs_props = db_props s1, vs_extra = 0\<rparr>")
        have Q1: "Q (vs_db st1)"
          by (rule 2(2) [OF refl Some' refl refl refl refl gas' Inr' refl refl ex [symmetric] inner
                enter [OF I Inr' ex] native enter leave])
        let ?st2 = "st\<lparr>vs_db := vs_db st1, vs_extra := vs_extra st + gas1\<rparr>"
        have I2: "I evs ?st2" by (rule leave [OF I _ Q1]) (simp add: Some')
        show ?thesis
        proof (cases err1)
          case None
          then have rest: "run_events env signer ctx evs r ?st2 = (st', gas, err)"
            using run Some' gas Inr' ex inner by (simp add: Let_def)
          show ?thesis
            by (rule 2(3) [OF refl Some' refl refl refl refl gas' Inr' refl refl ex [symmetric] refl
                  inner [symmetric] refl refl None rest I2 native enter leave])
        next
          case (Some e)
          with run Some' gas Inr' ex inner have "vs_db st' = vs_db st1"
            by (auto simp: Let_def)
          with Q1 show ?thesis by simp
        qed
      qed
    qed
  qed
qed

section \<open>The contract operations\<close>

definition ContractDeploy_Apply ::
  "vm_env \<Rightarrow> u64 \<Rightarrow> contract_deploy_operation \<Rightarrow> db \<Rightarrow> db res" where
  "ContractDeploy_Apply env hardFork op s =
     (case env_Decompress env (cd_Code op) of
        None \<Rightarrow> Inl (Assert ''contract code decompression failed'')
      | Some contractCode \<Rightarrow>
     (case env_Decompress env (cd_Abi op) of
        None \<Rightarrow> Inl (Assert ''contract abi decompression failed'')
      | Some contractAbi \<Rightarrow>
     (let cid = (cd_Owner op, cd_Contract op); codeHash = env_Sha256 env contractCode in
     rbind (case tbl_get (db_contracts s) cid of
              None \<Rightarrow> Inr ()
            | Some scid \<Rightarrow>
                rbind (opAssert (ct_Upgradeable scid) ''contract can not upgrade'') (\<lambda>_.
                opAssert (ct_Hash scid \<noteq> codeHash) ''code hash can not be equal'')) (\<lambda>_.
     rbind (opAssert (env_UnmarshalABI env contractAbi) ''invalid contract abi'') (\<lambda>_.
     let abiString = string_of_bytes contractAbi in
     rbind (opAssert (env_Validate env contractCode) ''validate code failed'') (\<lambda>_.
     rbind (opAssert (\<not> isBadGuy hardFork (cd_Owner op)) ''owner account forbidden'') (\<lambda>_.
     if CheckExist (db_contracts s) cid then
       contract_Modify cid
         (\<lambda>t. Inr (t\<lparr>ct_Abi := abiString, ct_Code := contractCode,
                     ct_Upgradeable := cd_Upgradeable op, ct_Hash := codeHash\<rparr>)) s
     else
       contract_Create cid
         \<lparr>ct_CreatedTime = HeadBlockTime s, ct_Abi = abiString, ct_Balance = 0,
          ct_Code = contractCode, ct_ApplyCount = 0, ct_Upgradeable = cd_Upgradeable op,
          ct_Hash = codeHash, ct_Url = cd_Url op, ct_Describe = cd_Describe op\<rparr> s)))))))"

definition MaxGasPerCall :: u64 where
  "MaxGasPerCall = 20000 * CpuConsumePointDen"

text \<open>The checks of a call before the machine runs, and the context it runs in.\<close>

definition ContractApply_prepare ::
  "vm_env \<Rightarrow> u64 \<Rightarrow> contract_apply_operation \<Rightarrow> trx_context \<Rightarrow> (vm_context \<times> db) res" where
  "ContractApply_prepare env hardFork op c =
     (let s = tc_db c; cid = (ca_Owner op, ca_Contract op) in
     rbind (MustExist (db_contracts s) cid ''contract name doesnt exist'') (\<lambda>_.
     rbind (MustExist (db_accounts s) (ca_Caller op) ''caller account doesnt exist'') (\<lambda>_.
     rbind (opAssert (\<not> isBadGuy hardFork (ca_Owner op)) ''owner account forbidden'') (\<lambda>_.
     rbind (opAssert (\<not> isBadGuy hardFork (ca_Caller op)) ''caller account forbidden'') (\<lambda>_.
     rbind (account_Get (ca_Caller op) s) (\<lambda>acc.
     rbind (case ca_Amount op of
              None \<Rightarrow> Inr ()
            | Some amount \<Rightarrow> opAssert (acc_Balance acc \<ge> amount)
                ''balance does not have enough fund to transfer'') (\<lambda>_.
     rbind (contract_Get cid s) (\<lambda>scid.
     rbind (opAssert (env_UnmarshalABI env (bytes_of_string (ct_Abi scid)))
              ''invalid contract abi'') (\<lambda>_.
     rbind (case env_EncodeParams env (ct_Abi scid) (ca_Method op) of
              None \<Rightarrow> Inl (Assert (''unknown contract method: '' @ ca_Method op))
            | Some encode \<Rightarrow>
                (case encode (ca_Params op) of
                   None \<Rightarrow> Inl (Assert ''invalid contract parameters'')
                 | Some bs \<Rightarrow> Inr bs)) (\<lambda>paramsData.
     rbind (GetVmRemainCpuStamina (ca_Caller op) c) (\<lambda>remain.
     let remainGas = remain * CpuConsumePointDen;
         gas = (if remainGas > MaxGasPerCall then MaxGasPerCall else remainGas) in
     rbind (if GetValue (ca_Amount op) > 0
            then TransferFromUserToContract (ca_Caller op) (ca_Contract op) (ca_Owner op)
                   (GetValue (ca_Amount op)) c
            else Inr s) (\<lambda>s1.
     Inr (\<lparr>vc_Caller = ca_Caller op, vc_CallingContractOwner = None,
           vc_CallingContractName = '''', vc_CallingContractMethod = '''',
           vc_Owner = ca_Owner op, vc_Contract = ca_Contract op, vc_Method = ca_Method op,
           vc_ParamsData = paramsData, vc_Amount = ca_Amount op, vc_Gas = unat gas,
           vc_Code = ct_Code scid, vc_CodeHash = ct_Hash scid\<rparr>, s1)))))))))))))"

definition ContractApply_Apply ::
  "vm_env \<Rightarrow> u64 \<Rightarrow> contract_apply_operation \<Rightarrow> trx_context \<Rightarrow> unit outcome" where
  "ContractApply_Apply env hardFork op c =
     (case ContractApply_prepare env hardFork op c of
        Inl e \<Rightarrow> (c, Inl e)
      | Inr (ctx, s1) \<Rightarrow>
          (let (evs, r) = env_Exec env ctx s1;
               (st, spentGas, err) = run_events env (tc_signer c) ctx evs r
                  \<lparr>vs_db = s1, vs_props = db_props s1, vs_extra = 0\<rparr>;
               c1 = RecordStaminaFee (ca_Caller op) (of_nat spentGas) (c\<lparr>tc_db := vs_db st\<rparr>) in
           case err of
             Some e \<Rightarrow> (c1, Inl (Assert ''execute vm error''))
           | None \<Rightarrow>
               on_db (contract_Modify (ca_Owner op, ca_Contract op)
                        (\<lambda>t. Inr (t\<lparr>ct_ApplyCount := ct_ApplyCount t + 1\<rparr>))) c1))"

section \<open>Applying an operation\<close>

text \<open>
  The evaluator registered for an operation, with the hard fork it needs
  (\<open>GetBaseEvaluator\<close>, \<open>RegisterEvaluatorWithMinHardFork\<close>).
\<close>

definition minHardFork :: "operation \<Rightarrow> u64" where
  "minHardFork op =
     (case op of DelegateVest _ \<Rightarrow> HardFork3 | UnDelegateVest _ \<Rightarrow> HardFork3 | _ \<Rightarrow> Original)"

definition evaluator_Apply :: "vm_env \<Rightarrow> u64 \<Rightarrow> operation \<Rightarrow> trx_context \<Rightarrow> unit outcome" where
  "evaluator_Apply env hf op =
     (case op of
        AccountCreate o1 \<Rightarrow> on_db (AccountCreate_Apply o1)
      | Transfer o2 \<Rightarrow> on_db (Transfer_Apply hf o2)
      | BpRegister o3 \<Rightarrow> on_db (BpRegister_Apply o3)
      | BpEnable o4 \<Rightarrow> on_db (BpEnable_Apply o4)
      | BpVote o5 \<Rightarrow> on_db (BpVote_Apply o5)
      | Post o6 \<Rightarrow> on_db (Post_Apply o6)
      | Reply o7 \<Rightarrow> on_db (Reply_Apply o7)
      | Follow o8 \<Rightarrow> on_db (Follow_Apply o8)
      | Vote o9 \<Rightarrow> on_db (Vote_Apply hf o9)
      | TransferToVestOp o10 \<Rightarrow> on_db (TransferToVest_Apply hf o10)
      | ContractDeploy o13 \<Rightarrow> on_db (ContractDeploy_Apply env hf o13)
      | ContractApply o14 \<Rightarrow> ContractApply_Apply env hf o14
      | ConvertVest o16 \<Rightarrow> on_db (ConvertVest_Apply hf o16)
      | Stake o17 \<Rightarrow> on_db (Stake_Apply hf o17)
      | UnStake o18 \<Rightarrow> on_db (UnStake_Apply o18)
      | BpUpdate o19 \<Rightarrow> on_db (BpUpdate_Apply o19)
      | AccountUpdate o20 \<Rightarrow> on_db (AccountUpdate_Apply o20)
      | AcquireTicket o21 \<Rightarrow> on_db (AcquireTicket_Apply o21)
      | VoteByTicket o22 \<Rightarrow> on_db (VoteByTicket_Apply o22)
      | DelegateVest o23 \<Rightarrow> on_db (DelegateVest_Apply hf o23)
      | UnDelegateVest o24 \<Rightarrow> on_db (UnDelegateVest_Apply o24))"

definition applyOperation :: "vm_env \<Rightarrow> u64 \<Rightarrow> operation \<Rightarrow> trx_context \<Rightarrow> unit outcome" where
  "applyOperation env hf op c =
     (if hf < minHardFork op then (c, Inl (Assert ''evaluator only works after hard_fork''))
      else evaluator_Apply env hf op (RecordOperationStaminaFee c))"

end
