(* ===== verification/Economist.thy ===== *)
theory Economist
  imports Contracts
begin

text \<open>
  The economy of the chain (\<open>app/economist.go\<close>, \<open>app/annual_mint\<close>), run after the transactions
  of every block: minting, the free tickets of an epoch, the cash-out of posts, replies, dapps and
  votes from the reward pools, the power-down of vests into coins, and the delivery of delegated
  vests that were called back. Amounts that \<open>big.Int\<close> holds are integers; \<open>Uint64()\<close> keeps
  the low 64 bits of the absolute value (\<open>big_Uint64\<close>).
\<close>

section \<open>Arithmetic\<close>

definition Min_u64 :: "u64 \<Rightarrow> u64 \<Rightarrow> u64" where
  "Min_u64 x y = (if x < y then x else y)"

definition ProportionAlgorithm :: "int \<Rightarrow> int \<Rightarrow> int \<Rightarrow> int" where
  "ProportionAlgorithm numerator denominator tot =
     (if denominator = 0 then 0 else big_Div (numerator * tot) denominator)"

definition StringToBigInt :: "string \<Rightarrow> int res" where
  "StringToBigInt n =
     (case big_of_string n of
        None \<Rightarrow> Inl (Assert (''StringToBigInt cannot convert '' @ n @ '' to big.Int''))
      | Some v \<Rightarrow> Inr v)"

definition VpDecayTime :: int where
  "VpDecayTime = uint PostCashOutDelayBlock * 3 div 2"

definition Decay :: "int \<Rightarrow> int" where
  "Decay rawValue = rawValue - ProportionAlgorithm (uint BlockInterval) VpDecayTime rawValue"

record item =
  it_beneficiary :: name
  it_wvp :: int
  it_postId :: u64

definition SumItemsWvp :: "item list \<Rightarrow> int" where
  "SumItemsWvp items = fold (\<lambda>it sum. sum + it_wvp it) items 0"

section \<open>Minting\<close>

definition BaseBudget :: "u32 \<Rightarrow> u64" where
  "BaseBudget ith =
     (if ith > 12 then 0
      else let remain = (if ith = 12 then COSTotalSupply div 1000 div 100 * 56 else 0)
           in COSTotalSupply div 1000 div 100 * 448 * ucast ith + remain)"

definition CalculateBudget :: "u32 \<Rightarrow> u64" where
  "CalculateBudget ith = BaseBudget ith"

definition CalculatePerBlockBudget :: "u64 \<Rightarrow> u64" where
  "CalculatePerBlockBudget annalBudget = annalBudget div (86400 div BlockInterval * 365)"

text \<open>
  The first half of \<open>Mint\<close>: the state with the year brought up to date, and the amount this block
  mints.
\<close>

definition mint_year :: "db \<Rightarrow> (u64 \<times> db) res" where
  "mint_year s =
     (let annualBudget = CalculateBudget (dp_IthYear (db_props s)) in
     rbind (if dp_AnnualBudget (db_props s) \<noteq> annualBudget
            then ModifyProps (\<lambda>props. Inr (props\<lparr>dp_AnnualBudget := annualBudget,
                                                 dp_AnnualMinted := 0\<rparr>)) s
            else Inr s) (\<lambda>s1.
     let globalProps = db_props s1;
         budget = dp_AnnualBudget globalProps; minted = dp_AnnualMinted globalProps;
         blockCurrent = CalculatePerBlockBudget annualBudget;
         next_year = ModifyProps (\<lambda>props. Inr (props\<lparr>dp_IthYear := dp_IthYear props + 1\<rparr>)) in
     rbind (if budget > minted \<and> budget \<le> minted + blockCurrent
            then rbind (next_year s1) (\<lambda>s2. Inr (budget - minted, s2))
            else Inr (blockCurrent, s1)) (\<lambda>(blockCurrent, s2).
     if budget \<le> minted then rbind (next_year s2) (\<lambda>s3. Inr (0, s3))
     else Inr (blockCurrent, s2))))"

definition creatorReward :: "u64 \<Rightarrow> u64" where
  "creatorReward blockCurrent = blockCurrent * RewardRateCreator div PERCENT"

definition dappReward :: "u64 \<Rightarrow> u64" where
  "dappReward blockCurrent = blockCurrent * RewardRateDapp div PERCENT"

definition bpReward :: "u64 \<Rightarrow> u64" where
  "bpReward blockCurrent = blockCurrent - creatorReward blockCurrent - dappReward blockCurrent"

definition postReward :: "u64 \<Rightarrow> u64" where
  "postReward blockCurrent = creatorReward blockCurrent * RewardRateAuthor div PERCENT"

definition replyReward :: "u64 \<Rightarrow> u64" where
  "replyReward blockCurrent = creatorReward blockCurrent * RewardRateReply div PERCENT"

definition voteReward :: "u64 \<Rightarrow> u64" where
  "voteReward blockCurrent =
     creatorReward blockCurrent - postReward blockCurrent - replyReward blockCurrent"

definition reward_bp :: "name \<Rightarrow> vest \<Rightarrow> db \<Rightarrow> db res" where
  "reward_bp bpName reward s =
     rbind (MustExist (db_accounts s) bpName ''Mint failed when get bp wrap'') (\<lambda>_.
     rbind (account_Get bpName s) (\<lambda>bp.
     let oldVest = acc_Vest bp in
     rbind (vest_Add reward (acc_Vest bp)) (\<lambda>bpRewardVest.
     rbind (account_Modify bpName (\<lambda>t. Inr (t\<lparr>acc_Vest := bpRewardVest\<rparr>)) s) (\<lambda>s1.
     rbind (producer_Modify bpName
              (\<lambda>t. Inr (t\<lparr>bp_GenBlockCount := bp_GenBlockCount t + 1\<rparr>)) s1) (\<lambda>s2.
     updateBpVoteValue bpName oldVest bpRewardVest s2)))))"

definition Mint :: "db \<Rightarrow> db res" where
  "Mint s =
     (if \<not> dp_BlockProducerBootCompleted (db_props s) then Inr s
      else
     rbind (mint_year s) (\<lambda>(blockCurrent, s1).
     rbind (reward_bp (dp_CurrentBlockProducer (db_props s1)) (bpReward blockCurrent) s1) (\<lambda>s2.
     ModifyProps (\<lambda>props.
       rbind (vest_Add (dp_PoolPostRewards props) (postReward blockCurrent)) (\<lambda>p1.
       rbind (vest_Add (dp_PoolReplyRewards props) (replyReward blockCurrent)) (\<lambda>p2.
       rbind (vest_Add (dp_PoolVoteRewards props) (voteReward blockCurrent)) (\<lambda>p3.
       rbind (vest_Add (dp_PoolDappRewards props) (dappReward blockCurrent)) (\<lambda>p4.
       rbind (vest_Add (dp_AnnualMinted props) blockCurrent) (\<lambda>am.
       rbind (vest_Add (dp_TotalVest props) blockCurrent) (\<lambda>tv.
       Inr (props\<lparr>dp_PoolPostRewards := p1, dp_PoolReplyRewards := p2, dp_PoolVoteRewards := p3,
                  dp_PoolDappRewards := p4, dp_AnnualMinted := am, dp_TotalVest := tv\<rparr>))))))) ) s2)))"

section \<open>Free tickets\<close>

text \<open>
  The walk over the accounts by vest, richest first, stops when the counter exceeds \<open>topN\<close>; the
  counter is compared before it is increased.
\<close>

fun take_top :: "u32 \<Rightarrow> u32 \<Rightarrow> name list \<Rightarrow> name list" where
  "take_top topN cnt [] = []"
| "take_top topN cnt (account # rest) =
     (if cnt > topN then [] else account # take_top topN (cnt + 1) rest)"

definition give_ticket :: "u64 \<Rightarrow> dynamic_properties \<Rightarrow> name \<Rightarrow> db \<Rightarrow> db res" where
  "give_ticket current globalProps account s =
     (let key = \<lparr>gk_Type = 0, gk_From = COSSysAccount, gk_To = account,
                 gk_CreateBlock = current\<rparr>;
          expire = current + dp_EpochDuration globalProps in
      if CheckExist (db_tickets s) key
      then rbind (tbl_Modify key (\<lambda>t. Inr (t\<lparr>gt_ExpireBlock := expire\<rparr>)) (db_tickets s))
             (\<lambda>t. Inr (s\<lparr>db_tickets := t\<rparr>))
      else ticket_Create key
             \<lparr>gt_Denom = dp_PerTicketWeight globalProps, gt_Count = 1, gt_ExpireBlock = expire\<rparr> s)"

definition Distribute :: "db \<Rightarrow> db res" where
  "Distribute s =
     (let globalProps = db_props s; current = dp_HeadBlockNumber globalProps in
      if dp_CurrentEpochStartBlock globalProps = 0 then Inr s
      else if dp_CurrentEpochStartBlock globalProps + dp_EpochDuration globalProps > current
      then Inr s
      else
        (let accounts = take_top (dp_TopNAcquireFreeToken globalProps) 0
                          (ForEachByRevOrder acc_Vest None None (db_accounts s)) in
         rbind (for_each (give_ticket current globalProps) accounts s) (\<lambda>s1.
         ModifyProps (\<lambda>props. Inr (props\<lparr>dp_CurrentEpochStartBlock := current\<rparr>)) s1)))"

section \<open>Cash-out\<close>

definition decayGlobalWvp :: "db \<Rightarrow> db res" where
  "decayGlobalWvp = ModifyProps (\<lambda>props.
     rbind (StringToBigInt (dp_WeightedVpsPost props)) (\<lambda>post.
     rbind (StringToBigInt (dp_WeightedVpsReply props)) (\<lambda>reply.
     rbind (StringToBigInt (dp_WeightedVpsVote props)) (\<lambda>vote.
     rbind (StringToBigInt (dp_WeightedVpsDapp props)) (\<lambda>dapp.
     Inr (props\<lparr>dp_WeightedVpsPost := string_of_big (Decay post),
                dp_WeightedVpsReply := string_of_big (Decay reply),
                dp_WeightedVpsVote := string_of_big (Decay vote),
                dp_WeightedVpsDapp := string_of_big (Decay dapp)\<rparr>))))))"

text \<open>The weight an author's post has: nothing for a bad author or an infringing post.\<close>

definition judged_wvp :: "name \<Rightarrow> u32 \<Rightarrow> int \<Rightarrow> db \<Rightarrow> int" where
  "judged_wvp author copyright wvp s =
     (let v1 = (case tbl_get (db_accounts s) author of
                  None \<Rightarrow> 0
                | Some a \<Rightarrow> if acc_Reputation a = MinReputation then 0 else wvp)
      in if copyright = CopyrightInfringement then 0 else v1)"

definition post_item :: "u64 \<Rightarrow> post \<Rightarrow> db \<Rightarrow> item res" where
  "post_item ticketWeight post s =
     rbind (StringToBigInt (po_WeightedVp post)) (\<lambda>w.
     let giftVp = uint (po_Ticket post) * uint ticketWeight;
         weightedVp = judged_wvp (po_Author post) (po_Copyright post) (w + giftVp) s in
     Inr \<lparr>it_beneficiary = po_Author post, it_wvp = weightedVp, it_postId = po_PostId post\<rparr>)"

definition dapp_items :: "post \<Rightarrow> int \<Rightarrow> item list" where
  "dapp_items post weightedVp =
     map (\<lambda>(name, weight).
       let routeWvp = ProportionAlgorithm (uint weight) (uint PERCENT) weightedVp;
           wvp = (if po_ParentId post = PostInvalidId then routeWvp
                  else ProportionAlgorithm (uint RewardRateReply) (uint RewardRateAuthor) routeWvp)
       in \<lparr>it_beneficiary = name, it_wvp = wvp, it_postId = po_PostId post\<rparr>)
     (po_Beneficiaries post)"

record cashout_items =
  co_posts :: "item list"
  co_replies :: "item list"
  co_dapps :: "item list"

fun collect_posts :: "u64 \<Rightarrow> db \<Rightarrow> u64 list \<Rightarrow> cashout_items \<Rightarrow> cashout_items res" where
  "collect_posts ticketWeight s [] acc = Inr acc"
| "collect_posts ticketWeight s (pid # pids) acc =
     (case tbl_get (db_posts s) pid of
        None \<Rightarrow> collect_posts ticketWeight s pids acc
      | Some post \<Rightarrow>
          rbind (post_item ticketWeight post s) (\<lambda>it.
          let acc1 = (if po_ParentId post = PostInvalidId
                      then acc\<lparr>co_posts := co_posts acc @ [it]\<rparr>
                      else acc\<lparr>co_replies := co_replies acc @ [it]\<rparr>) in
          collect_posts ticketWeight s pids
            (acc1\<lparr>co_dapps := co_dapps acc1 @ dapp_items post (it_wvp it)\<rparr>)))"

definition processRewardForAccount :: "name \<Rightarrow> int \<Rightarrow> db \<Rightarrow> (bool \<times> db) res" where
  "processRewardForAccount accountName reward s =
     (if reward = 0 then Inr (True, s)
      else case tbl_get (db_accounts s) accountName of
        None \<Rightarrow> Inr (False, s)
      | Some account \<Rightarrow>
          if acc_Reputation account = MinReputation then Inr (False, s)
          else
            rbind (vest_Add (big_Uint64 reward) (acc_Vest account)) (\<lambda>newVest.
            rbind (account_Modify accountName (\<lambda>t. Inr (t\<lparr>acc_Vest := newVest\<rparr>)) s) (\<lambda>s1.
            rbind (updateBpVoteValue accountName (acc_Vest account) newVest s1) (\<lambda>s2.
            Inr (True, s2)))))"

definition finalizePostCashout :: "u64 \<Rightarrow> int \<Rightarrow> db \<Rightarrow> db res" where
  "finalizePostCashout postId reward =
     post_Modify postId (\<lambda>t. Inr (t\<lparr>po_Rewards := big_Uint64 reward,
                                    po_CashoutBlockNum := MaxUint64\<rparr>))"

definition finalizePostDappCashout :: "u64 \<Rightarrow> int \<Rightarrow> db \<Rightarrow> db res" where
  "finalizePostDappCashout postId reward s =
     rbind (post_Get postId s) (\<lambda>post.
     rbind (vest_Add (big_Uint64 reward) (po_DappRewards post)) (\<lambda>newDappReward.
     post_Modify postId (\<lambda>t. Inr (t\<lparr>po_DappRewards := newDappReward\<rparr>)) s))"

text \<open>
  The loop of the four cash-outs: each item gets its share of the pool as it was before the loop,
  by the total weight that includes the items of this block.
\<close>

fun pay_items ::
  "(u64 \<Rightarrow> int \<Rightarrow> db \<Rightarrow> db res) \<Rightarrow> int \<Rightarrow> vest \<Rightarrow> item list \<Rightarrow> int \<Rightarrow> db \<Rightarrow> (int \<times> db) res" where
  "pay_items finalize tot pool [] claimed s = Inr (claimed, s)"
| "pay_items finalize tot pool (it # items) claimed s =
     (let reward = ProportionAlgorithm (it_wvp it) tot (uint pool) in
     rbind (processRewardForAccount (it_beneficiary it) reward s) (\<lambda>(result, s1).
     let paid = (if result then reward else 0) in
     rbind (finalize (it_postId it) paid s1) (\<lambda>s2.
     pay_items finalize tot pool items (claimed + paid) s2)))"

definition cashoutPosts :: "item list \<Rightarrow> db \<Rightarrow> db res" where
  "cashoutPosts postsItems s =
     (if length postsItems = 0 then Inr s
      else
     rbind (StringToBigInt (dp_WeightedVpsPost (db_props s))) (\<lambda>global.
     let current = global + SumItemsWvp postsItems; pool = dp_PoolPostRewards (db_props s) in
     rbind (ModifyProps (\<lambda>props. Inr (props\<lparr>dp_WeightedVpsPost := string_of_big current\<rparr>)) s) (\<lambda>s1.
     rbind (pay_items finalizePostCashout current pool postsItems 0 s1) (\<lambda>(claimed, s2).
     ModifyProps (\<lambda>props.
       rbind (vest_Sub (dp_PoolPostRewards props) (big_Uint64 claimed)) (\<lambda>p.
       rbind (vest_Add (dp_ClaimedPostRewards props) (big_Uint64 claimed)) (\<lambda>c.
       Inr (props\<lparr>dp_PoolPostRewards := p, dp_ClaimedPostRewards := c\<rparr>)))) s2))))"

definition cashoutReplies :: "item list \<Rightarrow> db \<Rightarrow> db res" where
  "cashoutReplies repliesItems s =
     (if length repliesItems = 0 then Inr s
      else
     rbind (StringToBigInt (dp_WeightedVpsReply (db_props s))) (\<lambda>global.
     let current = global + SumItemsWvp repliesItems; pool = dp_PoolReplyRewards (db_props s) in
     rbind (ModifyProps (\<lambda>props. Inr (props\<lparr>dp_WeightedVpsReply := string_of_big current\<rparr>)) s) (\<lambda>s1.
     rbind (pay_items finalizePostCashout current pool repliesItems 0 s1) (\<lambda>(claimed, s2).
     ModifyProps (\<lambda>props.
       rbind (vest_Add (dp_ClaimedReplyRewards props) (big_Uint64 claimed)) (\<lambda>c.
       rbind (vest_Sub (dp_PoolReplyRewards props) (big_Uint64 claimed)) (\<lambda>p.
       Inr (props\<lparr>dp_PoolReplyRewards := p, dp_ClaimedReplyRewards := c\<rparr>)))) s2))))"

definition cashoutDapps :: "item list \<Rightarrow> db \<Rightarrow> db res" where
  "cashoutDapps dappsItems s =
     (if length dappsItems = 0 then Inr s
      else
     rbind (StringToBigInt (dp_WeightedVpsDapp (db_props s))) (\<lambda>global.
     let current = global + SumItemsWvp dappsItems; pool = dp_PoolDappRewards (db_props s) in
     rbind (ModifyProps (\<lambda>props. Inr (props\<lparr>dp_WeightedVpsDapp := string_of_big current\<rparr>)) s) (\<lambda>s1.
     rbind (pay_items finalizePostDappCashout current pool dappsItems 0 s1) (\<lambda>(claimed, s2).
     ModifyProps (\<lambda>props.
       rbind (vest_Add (dp_ClaimedDappRewards props) (big_Uint64 claimed)) (\<lambda>c.
       rbind (vest_Sub (dp_PoolDappRewards props) (big_Uint64 claimed)) (\<lambda>p.
       Inr (props\<lparr>dp_PoolDappRewards := p, dp_ClaimedDappRewards := c\<rparr>)))) s2))))"

definition cashoutVotes :: "item list \<Rightarrow> db \<Rightarrow> db res" where
  "cashoutVotes votesItems s =
     (if length votesItems = 0 then Inr s
      else
     rbind (StringToBigInt (dp_WeightedVpsVote (db_props s))) (\<lambda>global.
     let current = global + SumItemsWvp votesItems; pool = dp_PoolVoteRewards (db_props s) in
     rbind (ModifyProps (\<lambda>props. Inr (props\<lparr>dp_WeightedVpsVote := string_of_big current\<rparr>)) s) (\<lambda>s1.
     rbind (pay_items (\<lambda>_ _. Inr) current pool votesItems 0 s1) (\<lambda>(claimed, s2).
     ModifyProps (\<lambda>props.
       rbind (vest_Add (dp_ClaimedVoteRewards props) (big_Uint64 claimed)) (\<lambda>c.
       rbind (vest_Sub (dp_PoolVoteRewards props) (big_Uint64 claimed)) (\<lambda>p.
       Inr (props\<lparr>dp_PoolVoteRewards := p, dp_ClaimedVoteRewards := c\<rparr>)))) s2))))"

fun collect_votes :: "db \<Rightarrow> voter_id list \<Rightarrow> item list res" where
  "collect_votes s [] = Inr []"
| "collect_votes s ((voter, postId) # ids) =
     rbind (StringToBigInt (case tbl_get (db_votes s) (voter, postId) of
                              None \<Rightarrow> '''' | Some v \<Rightarrow> vo_WeightedVp v)) (\<lambda>w.
     rbind (tbl_Get (db_votes s) (voter, postId)) (\<lambda>_.
     rbind (post_Get postId s) (\<lambda>post.
     rbind (collect_votes s ids) (\<lambda>items.
     Inr (\<lparr>it_beneficiary = voter,
           it_wvp = judged_wvp (po_Author post) (po_Copyright post) w s,
           it_postId = postId\<rparr> # items)))))"

definition Do :: "db \<Rightarrow> db res" where
  "Do s =
     (let globalProps = db_props s in
     if \<not> dp_BlockProducerBootCompleted globalProps then Inr s
     else
     rbind (decayGlobalWvp s) (\<lambda>s1.
     let pids = ForEachByOrder po_CashoutBlockNum None
                  (Some (dp_HeadBlockNumber globalProps + 1)) (db_posts s1) in
     rbind (collect_posts (dp_PerTicketWeight globalProps) s1 pids
              \<lparr>co_posts = [], co_replies = [], co_dapps = []\<rparr>) (\<lambda>items.
     rbind (cashoutPosts (co_posts items) s1) (\<lambda>s2.
     rbind (cashoutReplies (co_replies items) s2) (\<lambda>s3.
     rbind (cashoutDapps (co_dapps items) s3) (\<lambda>s4.
     case tbl_get (db_voteCashouts s4) (dp_HeadBlockNumber globalProps) of
       None \<Rightarrow> Inr s4
     | Some voteIds \<Rightarrow>
         rbind (collect_votes s4 voteIds) (\<lambda>voteItems. cashoutVotes voteItems s4)))))))"

section \<open>Power-down\<close>

definition powerdown_quota :: "account \<Rightarrow> u64 \<Rightarrow> u64 res" where
  "powerdown_quota acc accountFee =
     rbind (vest_Sub (acc_Vest acc) (acc_BorrowedVest acc)) (\<lambda>own.
     let max = (if own < accountFee then 0 else own - accountFee) in
     rbind (vest_Sub (acc_ToPowerdown acc) (acc_HasPowerdown acc)) (\<lambda>remaining.
     Inr (Min_u64 max (Min_u64 (acc_EachPowerdownRate acc) remaining))))"

definition powerdown_account :: "u64 \<Rightarrow> u64 \<Rightarrow> name \<Rightarrow> db \<Rightarrow> db res" where
  "powerdown_account current accountFee accountName s =
     rbind (account_Get accountName s) (\<lambda>acc.
     rbind (powerdown_quota acc accountFee) (\<lambda>quota.
     rbind (vest_Sub (acc_Vest acc) quota) (\<lambda>newVest.
     rbind (coin_Add (acc_Balance acc) (vest_ToCoin quota)) (\<lambda>newBalance.
     rbind (vest_Add (acc_HasPowerdown acc) quota) (\<lambda>newHasPowerdown.
     rbind (account_Modify accountName (\<lambda>t. Inr (t\<lparr>acc_Vest := newVest, acc_Balance := newBalance,
                                                    acc_HasPowerdown := newHasPowerdown\<rparr>)) s) (\<lambda>s1.
     rbind (updateBpVoteValue accountName (acc_Vest acc) newVest s1) (\<lambda>s2.
     rbind (ModifyProps (\<lambda>props.
              rbind (coin_Add (dp_TotalCos props) (vest_ToCoin quota)) (\<lambda>c.
              rbind (vest_Sub (dp_TotalVest props) quota) (\<lambda>v.
              Inr (props\<lparr>dp_TotalCos := c, dp_TotalVest := v\<rparr>)))) s2) (\<lambda>s3.
     if newHasPowerdown \<ge> acc_ToPowerdown acc \<or> newVest \<le> accountFee
     then account_Modify accountName
            (\<lambda>t. Inr (t\<lparr>acc_EachPowerdownRate := 0, acc_StartPowerdownBlockNum := 0,
                        acc_NextPowerdownBlockNum := MaxUint64\<rparr>)) s3
     else account_Modify accountName
            (\<lambda>t. Inr (t\<lparr>acc_NextPowerdownBlockNum := current + PowerDownBlockInterval\<rparr>)) s3))))))))"

definition PowerDown :: "db \<Rightarrow> db res" where
  "PowerDown s =
     (let globalProps = db_props s; current = dp_HeadBlockNumber globalProps in
      if \<not> dp_BlockProducerBootCompleted globalProps then Inr s
      else for_each
             (powerdown_account current (coin_ToVest (dp_AccountCreateFee globalProps)))
             (ForEachByOrder acc_NextPowerdownBlockNum None (Some current) (db_accounts s)) s)"

section \<open>Delivery of delegated vests\<close>

definition deliver_order :: "u64 \<Rightarrow> db \<Rightarrow> db res" where
  "deliver_order orderId s =
     rbind (delegation_Get orderId s) (\<lambda>rec.
     rbind (account_Get (vd_FromAccount rec) s) (\<lambda>account.
     let oldVest = acc_Vest account; amount = vd_Amount rec in
     rbind (account_Modify (vd_FromAccount rec) (\<lambda>r.
              rbind (vest_Sub (acc_DeliveringVest r) amount) (\<lambda>d.
              rbind (vest_Add (acc_Vest r) amount) (\<lambda>v.
              Inr (r\<lparr>acc_DeliveringVest := d, acc_Vest := v\<rparr>)))) s) (\<lambda>s1.
     rbind (account_Get (vd_FromAccount rec) s1) (\<lambda>account1.
     rbind (updateBpVoteValue (vd_FromAccount rec) oldVest (acc_Vest account1) s1) (\<lambda>s2.
     delegation_Remove orderId s2)))))"

definition DeliverDelegatedVests :: "db \<Rightarrow> db res" where
  "DeliverDelegatedVests s =
     (let globalProps = db_props s; blockNumber = dp_HeadBlockNumber globalProps + 1 in
      if \<not> dp_BlockProducerBootCompleted globalProps then Inr s
      else for_each deliver_order
             (ForEachByOrder vd_DeliveryBlock None (Some blockNumber) (db_delegations s)) s)"

end
