(* ===== verification/Blocks.thy ===== *)
theory Blocks
  imports Operations
begin

text \<open>
  Blocks (\<open>prototype/signed_block.go\<close>, \<open>common/block.go\<close>): the header and the transactions with
  their receipts, the block id that carries the block number in its first eight bytes, and the
  Merkle root computed by halving a vector in place. Protobuf encoding, SHA-256 and the signature
  scheme are parameters.
\<close>

record signed_transaction =
  sg_Trx :: transaction
  sg_Signature :: bytes

record receipt =
  rc_Status :: u32
  rc_NetUsage :: u64
  rc_CpuUsage :: u64

record trx_wrapper =
  tw_SigTrx :: signed_transaction
  tw_Receipt :: receipt

record signed_block =
  sb_Previous :: hash
  sb_Timestamp :: u32
  sb_BlockProducer :: name
  sb_TransactionMerkleRoot :: hash
  sb_PrevApplyHash :: u64
  sb_Signature :: bytes
  sb_Transactions :: "trx_wrapper list"

definition StatusSuccess :: u32 where "StatusSuccess = 200"
definition StatusFailDeductStamina :: u32 where "StatusFailDeductStamina = 201"
definition StatusError :: u32 where "StatusError = 500"

section \<open>Block ids\<close>

text \<open>\<open>binary.LittleEndian.Uint64\<close> and \<open>PutUint64\<close>.\<close>

definition le_Uint64 :: "bytes \<Rightarrow> u64" where
  "le_Uint64 bs = foldr (\<lambda>b acc. ucast b + 256 * acc) (take 8 bs) 0"

fun le_bytes :: "nat \<Rightarrow> u64 \<Rightarrow> bytes" where
  "le_bytes 0 w = []"
| "le_bytes (Suc n) w = ucast w # le_bytes n (w div 256)"

definition le_PutUint64 :: "u64 \<Rightarrow> bytes" where
  "le_PutUint64 w = le_bytes 8 w"

definition BlockNum :: "hash \<Rightarrow> u64" where
  "BlockNum bid = le_Uint64 bid"

definition zero_id :: hash where
  "zero_id = replicate 32 0"

text \<open>\<open>headerHash\<close> is the SHA-256 digest of the encoded signed header.\<close>

definition Block_Id :: "(signed_block \<Rightarrow> hash) \<Rightarrow> signed_block \<Rightarrow> hash" where
  "Block_Id headerHash sb =
     (let prev = (if length (sb_Previous sb) \<noteq> 0 then take 32 (sb_Previous sb) else zero_id);
          digest = headerHash sb
      in le_PutUint64 (BlockNum prev + 1) @ drop 8 digest)"

section \<open>The Merkle root\<close>

text \<open>
  One round over the vector \<open>ids\<close>: the pairs of the first \<open>n\<close> entries are hashed into the front
  of the vector and an odd entry is moved behind them; the entries after that stay as they were.
\<close>

fun merkle_pairs :: "(hash \<Rightarrow> hash \<Rightarrow> hash) \<Rightarrow> nat \<Rightarrow> nat \<Rightarrow> nat \<Rightarrow> hash list \<Rightarrow> hash list \<times> nat" where
  "merkle_pairs h 0 i k ids = (ids, k)"
| "merkle_pairs h (Suc n) i k ids =
     merkle_pairs h n (i + 2) (k + 1) (ids[k := h (ids ! i) (ids ! (i + 1))])"

definition merkle_round :: "(hash \<Rightarrow> hash \<Rightarrow> hash) \<Rightarrow> nat \<Rightarrow> hash list \<Rightarrow> hash list \<times> nat" where
  "merkle_round h currentHashes ids =
     (let iMax = currentHashes - currentHashes mod 2;
          (ids1, k) = merkle_pairs h (iMax div 2) 0 0 ids
      in if currentHashes mod 2 = 1 then (ids1[k := ids1 ! iMax], k + 1) else (ids1, k))"

lemma merkle_pairs_count: "snd (merkle_pairs h n i k ids) = k + n"
  by (induction n arbitrary: i k ids) simp_all

lemma merkle_round_count: "snd (merkle_round h n ids) = (n + 1) div 2"
proof -
  have half: "(n - n mod 2) div 2 = n div 2" by presburger
  have "snd (merkle_round h n ids) = n div 2 + n mod 2"
    unfolding merkle_round_def Let_def half
    using merkle_pairs_count [of h "n div 2" 0 0 ids]
    by (auto split: prod.splits)
  also have "\<dots> = (n + 1) div 2" by presburger
  finally show ?thesis .
qed

function merkle_loop :: "(hash \<Rightarrow> hash \<Rightarrow> hash) \<Rightarrow> nat \<Rightarrow> hash list \<Rightarrow> hash list" where
  "merkle_loop h currentHashes ids =
     (if currentHashes > 1
      then (let (ids1, k) = merkle_round h currentHashes ids in merkle_loop h k ids1)
      else ids)"
  by pat_completeness auto

termination
proof (relation "measure (\<lambda>(h, n, ids). n)")
  fix h n ids r ids1 k
  assume "n > (1 :: nat)" and "r = merkle_round h n ids" and "(ids1, k) = r"
  then have "k = (n + 1) div 2" using merkle_round_count [of h n ids] by (metis snd_conv)
  with \<open>n > 1\<close> show "((h, k, ids1), h, n, ids) \<in> measure (\<lambda>(h, n, ids). n)" by simp
qed simp

declare merkle_loop.simps [simp del]

definition CalculateMerkleRoot ::
  "(signed_transaction \<Rightarrow> hash) \<Rightarrow> (hash \<Rightarrow> hash \<Rightarrow> hash) \<Rightarrow> signed_block \<Rightarrow> hash" where
  "CalculateMerkleRoot digest pairHash sb =
     (if length (sb_Transactions sb) = 0 then zero_id
      else let ids = map (\<lambda>t. digest (tw_SigTrx t)) (sb_Transactions sb)
           in merkle_loop pairHash (length ids) ids ! 0)"

section \<open>Block numbers survive in the id\<close>

lemma length_le_bytes [simp]: "length (le_bytes n w) = n"
  by (induction n arbitrary: w) simp_all

lemma byte_split: "ucast (ucast w :: u8) + 256 * (w div 256) = (w :: u64)"
proof -
  have "ucast (ucast w :: u8) = w mod (256 :: u64)"
    by (simp add: word_unat_eq_iff unat_mod unsigned_ucast_eq unsigned_take_bit_eq take_bit_eq_mod)
  then show ?thesis by (simp only: mod_mult_div_eq)
qed

lemma le_roundtrip:
  "unat w < 256 ^ n \<Longrightarrow> foldr (\<lambda>b acc. ucast b + 256 * acc) (le_bytes n w) 0 = (w :: u64)"
proof (induction n arbitrary: w)
  case 0
  then show ?case by (simp add: unat_eq_zero)
next
  case (Suc n)
  have "unat (w div 256) < 256 ^ n"
    using Suc.prems by (simp add: unat_div less_mult_imp_div_less mult.commute)
  from Suc.IH [OF this] show ?case by (simp add: byte_split)
qed

lemma le_Uint64_PutUint64: "le_Uint64 (le_PutUint64 w @ rest) = w"
proof -
  have "unat w < 256 ^ 8" using unat_64_less [of w] by simp
  then show ?thesis by (simp add: le_Uint64_def le_PutUint64_def le_roundtrip)
qed

text \<open>
  The number of a block, read from the first eight bytes of its id, is the number of the block
  it extends plus one, whatever the digest of the header is.
\<close>

theorem block_number_chain:
  "BlockNum (Block_Id headerHash sb) =
     (if sb_Previous sb = [] then 1 else BlockNum (take 32 (sb_Previous sb)) + 1)"
  by (simp add: Block_Id_def BlockNum_def Let_def le_Uint64_PutUint64)
     (simp add: le_Uint64_def zero_id_def numeral_eq_Suc)

section \<open>The Merkle root is that of the binary tree\<close>

fun pair_up :: "(hash \<Rightarrow> hash \<Rightarrow> hash) \<Rightarrow> hash list \<Rightarrow> hash list" where
  "pair_up h (x # y # r) = h x y # pair_up h r"
| "pair_up h r = r"

lemma length_pair_up: "length (pair_up h r) = (length r + 1) div 2"
  by (induction h r rule: pair_up.induct) auto

function merkle_tree :: "(hash \<Rightarrow> hash \<Rightarrow> hash) \<Rightarrow> hash list \<Rightarrow> hash" where
  "merkle_tree h hs = (if length hs > 1 then merkle_tree h (pair_up h hs) else hs ! 0)"
  by pat_completeness auto

termination
  by (relation "measure (\<lambda>(h, hs). length hs)") (auto simp: length_pair_up)

declare merkle_tree.simps [simp del]

lemma pair_up_snoc: "even (length xs) \<Longrightarrow> pair_up h (xs @ [x]) = pair_up h xs @ [x]"
  by (induction h xs rule: pair_up.induct) auto

lemma merkle_pairs_spec:
  assumes "k \<le> i" and "i + 2 * n \<le> length ids"
  shows "length (fst (merkle_pairs h n i k ids)) = length ids"
    and "take (k + n) (fst (merkle_pairs h n i k ids)) =
           take k ids @ pair_up h (take (2 * n) (drop i ids))"
    and "drop (i + 2 * n) (fst (merkle_pairs h n i k ids)) = drop (i + 2 * n) ids"
  using assms
proof (induction n arbitrary: i k ids)
  case 0
  { case 1 then show ?case by simp }
  { case 2 then show ?case by simp }
  { case 3 then show ?case by simp }
next
  case (Suc n)
  let ?ids = "\<lambda>ids :: hash list. \<lambda>i k. ids[k := h (ids ! i) (ids ! (i + 1))]"
  { case 1 then show ?case using Suc(1) [of "k + 1" "i + 2" "?ids ids i k"] by simp }
  { case 2
    then have k: "k < length ids" and le: "i + 2 + 2 * n \<le> length (?ids ids i k)" by simp_all
    have "drop i ids = ids ! i # ids ! (i + 1) # drop (i + 2) ids"
      using 2 by (simp add: Cons_nth_drop_Suc)
    moreover have "drop (i + 2) (?ids ids i k) = drop (i + 2) ids" using 2 by simp
    moreover have "take (k + 1) (?ids ids i k) = take k ids @ [h (ids ! i) (ids ! (i + 1))]"
      using k by (simp add: take_Suc_conv_app_nth)
    ultimately show ?case
      using Suc(2) [OF _ le, of "k + 1"] 2 by simp }
  { case 3
    then show ?case
      using Suc(3) [of "k + 1" "i + 2" "?ids ids i k"] by simp }
qed

lemma merkle_round_spec:
  assumes n: "n \<le> length ids"
  shows "take (snd (merkle_round h n ids)) (fst (merkle_round h n ids)) = pair_up h (take n ids)"
    and "length (fst (merkle_round h n ids)) = length ids"
proof -
  define iMax where "iMax = n - n mod 2"
  define m where "m = iMax div 2"
  have m: "2 * m = iMax" by (simp add: m_def iMax_def)
  have le: "0 + 2 * m \<le> length ids" using n by (simp add: m iMax_def)
  obtain ids1 k where r: "merkle_pairs h m 0 0 ids = (ids1, k)" by (cases "merkle_pairs h m 0 0 ids")
  have k: "k = m" using merkle_pairs_count [of h m 0 0 ids] r by simp
  have len: "length ids1 = length ids" and front: "take m ids1 = pair_up h (take iMax ids)"
    and rest: "drop iMax ids1 = drop iMax ids"
    using merkle_pairs_spec [OF le_refl le, of h] r by (simp_all add: m)
  have round: "merkle_round h n ids =
      (if n mod 2 = 1 then (ids1[m := ids1 ! iMax], m + 1) else (ids1, m))"
    using r k by (simp add: merkle_round_def iMax_def [symmetric] m_def [symmetric])
  have "take (snd (merkle_round h n ids)) (fst (merkle_round h n ids)) = pair_up h (take n ids) \<and>
        length (fst (merkle_round h n ids)) = length ids"
  proof (cases "n mod 2 = 1")
    case True
    then have nm: "n = iMax + 1" by (simp add: iMax_def)
    with n have i: "iMax < length ids" by simp
    have "ids1 ! iMax = ids ! iMax"
      using rest i len by (metis hd_drop_conv_nth)
    moreover have "take n ids = take iMax ids @ [ids ! iMax]"
      using i by (simp add: nm take_Suc_conv_app_nth)
    moreover have "even (length (take iMax ids))" using i m by (simp add: min_def) (metis dvd_triv_left)
    moreover have "m < length ids1" using i m len by simp
    ultimately show ?thesis
      using True front len by (simp add: round pair_up_snoc take_Suc_conv_app_nth)
  next
    case False
    then have "n = iMax" by (simp add: iMax_def)
    with front False len show ?thesis unfolding round by simp
  qed
  then show "take (snd (merkle_round h n ids)) (fst (merkle_round h n ids)) = pair_up h (take n ids)"
    and "length (fst (merkle_round h n ids)) = length ids" by simp_all
qed

lemma merkle_loop_tree:
  "n \<le> length ids \<Longrightarrow> 0 < n \<Longrightarrow> merkle_loop h n ids ! 0 = merkle_tree h (take n ids)"
proof (induction h n ids rule: merkle_loop.induct)
  case (1 h n ids)
  show ?case
  proof (cases "n > 1")
    case True
    obtain ids1 k where r: "merkle_round h n ids = (ids1, k)" by (cases "merkle_round h n ids")
    have k: "k = (n + 1) div 2" using merkle_round_count [of h n ids] r by simp
    have t: "take k ids1 = pair_up h (take n ids)" and len: "length ids1 = length ids"
      using merkle_round_spec [OF 1(2), of h] r by simp_all
    have "merkle_loop h k ids1 ! 0 = merkle_tree h (take k ids1)"
      by (rule 1(1) [OF True refl r [symmetric]]) (use k True len 1(2) in auto)
    with True r t 1(2) show ?thesis
      by (simp add: merkle_loop.simps [of h n] merkle_tree.simps [of h "take n ids"])
  next
    case False
    with 1(2,3) show ?thesis
      by (simp add: merkle_loop.simps [of h n] merkle_tree.simps [of h "take n ids"])
  qed
qed

text \<open>
  C11. The in-place computation of \<open>CalculateMerkleRoot\<close> returns the root of the binary tree whose
  leaves are the digests of the transactions in order, an odd last node being handed up unchanged;
  a block without transactions has the zero root.
\<close>

theorem merkle_root_tree:
  "CalculateMerkleRoot digest pairHash sb =
     (if sb_Transactions sb = [] then zero_id
      else merkle_tree pairHash (map (\<lambda>t. digest (tw_SigTrx t)) (sb_Transactions sb)))"
  using merkle_loop_tree [of "length (sb_Transactions sb)"
      "map (\<lambda>t. digest (tw_SigTrx t)) (sb_Transactions sb)" pairHash]
  by (simp add: CalculateMerkleRoot_def Let_def)

end
