(* ===== verification/Sched.thy ===== *)
theory Sched
  imports Blocks "HOL-Library.Multiset"
begin

text \<open>
  The scheduler of the transactions of a batch (\<open>app/trx_sched.go\<close>). It counts how many
  transactions touch each property, and splits the batch into group 0, which collects the
  transactions that share a property with another one, and one group for every other transaction.
  The second pass walks a Go map: its order is the parameter \<open>order\<close>, any rearrangement of the
  entries. The theory shows that the groups are a partition of the batch, that two different
  groups share no property, and that the order of the batch is not kept inside group 0.
\<close>

type_synonym props = "string list"

record sched =
  sc_group0 :: "nat list"
  sc_props :: "string \<Rightarrow> nat"
  sc_indeps :: "(nat \<times> props) list"

definition sched_init :: sched where
  "sched_init = \<lparr>sc_group0 = [], sc_props = (\<lambda>_. 0), sc_indeps = []\<rparr>"

definition inc_props :: "props \<Rightarrow> (string \<Rightarrow> nat) \<Rightarrow> string \<Rightarrow> nat" where
  "inc_props p m = (\<lambda>k. if k \<in> set p then m k + 1 else m k)"

definition sched_step :: "nat \<Rightarrow> props \<Rightarrow> sched \<Rightarrow> sched" where
  "sched_step i p st =
     (let dep = list_ex (\<lambda>k. sc_props st k > 0) p;
          st1 = st\<lparr>sc_props := inc_props p (sc_props st)\<rparr>
      in if dep then st1\<lparr>sc_group0 := sc_group0 st1 @ [i]\<rparr>
         else st1\<lparr>sc_indeps := sc_indeps st1 @ [(i, p)]\<rparr>)"

fun sched_scan :: "nat \<Rightarrow> props list \<Rightarrow> sched \<Rightarrow> sched option" where
  "sched_scan i [] st = Some st"
| "sched_scan i (p # ps) st =
     (if ''*'' \<in> set p then None else sched_scan (i + 1) ps (sched_step i p st))"

definition shared :: "(string \<Rightarrow> nat) \<Rightarrow> props \<Rightarrow> bool" where
  "shared m p = (sum_list (map m p) > length p)"

definition schedule ::
  "((nat \<times> props) list \<Rightarrow> (nat \<times> props) list) \<Rightarrow> props list \<Rightarrow> nat list list" where
  "schedule order ps =
     (case sched_scan 0 ps sched_init of
        None \<Rightarrow> []
      | Some st \<Rightarrow>
          (let cands = order (sc_indeps st);
               group0 = sc_group0 st @ map fst (filter (\<lambda>(i, p). shared (sc_props st) p) cands);
               singles = map (\<lambda>(i, p). [i]) (filter (\<lambda>(i, p). \<not> shared (sc_props st) p) cands)
           in if singles = [] then [] else if group0 = [] then singles else group0 # singles))"

definition ScheduleTrxs ::
  "((nat \<times> props) list \<Rightarrow> (nat \<times> props) list) \<Rightarrow> ('a \<Rightarrow> transaction) \<Rightarrow> 'a list \<Rightarrow> 'a list list" where
  "ScheduleTrxs order trx_of trxs =
     (let groups = schedule order (map (\<lambda>e. GetAffectedProps (trx_of e)) trxs)
      in if length groups \<le> 1 then [trxs] else map (map ((!) trxs)) groups)"

section \<open>What the first pass knows\<close>

text \<open>After the first \<open>n\<close> transactions of a batch \<open>ps\<close>.\<close>

definition sched_inv :: "props list \<Rightarrow> nat \<Rightarrow> sched \<Rightarrow> bool" where
  "sched_inv ps n st \<longleftrightarrow>
     mset (sc_group0 st @ map fst (sc_indeps st)) = mset [0..<n] \<and>
     (\<forall>k. sc_props st k = card {i. i < n \<and> k \<in> set (ps ! i)}) \<and>
     (\<forall>(i, p) \<in> set (sc_indeps st). p = ps ! i) \<and>
     (\<forall>(i, p) \<in> set (sc_indeps st). \<forall>j < i. set p \<inter> set (ps ! j) = {}) \<and>
     (\<forall>i \<in> set (sc_group0 st). \<exists>j < i. set (ps ! i) \<inter> set (ps ! j) \<noteq> {})"

lemma touchers_step:
  "card {i. i < Suc n \<and> k \<in> set (ps ! i)} =
     of_bool (k \<in> set (ps ! n)) + card {i. i < n \<and> k \<in> set (ps ! i)}"
proof (cases "k \<in> set (ps ! n)")
  case True
  then have "{i. i < Suc n \<and> k \<in> set (ps ! i)} = insert n {i. i < n \<and> k \<in> set (ps ! i)}"
    using less_Suc_eq by blast
  with True show ?thesis by simp
next
  case False
  then show ?thesis by simp (metis less_Suc_eq)
qed

lemma sched_step_inv:
  assumes "sched_inv ps n st"
  shows "sched_inv ps (Suc n) (sched_step n (ps ! n) st)"
proof -
  let ?p = "ps ! n"
  have cnt: "inc_props ?p (sc_props st) k = card {i. i < Suc n \<and> k \<in> set (ps ! i)}" for k
    using assms by (simp add: sched_inv_def inc_props_def touchers_step)
  have fresh: "set ?p \<inter> set (ps ! j) = {}"
    if "\<not> list_ex (\<lambda>k. sc_props st k > 0) ?p" "j < n" for j
  proof -
    have "card {i. i < n \<and> k \<in> set (ps ! i)} = 0" if "k \<in> set ?p" for k
      using \<open>\<not> list_ex _ _\<close> that assms by (auto simp: list_ex_iff sched_inv_def)
    then show ?thesis using \<open>j < n\<close> by (auto simp: card_eq_0_iff)
  qed
  have met: "\<exists>j < n. set ?p \<inter> set (ps ! j) \<noteq> {}" if dep: "list_ex (\<lambda>k. sc_props st k > 0) ?p"
  proof -
    obtain k where k: "k \<in> set ?p" "card {i. i < n \<and> k \<in> set (ps ! i)} > 0"
      using dep assms unfolding list_ex_iff sched_inv_def by metis
    then show ?thesis by (auto simp: card_gt_0_iff)
  qed
  show ?thesis
    using assms fresh met cnt by (auto simp: sched_inv_def sched_step_def Let_def)
qed

lemma sched_scan_inv:
  "\<lbrakk>sched_scan n ps' st = Some st'; sched_inv ps n st; ps' = drop n ps; n \<le> length ps\<rbrakk>
   \<Longrightarrow> sched_inv ps (length ps) st'"
proof (induction n ps' st rule: sched_scan.induct)
  case (1 i st)
  then show ?case by simp
next
  case (2 i p ps'' st)
  then have "i < length ps" "p = ps ! i" "ps'' = drop (i + 1) ps"
    by (metis drop_eq_Nil leI list.distinct(1), metis nth_via_drop, metis Suc_eq_plus1 drop_Suc list.sel(3) tl_drop)
  with 2 sched_step_inv [of ps i st] show ?case by (simp split: if_splits)
qed

lemma sched_inv_init: "sched_inv ps 0 sched_init"
  by (simp add: sched_inv_def sched_init_def)

lemma sum_gt_length:
  "(\<forall>k \<in> set p. m k \<ge> (1 :: nat)) \<Longrightarrow> (sum_list (map m p) > length p) = (\<exists>k \<in> set p. m k > 1)"
proof (induction p)
  case (Cons a p)
  have "sum_list (map m p) \<ge> length p" using Cons.prems by (induction p) auto
  with Cons show ?case by fastforce
qed simp

lemma not_shared_iff:
  assumes "sched_inv ps n st" "i < n" "p = ps ! i"
  shows "\<not> shared (sc_props st) p \<longleftrightarrow>
    (\<forall>j < n. j \<noteq> i \<longrightarrow> set p \<inter> set (ps ! j) = {})"
proof -
  let ?S = "\<lambda>k. {j. j < n \<and> k \<in> set (ps ! j)}"
  have fin: "finite (?S k)" for k by simp
  have one: "sc_props st k = card (?S k)" for k using assms(1) by (simp add: sched_inv_def)
  have pos: "\<forall>k \<in> set p. sc_props st k \<ge> 1"
    using assms(2,3) fin by (auto simp: one Suc_le_eq card_gt_0_iff)
  have "(card (?S k) > 1) = (\<exists>j < n. j \<noteq> i \<and> k \<in> set (ps ! j))" if "k \<in> set p" for k
  proof -
    have "card (?S k) = Suc (card (?S k - {i}))"
      using card_Suc_Diff1 [OF fin, of i k] that assms(2,3) by simp
    then have "(card (?S k) > 1) = (?S k - {i} \<noteq> {})" by (simp add: card_gt_0_iff)
    then show ?thesis by auto
  qed
  then show ?thesis
    unfolding shared_def sum_gt_length [OF pos] by (auto simp: one)
qed

lemma scan_state:
  "sched_scan 0 ps sched_init = Some st \<Longrightarrow> sched_inv ps (length ps) st"
  by (rule sched_scan_inv [OF _ sched_inv_init]) simp_all

lemma mset_split:
  "mset (map f (filter P xs)) + mset (map f (filter (\<lambda>x. \<not> P x) xs)) = mset (map f xs)"
  by (induction xs) auto

lemma concat_one: "concat (map (\<lambda>i. [i]) xs) = xs"
  by (induction xs) auto

lemma nth_disjoint:
  "\<lbrakk>distinct (concat gs); a < length gs; b < length gs; a \<noteq> b; i \<in> set (gs ! a); j \<in> set (gs ! b)\<rbrakk>
   \<Longrightarrow> i \<noteq> j"
proof (induction gs arbitrary: a b)
  case (Cons g gs)
  have tl: "x \<in> set (concat gs)" if "x \<in> set (gs ! n)" "n < length gs" for x n
    using that nth_mem by fastforce
  show ?case using Cons.prems Cons.IH [of "a - 1" "b - 1"] tl by (cases a; cases b) auto
qed simp

text \<open>The shape of a schedule that splits: group 0, possibly empty, and the single groups.\<close>

lemma scheduleE:
  assumes "schedule order ps \<noteq> []" "\<And>xs. mset (order xs) = mset xs"
  obtains st group0 singles where
    "sched_inv ps (length ps) st"
    "schedule order ps = (if group0 = [] then [] else [group0]) @ map (\<lambda>i. [i]) singles"
    "mset (group0 @ singles) = mset [0..<length ps]"
    "\<And>i. i \<in> set singles \<Longrightarrow> \<not> shared (sc_props st) (ps ! i)"
proof -
  obtain st where st: "sched_scan 0 ps sched_init = Some st"
    using assms(1) by (auto simp: schedule_def split: option.splits)
  let ?c = "order (sc_indeps st)"
  let ?sh = "\<lambda>(i, p). shared (sc_props st) p"
  define group0 where "group0 = sc_group0 st @ map fst (filter ?sh ?c)"
  define singles where "singles = map fst (filter (\<lambda>x. \<not> ?sh x) ?c)"
  have inv: "sched_inv ps (length ps) st" by (rule scan_state [OF st])
  have ns: "(\<lambda>(i, p). \<not> shared (sc_props st) p) = (\<lambda>x. \<not> ?sh x)" by auto
  have "map (\<lambda>(i, p). [i]) xs = map (\<lambda>i. [i]) (map fst xs)" for xs :: "(nat \<times> props) list"
    by (induction xs) auto
  then have shape: "schedule order ps =
      (if group0 = [] then [] else [group0]) @ map (\<lambda>i. [i]) singles"
    using assms(1) st
    by (auto simp: schedule_def Let_def group0_def singles_def ns split: if_splits)
  have "mset (map fst ?c) = mset (map fst (sc_indeps st))"
    using assms(2) by (metis mset_map)
  then have part: "mset (group0 @ singles) = mset [0..<length ps]"
    using inv mset_split [of fst ?sh ?c]
    by (simp add: group0_def singles_def sched_inv_def add.assoc)
  have "\<not> shared (sc_props st) (ps ! i)" if "i \<in> set singles" for i
  proof -
    obtain p where "(i, p) \<in> set (sc_indeps st)" "\<not> shared (sc_props st) p"
      using \<open>i \<in> set singles\<close> mset_eq_setD [OF assms(2), of "sc_indeps st"]
      by (auto simp: singles_def)
    then show ?thesis using inv by (auto simp: sched_inv_def)
  qed
  then show thesis using that inv shape part by blast
qed

lemmas sched_eval =
  schedule_def sched_init_def sched_step_def inc_props_def shared_def Let_def numeral_2_eq_2

text \<open>
  C9. When the scheduler splits a batch, every transaction of the batch is in exactly one group,
  whatever the order in which the Go map of the candidates is walked.
\<close>

theorem schedule_partition:
  assumes "\<And>xs. mset (order xs) = mset xs" "schedule order ps \<noteq> []"
  shows "mset (concat (schedule order ps)) = mset [0..<length ps]"
proof -
  obtain group0 singles where
    "schedule order ps = (if group0 = [] then [] else [group0]) @ map (\<lambda>i. [i]) singles"
    "mset (group0 @ singles) = mset [0..<length ps]"
    by (rule scheduleE [OF assms(2,1)]) blast
  then show ?thesis using concat_one [of singles] by auto
qed

theorem schedule_partition_witness:
  "schedule rev [[''a'', ''b''], [''b'', ''c''], [''x'', ''y'']] \<noteq> [] \<and>
   mset (concat (schedule rev [[''a'', ''b''], [''b'', ''c''], [''x'', ''y'']])) = {#0, 1, 2#}"
proof -
  let ?ps = "[[''a'', ''b''], [''b'', ''c''], [''x'', ''y'']]"
  have "schedule rev ?ps \<noteq> []"
    by (simp add: sched_eval)
  then show ?thesis using schedule_partition [of rev ?ps] by (simp add: numeral_2_eq_2)
qed

text \<open>
  C10. Transactions of two different groups of a schedule have no affected property in common.
\<close>

theorem schedule_independent:
  assumes "\<And>xs. mset (order xs) = mset xs"
    and "a < length (schedule order ps)" "b < length (schedule order ps)" "a \<noteq> b"
    and "i \<in> set (schedule order ps ! a)" "j \<in> set (schedule order ps ! b)"
  shows "set (ps ! i) \<inter> set (ps ! j) = {}"
proof -
  have ne: "schedule order ps \<noteq> []" using assms(2) by auto
  obtain st group0 singles where inv: "sched_inv ps (length ps) st"
    and shape: "schedule order ps = (if group0 = [] then [] else [group0]) @ map (\<lambda>i. [i]) singles"
    and part: "mset (group0 @ singles) = mset [0..<length ps]"
    and alone: "\<And>i. i \<in> set singles \<Longrightarrow> \<not> shared (sc_props st) (ps ! i)"
    by (rule scheduleE [OF ne assms(1)]) blast
  have bnd: "set (group0 @ singles) = {0..<length ps}" using part by (metis mset_eq_setD set_upt)
  have dist: "distinct (group0 @ singles)" using part by (metis distinct_upt mset_eq_imp_distinct_iff)
  have sep: "set (ps ! u) \<inter> set (ps ! v) = {}"
    if "u \<in> set singles" "v \<in> set (group0 @ singles)" "u \<noteq> v" for u v
  proof -
    have "u < length ps" "v < length ps" using that(1,2) bnd by auto
    then show ?thesis
      using not_shared_iff [OF inv \<open>u < length ps\<close> refl] alone [OF that(1)] that(3) by metis
  qed
  have all: "concat (schedule order ps) = group0 @ singles"
    unfolding shape using concat_one [of singles] by simp
  have ij: "i \<noteq> j"
    by (rule nth_disjoint [OF _ assms(2-6)]) (simp only: all dist)
  have mem: "i \<in> set (group0 @ singles)" "j \<in> set (group0 @ singles)"
    unfolding all [symmetric] set_concat
    using nth_mem [OF assms(2)] nth_mem [OF assms(3)] assms(5,6) by blast+
  have single: "x \<in> set singles" if "c < length (schedule order ps)" "c \<noteq> 0 \<or> group0 = []"
    "x \<in> set (schedule order ps ! c)" for c x
    using that unfolding shape by (cases "group0 = []"; cases c) auto
  have "i \<in> set singles \<or> j \<in> set singles"
    using single [OF assms(2) _ assms(5)] single [OF assms(3) _ assms(6)] assms(4)
    by (cases "a = 0") auto
  then show ?thesis using sep [of i j] sep [of j i] ij mem by blast
qed

theorem schedule_independent_witness:
  "schedule rev [[''a'', ''b''], [''b'', ''c''], [''x'', ''y'']] = [[1, 0], [2]] \<and>
   set ([[''a'', ''b''], [''b'', ''c''], [''x'', ''y'']] ! 0) \<inter>
   set ([[''a'', ''b''], [''b'', ''c''], [''x'', ''y'']] ! 2) = {}"
proof -
  let ?ps = "[[''a'', ''b''], [''b'', ''c''], [''x'', ''y'']]"
  have run: "schedule rev ?ps = [[1, 0], [2]]" by (simp add: sched_eval)
  have "set (?ps ! 0) \<inter> set (?ps ! 2) = {}"
    by (rule schedule_independent [of rev 0 ?ps 1 0 2]) (simp_all only: run, simp_all)
  with run show ?thesis by blast
qed

text \<open>
  C19. The order of the batch is not kept inside group 0. Whenever the scheduler splits a batch, a
  transaction that shares nothing with the ones before it, but a property with a later one, is
  placed behind that later one: the first writer of a property runs after the others, although the
  interface of the scheduler says that the transactions of one group \<open>must be applied in order\<close>.
\<close>

theorem schedule_reorders_dependent:
  assumes "\<And>xs. mset (order xs) = mset xs" "schedule order ps \<noteq> []"
    and "i < j" "j < length ps" "set (ps ! i) \<inter> set (ps ! j) \<noteq> {}"
    and "\<And>k. k < i \<Longrightarrow> set (ps ! i) \<inter> set (ps ! k) = {}"
  shows "\<exists>us vs ws. hd (schedule order ps) = us @ j # vs @ i # ws"
proof -
  obtain st where st: "sched_scan 0 ps sched_init = Some st"
    using assms(2) by (auto simp: schedule_def split: option.splits)
  define late where "late = map fst (filter (\<lambda>(i, p). shared (sc_props st) p) (order (sc_indeps st)))"
  have inv: "sched_inv ps (length ps) st" by (rule scan_state [OF st])
  have all: "set (sc_group0 st) \<union> fst ` set (sc_indeps st) = {0..<length ps}"
    using inv mset_eq_setD [of "sc_group0 st @ map fst (sc_indeps st)" "[0..<length ps]"]
    by (simp add: sched_inv_def)
  have indeps: "p = ps ! k \<and> (\<forall>l < k. set p \<inter> set (ps ! l) = {})" if "(k, p) \<in> set (sc_indeps st)" for k p
    using inv that unfolding sched_inv_def by blast
  have "j \<notin> fst ` set (sc_indeps st)"
  proof
    assume "j \<in> fst ` set (sc_indeps st)"
    then obtain p where "(j, p) \<in> set (sc_indeps st)" by auto
    with indeps [of j p] assms(3) have "set (ps ! j) \<inter> set (ps ! i) = {}" by metis
    with assms(5) show False by blast
  qed
  moreover have "j \<in> {0..<length ps}" "i \<in> {0..<length ps}" using assms(3,4) by simp_all
  ultimately have j: "j \<in> set (sc_group0 st)" and "i \<in> set (sc_group0 st) \<union> fst ` set (sc_indeps st)"
    using all by blast+
  moreover have "i \<notin> set (sc_group0 st)"
    using inv assms(6) unfolding sched_inv_def by blast
  ultimately have mem: "(i, ps ! i) \<in> set (sc_indeps st)" using indeps [of i] by auto
  have "shared (sc_props st) (ps ! i)"
    using not_shared_iff [OF inv _ refl, of i] assms(3-5) by (metis less_irrefl order_less_trans)
  with mem mset_eq_setD [OF assms(1)] have "i \<in> set late" by (force simp: late_def)
  then obtain b c where bc: "late = b @ i # c" by (meson split_list)
  from j obtain u v where uv: "sc_group0 st = u @ j # v" by (meson split_list)
  have "hd (schedule order ps) = sc_group0 st @ late"
    using assms(2) j st by (auto simp: schedule_def Let_def late_def split: if_splits)
  then show ?thesis using bc uv by (intro exI [of _ u] exI [of _ "v @ b"] exI [of _ c]) simp
qed

theorem schedule_reorders_dependent_witness:
  "schedule rev [[''a'', ''b''], [''b'', ''c''], [''x'', ''y'']] = [[1, 0], [2]] \<and>
   (\<exists>us vs ws. hd (schedule rev [[''a'', ''b''], [''b'', ''c''], [''x'', ''y'']]) = us @ 1 # vs @ 0 # ws)"
proof -
  let ?ps = "[[''a'', ''b''], [''b'', ''c''], [''x'', ''y'']]"
  have run: "schedule rev ?ps = [[1, 0], [2]]" by (simp add: sched_eval)
  have "\<exists>us vs ws. hd (schedule rev ?ps) = us @ 1 # vs @ 0 # ws"
    by (rule schedule_reorders_dependent) (use run in auto)
  with run show ?thesis by blast
qed

end
