(* ===== verification/TrxMgr.thy ===== *)
theory TrxMgr
  imports Evaluator Blocks
begin

text \<open>
  The transaction manager (\<open>app/trx_mgr.go\<close>) and its three plugins: the cache of public keys
  (\<open>app/auth.go\<close>), the check of the reference block (\<open>app/tapos.go\<close>) and the check against replayed
  transactions (\<open>app/inblock_trxs.go\<close>). Transaction ids, encoded sizes and the recovery of the
  signing key are parameters (\<open>mgr_env\<close>). The goroutines of the source run one after the other;
  loops \<open>for i := a; i <= b\<close> over block numbers run over the numbers from \<open>a\<close> to \<open>b\<close>, so \<open>b\<close> below the
  largest 64-bit number is understood. Delivery of results to callbacks leaves no trace in the
  state and is not modelled.
\<close>

definition block_range :: "u64 \<Rightarrow> u64 \<Rightarrow> u64 list" where
  "block_range a b = map of_nat [unat a..<Suc (unat b)]"

definition Number :: "signed_block \<Rightarrow> u64" where
  "Number b = BlockNum (sb_Previous b) + 1"

section \<open>Public keys\<close>

record auth_fetcher =
  af_cache :: "(name, pubkey) tbl"
  af_changes :: "(u64, name list) tbl"
  af_last :: u64
  af_commit :: u64

definition NewAuthFetcher :: "u64 \<Rightarrow> u64 \<Rightarrow> auth_fetcher" where
  "NewAuthFetcher headBlockNum lastCommitBlockNum =
     \<lparr>af_cache = [], af_changes = [], af_last = headBlockNum, af_commit = lastCommitBlockNum\<rparr>"

definition Discard :: "name \<Rightarrow> auth_fetcher \<Rightarrow> auth_fetcher" where
  "Discard account f = f\<lparr>af_cache := tbl_del account (af_cache f)\<rparr>"

definition GetPublicKey :: "db \<Rightarrow> name \<Rightarrow> auth_fetcher \<Rightarrow> (string + pubkey) \<times> auth_fetcher" where
  "GetPublicKey s account f =
     (case tbl_get (af_cache f) account of
        Some data \<Rightarrow> (Inr data, f)
      | None \<Rightarrow>
          (case tbl_get (db_accounts s) account of
             None \<Rightarrow> (Inl (''auth of '' @ account @ '' not found''), f)
           | Some auth \<Rightarrow>
               if acc_Freeze auth \<noteq> 0 then (Inl (''account '' @ account @ '' is frozen''), f)
               else (Inr (acc_PubKey auth),
                     f\<lparr>af_cache := tbl_put account (acc_PubKey auth) (af_cache f)\<rparr>)))"

definition CheckPublicKey :: "db \<Rightarrow> name \<Rightarrow> pubkey \<Rightarrow> auth_fetcher \<Rightarrow> string option \<times> auth_fetcher" where
  "CheckPublicKey s account key f =
     (case GetPublicKey s account f of
        (Inl err, f') \<Rightarrow> (Some err, f')
      | (Inr expected, f') \<Rightarrow> (if expected \<noteq> key then Some ''key mismatch'' else None, f'))"

definition newAccount :: "u64 \<Rightarrow> name \<Rightarrow> pubkey \<Rightarrow> auth_fetcher \<Rightarrow> auth_fetcher" where
  "newAccount blockNum name key f =
     f\<lparr>af_cache := tbl_put name key (af_cache f),
       af_changes := tbl_put blockNum
         ((case tbl_get (af_changes f) blockNum of None \<Rightarrow> [] | Some ns \<Rightarrow> ns) @ [name]) (af_changes f)\<rparr>"

definition key_changes :: "signed_block \<Rightarrow> (name \<times> pubkey) list" where
  "key_changes b =
     concat (map (\<lambda>w.
       if rc_Status (tw_Receipt w) = StatusSuccess
       then concat (map (\<lambda>op. case op of
              AccountCreate m \<Rightarrow> [(ac_NewAccountName m, ac_PubKey m)]
            | AccountUpdate m \<Rightarrow> [(au_Owner m, au_PubKey m)]
            | _ \<Rightarrow> []) (tx_Operations (sg_Trx (tw_SigTrx w))))
       else []) (sb_Transactions b))"

definition auth_BlockApplied :: "signed_block \<Rightarrow> auth_fetcher \<Rightarrow> auth_fetcher" where
  "auth_BlockApplied b f =
     (let blockNum = Number b in
      if blockNum > af_last f
      then (fold (\<lambda>(name, key). newAccount blockNum name key) (key_changes b) f)\<lparr>af_last := blockNum\<rparr>
      else f)"

definition revert_changes :: "u64 \<Rightarrow> auth_fetcher \<Rightarrow> auth_fetcher" where
  "revert_changes i f =
     f\<lparr>af_cache := fold tbl_del (case tbl_get (af_changes f) i of None \<Rightarrow> [] | Some ns \<Rightarrow> ns) (af_cache f),
       af_changes := tbl_del i (af_changes f)\<rparr>"

definition auth_BlockReverted :: "u64 \<Rightarrow> auth_fetcher \<Rightarrow> auth_fetcher" where
  "auth_BlockReverted blockNum f =
     (if blockNum \<le> af_last f \<and> blockNum > af_commit f
      then (fold revert_changes (block_range blockNum (af_last f)) f)\<lparr>af_last := blockNum - 1\<rparr>
      else f)"

definition auth_BlockCommitted :: "u64 \<Rightarrow> auth_fetcher \<Rightarrow> auth_fetcher" where
  "auth_BlockCommitted blockNum f =
     (if blockNum > af_commit f \<and> blockNum \<le> af_last f
      then f\<lparr>af_changes := fold tbl_del (block_range (af_commit f + 1) blockNum) (af_changes f),
             af_commit := blockNum\<rparr>
      else f)"

section \<open>Reference blocks\<close>

definition TaposMaxBlockCount :: u64 where "TaposMaxBlockCount = 0x800"

definition TaposRefBlockNum :: "u64 \<Rightarrow> u32" where
  "TaposRefBlockNum blockNum = ucast (blockNum mod TaposMaxBlockCount)"

text \<open>\<open>BigEndian.Uint32(blockId[8:12])\<close>; the slice of a shorter id panics.\<close>

definition TaposRefBlockPrefix :: "hash \<Rightarrow> u32 res" where
  "TaposRefBlockPrefix blockId =
     (if length blockId < 12 then Inl (Assert ''slice bounds out of range'')
      else Inr (foldl (\<lambda>acc b. 256 * acc + ucast b) 0 (take 4 (drop 8 blockId))))"

record tapos_checker =
  tp_blockIds :: "hash list"
  tp_lastBlock :: u64

fun loadBlockIds :: "db \<Rightarrow> u64 list \<Rightarrow> hash list \<Rightarrow> hash list" where
  "loadBlockIds s [] ids = ids"
| "loadBlockIds s (i # is) ids =
     (let n = TaposRefBlockNum i in
      case tbl_get (db_blockSummary s) n of
        None \<Rightarrow> ids
      | Some b \<Rightarrow> loadBlockIds s is (ids[unat n := b]))"

definition loadBlockId :: "db \<Rightarrow> u64 \<Rightarrow> u64 \<Rightarrow> tapos_checker \<Rightarrow> tapos_checker" where
  "loadBlockId s fromBlockNum toBlockNum c =
     c\<lparr>tp_blockIds := loadBlockIds s (block_range fromBlockNum toBlockNum) (tp_blockIds c)\<rparr>"

definition loadAllBlockIds :: "db \<Rightarrow> tapos_checker \<Rightarrow> tapos_checker" where
  "loadAllBlockIds s c = loadBlockId s 1 TaposMaxBlockCount c"

definition NewTaposChecker :: "db \<Rightarrow> u64 \<Rightarrow> tapos_checker" where
  "NewTaposChecker s lastBlock =
     loadAllBlockIds s \<lparr>tp_blockIds = replicate 2048 [], tp_lastBlock = lastBlock\<rparr>"

definition tapos_Check :: "transaction \<Rightarrow> tapos_checker \<Rightarrow> string option res" where
  "tapos_Check trx c =
     rbind (TaposRefBlockPrefix (tp_blockIds c ! unat (TaposRefBlockNum (ucast (tx_RefBlockNum trx)))))
       (\<lambda>expected. Inr (if expected \<noteq> tx_RefBlockPrefix trx then Some ''prefix mismatch'' else None))"

definition tapos_BlockApplied :: "db \<Rightarrow> signed_block \<Rightarrow> tapos_checker \<Rightarrow> tapos_checker" where
  "tapos_BlockApplied s b c =
     (let blockNum = Number b in
      if blockNum > tp_lastBlock c
      then (let c1 = (if blockNum - tp_lastBlock c < TaposMaxBlockCount
                      then loadBlockId s (tp_lastBlock c + 1) blockNum c
                      else loadAllBlockIds s c)
            in c1\<lparr>tp_lastBlock := blockNum\<rparr>)
      else c)"

definition tapos_BlockReverted :: "db \<Rightarrow> u64 \<Rightarrow> tapos_checker \<Rightarrow> tapos_checker" where
  "tapos_BlockReverted s blockNum c =
     (if blockNum \<le> tp_lastBlock c
      then (let c1 = (if tp_lastBlock c - blockNum + 1 < TaposMaxBlockCount
                      then loadBlockId s blockNum (tp_lastBlock c) c
                      else loadAllBlockIds s c)
            in c1\<lparr>tp_lastBlock := blockNum - 1\<rparr>)
      else c)"

section \<open>Transactions in recent blocks\<close>

definition TrxMaxExpirationTime :: u32 where "TrxMaxExpirationTime = 60"
definition sMaxHistoryBlocks :: u64 where
  "sMaxHistoryBlocks = ucast TrxMaxExpirationTime div BlockInterval + 1"
definition sTrxSignatureSize :: nat where "sTrxSignatureSize = 65"

record in_block_entry =
  ie_data :: bytes
  ie_trxs :: "bytes list"

fun chunks :: "nat \<Rightarrow> bytes \<Rightarrow> bytes list" where
  "chunks 0 data = []"
| "chunks (Suc n) data = take sTrxSignatureSize data # chunks n (drop sTrxSignatureSize data)"

definition NewInBlockEntry :: "bytes \<Rightarrow> in_block_entry" where
  "NewInBlockEntry data =
     \<lparr>ie_data = data, ie_trxs = chunks (length data div sTrxSignatureSize) data\<rparr>"

record in_block_checker =
  ib_trxs :: "(u64, in_block_entry) tbl"
  ib_last :: u64

definition Has :: "signed_transaction \<Rightarrow> in_block_checker \<Rightarrow> bool" where
  "Has trx c = list_ex (\<lambda>(_, e). sg_Signature trx \<in> set (ie_trxs e)) (ib_trxs c)"

text \<open>Reading blocks back from the table, and dropping rows; dropping a missing row does nothing.\<close>

definition ib_load_one :: "db \<Rightarrow> u64 \<Rightarrow> in_block_checker \<Rightarrow> in_block_checker" where
  "ib_load_one s i c =
     (case tbl_get (db_blocktrxs s) i of
        None \<Rightarrow> c
      | Some data \<Rightarrow> c\<lparr>ib_trxs := tbl_put i (NewInBlockEntry data) (ib_trxs c)\<rparr>)"

definition ib_load :: "db \<Rightarrow> u64 \<Rightarrow> u64 \<Rightarrow> in_block_checker \<Rightarrow> in_block_checker" where
  "ib_load s fromBlock toBlock c = fold (ib_load_one s) (block_range fromBlock toBlock) c"

definition ib_start :: "u64 \<Rightarrow> u64" where
  "ib_start lst = (if lst \<ge> sMaxHistoryBlocks then lst - sMaxHistoryBlocks + 1 else 1)"

definition ib_loadAll :: "db \<Rightarrow> in_block_checker \<Rightarrow> in_block_checker" where
  "ib_loadAll s c = (if ib_last c < 1 then c else ib_load s (ib_start (ib_last c)) (ib_last c) c)"

definition NewInBlockTrxChecker :: "db \<Rightarrow> u64 \<Rightarrow> in_block_checker" where
  "NewInBlockTrxChecker s lst = ib_loadAll s \<lparr>ib_trxs = [], ib_last = lst\<rparr>"

definition ib_remove :: "u64 \<Rightarrow> u64 \<Rightarrow> db \<Rightarrow> db" where
  "ib_remove fromBlock toBlock s =
     s\<lparr>db_blocktrxs := fold tbl_del (block_range fromBlock toBlock) (db_blocktrxs s)\<rparr>"

definition history_BlockApplied ::
  "signed_block \<Rightarrow> in_block_checker \<Rightarrow> db \<Rightarrow> (in_block_checker \<times> db) res" where
  "history_BlockApplied b c s =
     (let blockNum = Number b in
      if blockNum > ib_last c then
       (let e = NewInBlockEntry (concat (map (\<lambda>w. sg_Signature (tw_SigTrx w)) (sb_Transactions b)));
            trxs = tbl_put blockNum e (ib_trxs c) in
        rbind (tbl_Create blockNum (ie_data e) (db_blocktrxs s)) (\<lambda>t.
        let s1 = s\<lparr>db_blocktrxs := t\<rparr> in
        if blockNum > sMaxHistoryBlocks
        then (let oldBlock = blockNum - sMaxHistoryBlocks in
              Inr (c\<lparr>ib_trxs := tbl_del oldBlock trxs, ib_last := blockNum\<rparr>,
                   ib_remove oldBlock oldBlock s1))
        else Inr (c\<lparr>ib_trxs := trxs, ib_last := blockNum\<rparr>, s1)))
      else Inr (c, s))"

definition history_BlockReverted ::
  "u64 \<Rightarrow> in_block_checker \<Rightarrow> db \<Rightarrow> in_block_checker \<times> db" where
  "history_BlockReverted blockNum c s =
     (if blockNum \<le> ib_last c then
       (let start = ib_start (ib_last c);
            s1 = ib_remove blockNum (ib_last c) s;
            c1 = c\<lparr>ib_trxs := fold tbl_del (block_range blockNum (ib_last c)) (ib_trxs c),
                   ib_last := blockNum - 1\<rparr>;
            newStart = ib_start (ib_last c1)
        in (if newStart < start then ib_load s1 newStart (start - 1) c1 else c1, s1))
      else (c, s))"

section \<open>Entries and their checks\<close>

record mgr_env =
  me_TrxId :: "signed_transaction \<Rightarrow> hash"
  me_Size :: "signed_transaction \<Rightarrow> int"
  me_ExportPubKeys :: "signed_transaction \<Rightarrow> string + pubkey"

record trx_entry =
  te_SigTrx :: signed_transaction
  te_Receipt :: receipt
  te_trxId :: hash
  te_size :: int
  te_signer :: name
  te_signerKey :: pubkey

definition MaxTransactionSize :: int where "MaxTransactionSize = 1024 * 256"

definition NewTrxMgrEntry :: "signed_transaction \<Rightarrow> trx_entry" where
  "NewTrxMgrEntry trx =
     \<lparr>te_SigTrx = trx,
      te_Receipt = \<lparr>rc_Status = StatusSuccess, rc_NetUsage = 0, rc_CpuUsage = 0\<rparr>,
      te_trxId = [], te_size = 0, te_signer = [], te_signerKey = []\<rparr>"

text \<open>The \<open>S\<close> half of a signature, and the bound that makes signatures unique.\<close>

definition be_nat :: "bytes \<Rightarrow> nat" where
  "be_nat bs = foldl (\<lambda>acc b. 256 * acc + unat b) 0 bs"

definition sHalfN :: nat where
  "sHalfN = 0x7FFFFFFFFFFFFFFFFFFFFFFFFFFFFFFF5D576E7357A4501DDFE92F46681B20A0"

definition Signature_Validate :: "bytes \<Rightarrow> string option" where
  "Signature_Validate sig =
     (if length sig \<noteq> 65 then Some ''Signature error: Signature Length Error''
      else if sHalfN < be_nat (take 32 (drop 32 sig)) then Some ''Signature error: Invalid S value of signature''
      else None)"

definition SignedTransaction_Validate :: "signed_transaction \<Rightarrow> verdict" where
  "SignedTransaction_Validate p =
     rbind (Transaction_Validate (sg_Trx p)) (\<lambda>v.
     case v of Some err \<Rightarrow> Inr (Some err) | None \<Rightarrow> Inr (Signature_Validate (sg_Signature p)))"

definition InitCheck :: "mgr_env \<Rightarrow> trx_entry \<Rightarrow> (string + trx_entry) res" where
  "InitCheck env e =
     (let trx = te_SigTrx e in
     rbind (SignedTransaction_Validate trx) (\<lambda>v.
     case v of
       Some err \<Rightarrow> Inr (Inl err)
     | None \<Rightarrow>
         (if me_Size env trx > MaxTransactionSize then Inr (Inl ''trx too large'')
          else case GetOpCreatorsMap (sg_Trx trx) of
            [creator] \<Rightarrow>
              (case me_ExportPubKeys env trx of
                 Inl err \<Rightarrow> Inr (Inl (''cannot export signing key: '' @ err))
               | Inr signKey \<Rightarrow>
                   Inr (Inr (e\<lparr>te_trxId := me_TrxId env trx, te_size := me_Size env trx,
                               te_signer := creator, te_signerKey := signKey\<rparr>)))
          | _ \<Rightarrow> Inr (Inl ''non-unique trx creators''))))"

definition CheckExpiration :: "u32 \<Rightarrow> trx_entry \<Rightarrow> string option" where
  "CheckExpiration blockTime e =
     (let expiration = (case tx_Expiration (sg_Trx (te_SigTrx e)) of None \<Rightarrow> 0 | Some t \<Rightarrow> t) in
      if expiration < blockTime then Some ''trx expired''
      else if expiration > blockTime + TrxMaxExpirationTime then Some ''trx expiration too long''
      else None)"

section \<open>The manager\<close>

record trx_mgr =
  tm_headTime :: u32
  tm_waiting :: "(hash, trx_entry) tbl"
  tm_fetched :: "(hash, trx_entry) tbl"
  tm_auth :: auth_fetcher
  tm_tapos :: tapos_checker
  tm_history :: in_block_checker
  tm_shrinkCounter :: u64

definition sMaxWaitingCount :: nat where "sMaxWaitingCount = unat TrxMaxExpirationTime * 2000"
definition sWaitingCountWaterMark :: nat where "sWaitingCountWaterMark = sMaxWaitingCount div 10"
definition sShrinkCountWaterMark :: u64 where "sShrinkCountWaterMark = 100000"

definition NewTrxMgr :: "db \<Rightarrow> u64 \<Rightarrow> u64 \<Rightarrow> trx_mgr" where
  "NewTrxMgr s lastBlock commitBlock =
     \<lparr>tm_headTime = dp_Time (db_props s), tm_waiting = [], tm_fetched = [],
      tm_auth = NewAuthFetcher lastBlock commitBlock, tm_tapos = NewTaposChecker s lastBlock,
      tm_history = NewInBlockTrxChecker s lastBlock, tm_shrinkCounter = 0\<rparr>"

definition isProcessing :: "mgr_env \<Rightarrow> signed_transaction \<Rightarrow> trx_mgr \<Rightarrow> trx_entry option" where
  "isProcessing env trx m =
     (let k = me_TrxId env trx in
      case tbl_get (tm_waiting m) k of Some e \<Rightarrow> Some e | None \<Rightarrow> tbl_get (tm_fetched m) k)"

definition checkTrx ::
  "db \<Rightarrow> u32 \<Rightarrow> bool \<Rightarrow> trx_entry \<Rightarrow> trx_mgr \<Rightarrow> (string option \<times> trx_mgr) res" where
  "checkTrx s blockTime checkTapos e m =
     (case CheckExpiration blockTime e of
        Some err \<Rightarrow> Inr (Some err, m)
      | None \<Rightarrow>
          rbind (if checkTapos then tapos_Check (sg_Trx (te_SigTrx e)) (tm_tapos m) else Inr None) (\<lambda>t.
          case t of
            Some err \<Rightarrow> Inr (Some (''tapos failed: '' @ err), m)
          | None \<Rightarrow>
              (case CheckPublicKey s (te_signer e) (te_signerKey e) (tm_auth m) of
                 (Some err, f) \<Rightarrow> Inr (Some (''signature failed: '' @ err), m\<lparr>tm_auth := f\<rparr>)
               | (None, f) \<Rightarrow>
                   Inr (if Has (te_SigTrx e) (tm_history m)
                        then Some ''found duplicate in-block trx'' else None,
                        m\<lparr>tm_auth := f\<rparr>))))"

text \<open>
  \<open>due\<close> says that more than the minimal interval has passed since the last cleaning. The loop
  deletes every waiting transaction; the expired ones are also delivered.
\<close>

definition cleanExpiredWaiting :: "bool \<Rightarrow> trx_mgr \<Rightarrow> trx_mgr" where
  "cleanExpiredWaiting due m =
     (if length (tm_waiting m) < sWaitingCountWaterMark then m
      else if tm_headTime m > 0 \<and> due then m\<lparr>tm_waiting := []\<rparr>
      else m)"

definition shrinkPoolMemories :: "trx_mgr \<Rightarrow> trx_mgr" where
  "shrinkPoolMemories m =
     (if tm_shrinkCounter m > sShrinkCountWaterMark then m\<lparr>tm_shrinkCounter := 0\<rparr> else m)"

definition addToWaiting ::
  "mgr_env \<Rightarrow> bool \<Rightarrow> trx_entry \<Rightarrow> trx_mgr \<Rightarrow> string option \<times> trx_mgr" where
  "addToWaiting env due e m =
     (let m1 = cleanExpiredWaiting due m in
      if length (tm_waiting m1) > sMaxWaitingCount then (Some ''too many waiting trxs'', m1)
      else if isProcessing env (te_SigTrx e) m1 \<noteq> None then (Some ''trx already in process'', m1)
      else (None, m1\<lparr>tm_waiting := tbl_put (te_trxId e) e (tm_waiting m1),
                      tm_shrinkCounter := tm_shrinkCounter m1 + 1\<rparr>))"

definition AddTrx ::
  "mgr_env \<Rightarrow> db \<Rightarrow> bool \<Rightarrow> signed_transaction \<Rightarrow> trx_mgr \<Rightarrow> (string option \<times> trx_mgr) res" where
  "AddTrx env s due trx m =
     (if isProcessing env trx m \<noteq> None then Inr (Some ''trx already in process'', m)
      else
      rbind (InitCheck env (NewTrxMgrEntry trx)) (\<lambda>r.
      case r of
        Inl err \<Rightarrow> Inr (Some err, m)
      | Inr e \<Rightarrow>
          rbind (checkTrx s (tm_headTime m) False e m) (\<lambda>(v, m1).
          case v of Some err \<Rightarrow> Inr (Some err, m1) | None \<Rightarrow> Inr (addToWaiting env due e m1))))"

text \<open>
  \<open>FetchTrx\<close> walks the waiting map in an order the caller cannot choose: the list is that walk.
\<close>

fun fetch_walk ::
  "db \<Rightarrow> u32 \<Rightarrow> nat \<Rightarrow> int \<Rightarrow> (hash \<times> trx_entry) list \<Rightarrow> nat \<Rightarrow> int \<Rightarrow> trx_mgr \<Rightarrow>
   (trx_entry list \<times> trx_mgr) res" where
  "fetch_walk s blockTime maxCount maxSize [] counter sz m = Inr ([], m)"
| "fetch_walk s blockTime maxCount maxSize ((k, e) # es) counter sz m =
     (if maxCount > 0 \<and> counter \<ge> maxCount then Inr ([], m)
      else if maxSize > 0 \<and> sz \<ge> maxSize then Inr ([], m)
      else
      rbind (checkTrx s blockTime True e m) (\<lambda>(v, m1).
      let m2 = m1\<lparr>tm_waiting := tbl_del k (tm_waiting m1)\<rparr> in
      case v of
        Some _ \<Rightarrow> fetch_walk s blockTime maxCount maxSize es counter sz m2
      | None \<Rightarrow>
          rbind (fetch_walk s blockTime maxCount maxSize es (counter + 1) (sz + te_size e)
                   (m2\<lparr>tm_fetched := tbl_put k e (tm_fetched m2)\<rparr>)) (\<lambda>(entries, m3).
          Inr (e # entries, m3))))"

definition FetchTrx ::
  "((hash \<times> trx_entry) list \<Rightarrow> (hash \<times> trx_entry) list) \<Rightarrow> db \<Rightarrow> u32 \<Rightarrow> nat \<Rightarrow> int \<Rightarrow> trx_mgr \<Rightarrow>
   (trx_entry list \<times> trx_mgr) res" where
  "FetchTrx order s blockTime maxCount maxSize m =
     fetch_walk s blockTime maxCount maxSize (order (tm_waiting m)) 0 0 m"

definition ReturnTrx :: "trx_entry list \<Rightarrow> trx_mgr \<Rightarrow> trx_mgr" where
  "ReturnTrx entries m = m\<lparr>tm_fetched := fold (\<lambda>e. tbl_del (te_trxId e)) entries (tm_fetched m)\<rparr>"

definition check_block_trx ::
  "mgr_env \<Rightarrow> db \<Rightarrow> u32 \<Rightarrow> signed_transaction \<Rightarrow> trx_mgr \<Rightarrow> ((string + trx_entry) \<times> trx_mgr) res" where
  "check_block_trx env s blockTime trx m =
     (let e = NewTrxMgrEntry trx in
     rbind (case isProcessing env trx m of
              Some p \<Rightarrow> Inr (Inr (e\<lparr>te_trxId := te_trxId p, te_size := te_size p,
                                   te_signer := te_signer p, te_signerKey := te_signerKey p\<rparr>))
            | None \<Rightarrow> InitCheck env e) (\<lambda>r.
     case r of
       Inl err \<Rightarrow> Inr (Inl err, m)
     | Inr e1 \<Rightarrow>
         rbind (checkTrx s blockTime True e1 m) (\<lambda>(v, m1).
         Inr (case v of Some err \<Rightarrow> (Inl err, m1) | None \<Rightarrow> (Inr e1, m1)))))"

fun check_block_trxs ::
  "mgr_env \<Rightarrow> db \<Rightarrow> u32 \<Rightarrow> signed_transaction list \<Rightarrow> trx_mgr \<Rightarrow>
   ((string + trx_entry list) \<times> trx_mgr) res" where
  "check_block_trxs env s blockTime [] m = Inr (Inr [], m)"
| "check_block_trxs env s blockTime (trx # trxs) m =
     rbind (check_block_trx env s blockTime trx m) (\<lambda>(r, m1).
     rbind (check_block_trxs env s blockTime trxs m1) (\<lambda>(rs, m2).
     Inr (case r of
            Inl err \<Rightarrow> Inl err
          | Inr e \<Rightarrow> (case rs of Inl err \<Rightarrow> Inl err | Inr es \<Rightarrow> Inr (e # es)), m2)))"

definition CheckBlockTrxs ::
  "mgr_env \<Rightarrow> db \<Rightarrow> signed_block \<Rightarrow> trx_mgr \<Rightarrow> ((string + trx_entry list) \<times> trx_mgr) res" where
  "CheckBlockTrxs env s b m =
     rbind (check_block_trxs env s (sb_Timestamp b) (map tw_SigTrx (sb_Transactions b)) m) (\<lambda>(r, m1).
     Inr (case r of
            Inl err \<Rightarrow> Inl err
          | Inr es \<Rightarrow> if distinct (map te_trxId es) then Inr es else Inl ''trxs duplicates'', m1))"

definition drop_delivered :: "mgr_env \<Rightarrow> trx_wrapper \<Rightarrow> trx_mgr \<Rightarrow> trx_mgr" where
  "drop_delivered env w m =
     (let k = me_TrxId env (tw_SigTrx w)
      in m\<lparr>tm_fetched := tbl_del k (tm_fetched m), tm_waiting := tbl_del k (tm_waiting m)\<rparr>)"

definition mgr_BlockApplied ::
  "mgr_env \<Rightarrow> bool \<Rightarrow> signed_block \<Rightarrow> trx_mgr \<Rightarrow> db \<Rightarrow> (trx_mgr \<times> db) res" where
  "mgr_BlockApplied env due b m s =
     (let m1 = fold (drop_delivered env) (sb_Transactions b) (m\<lparr>tm_headTime := sb_Timestamp b\<rparr>);
          m2 = shrinkPoolMemories (cleanExpiredWaiting due m1) in
     rbind (history_BlockApplied b (tm_history m2) s) (\<lambda>(h, s1).
     Inr (m2\<lparr>tm_auth := auth_BlockApplied b (tm_auth m2),
             tm_tapos := tapos_BlockApplied s b (tm_tapos m2), tm_history := h\<rparr>, s1)))"

definition mgr_BlockCommitted :: "u64 \<Rightarrow> trx_mgr \<Rightarrow> trx_mgr" where
  "mgr_BlockCommitted blockNum m = m\<lparr>tm_auth := auth_BlockCommitted blockNum (tm_auth m)\<rparr>"

definition mgr_BlockReverted :: "u64 \<Rightarrow> trx_mgr \<Rightarrow> db \<Rightarrow> trx_mgr \<times> db" where
  "mgr_BlockReverted blockNum m s =
     (let (h, s1) = history_BlockReverted blockNum (tm_history m) s
      in (m\<lparr>tm_auth := auth_BlockReverted blockNum (tm_auth m),
            tm_tapos := tapos_BlockReverted s blockNum (tm_tapos m), tm_history := h\<rparr>, s1))"

end
