(* ===== verification/TrxPool.thy ===== *)
theory TrxPool
  imports Economist Sched TrxMgr
begin

text \<open>
  The controller of the chain state (\<open>app/trx_pool.go\<close>) and the shuffle of the block producers it
  calls (\<open>consensus/sabft.go\<close>): genesis, the application of one transaction, of a list of
  transactions and of a block, the updates of the dynamic properties around them, and the sharing
  of the ticket bonus. \<open>pool_env\<close> collects what is not modelled: the interpreter of contracts,
  encoding sizes, hashes and signatures, the order in which Go walks a map, the wall clock, and
  the latest block number of the block iceberg. The pool is the database and the transaction
  manager; a step returns the pool also when it panics. The consensus object's list of producers
  is the stored one, from which it is restored. \<open>log.Fatalf\<close> is a panic, and the apply hash check,
  off by default, is left out.
\<close>

section \<open>Genesis\<close>

definition genesis_account :: "pubkey \<Rightarrow> account" where
  "genesis_account key =
     (new_account COSInitMiner '''' 0 0 key)\<lparr>acc_Balance := COSInitSupply\<rparr>"

definition genesis_producer :: "pubkey \<Rightarrow> block_producer" where
  "genesis_producer key =
     \<lparr>bp_Owner = COSInitMiner, bp_CreatedTime = 0, bp_Url = '''',
      bp_BpVest = \<lparr>bv_Active = True, bv_VoteVest = 0\<rparr>, bp_SigningKey = key,
      bp_ProposedStaminaFree = DefaultStaminaFree, bp_TpsExpected = DefaultTPSExpected,
      bp_AccountCreateFee = DefaultAccountCreateFee, bp_TopNAcquireFreeToken = InitTopN,
      bp_EpochDuration = InitEpochDuration, bp_PerTicketPrice = PerTicketPrice * COSTokenDecimals,
      bp_PerTicketWeight = PerTicketWeight, bp_VoterCount = 0, bp_GenBlockCount = 0\<rparr>"

definition genesis_props :: dynamic_properties where
  "genesis_props =
     \<lparr>dp_HeadBlockId = zero_id, dp_HeadBlockNumber = 0, dp_TotalCos = COSInitSupply,
      dp_Time = GenesisTime, dp_CurrentBlockProducer = COSInitMiner, dp_Tps = 0,
      dp_TotalVest = 0, dp_TotalTrxCnt = 0, dp_TotalPostCnt = 0, dp_TotalUserCnt = 1,
      dp_MaxTps = 0, dp_MaxTpsBlockNum = 0, dp_IthYear = 1, dp_AnnualBudget = 0,
      dp_AnnualMinted = 0, dp_PoolPostRewards = 0, dp_PoolReplyRewards = 0,
      dp_PoolVoteRewards = 0, dp_PoolDappRewards = 0, dp_WeightedVpsPost = InitPostWeightedVps,
      dp_WeightedVpsReply = InitReplyWeightedVps, dp_WeightedVpsVote = InitVoteWeightedVps,
      dp_WeightedVpsDapp = InitDappWeightedVps, dp_ClaimedPostRewards = 0,
      dp_ClaimedReplyRewards = 0, dp_ClaimedVoteRewards = 0, dp_ClaimedDappRewards = 0,
      dp_StakeVest = 0, dp_BlockProducerBootCompleted = False,
      dp_StaminaFree = DefaultStaminaFree, dp_TpsExpected = DefaultTPSExpected,
      dp_AvgTpsUpdateBlock = 0, dp_AvgTpsInWindow = 0, dp_OneDayStamina = OneDayStamina,
      dp_AccountCreateFee = DefaultAccountCreateFee, dp_ReputationAdmin = None,
      dp_CurrentEpochStartBlock = 0, dp_EpochDuration = InitEpochDuration,
      dp_TopNAcquireFreeToken = InitTopN, dp_PerTicketPrice = PerTicketPrice * COSTokenDecimals,
      dp_PerTicketWeight = PerTicketWeight, dp_TicketsIncome = 0, dp_ChargedTicketsNum = 0,
      dp_CopyrightAdmin = None, dp_TicketsBpBonus = 0\<rparr>"

definition genesis_summary :: "(u32, hash) tbl" where
  "genesis_summary = map (\<lambda>i. (of_nat i, zero_id)) [0..<2048]"

definition initGenesis :: "pubkey \<Rightarrow> db" where
  "initGenesis key =
     \<lparr>db_accounts = [(COSInitMiner, genesis_account key)],
      db_producers = [(COSInitMiner, genesis_producer key)],
      db_bpVotes = [], db_posts = [], db_votes = [], db_voteCashouts = [], db_stakes = [],
      db_tickets = [], db_delegations = [], db_contracts = [],
      db_schedule = \<lparr>bs_CurrentShuffledBlockProducer = [COSInitMiner], bs_PubKey = [key],
                     bs_Seq = 0\<rparr>,
      db_blockSummary = genesis_summary,
      db_blocktrxs = [], db_incId = 0, db_props = genesis_props\<rparr>"

section \<open>Applying transactions\<close>

record pool_env =
  pe_vm :: vm_env
  pe_mgr :: mgr_env
  pe_LatestBlock :: u64
  pe_cleanDue :: bool
  pe_sched_order :: "(nat \<times> props) list \<Rightarrow> (nat \<times> props) list"
  pe_HeaderHash :: "signed_block \<Rightarrow> hash"
  pe_MerkleDigest :: "signed_transaction \<Rightarrow> hash"
  pe_PairHash :: "hash \<Rightarrow> hash \<Rightarrow> hash"
  pe_BlockSize :: "signed_block \<Rightarrow> u32"
  pe_TrxSize :: "signed_transaction \<Rightarrow> u64"
  pe_ValidateSig :: "signed_block \<Rightarrow> pubkey \<Rightarrow> bool"

definition HardFork :: "pool_env \<Rightarrow> u64" where
  "HardFork env = GetHardFork (pe_LatestBlock env)"

fun apply_ops :: "vm_env \<Rightarrow> u64 \<Rightarrow> operation list \<Rightarrow> trx_context \<Rightarrow> unit outcome" where
  "apply_ops env hf [] c = (c, Inr ())"
| "apply_ops env hf (op # ops) c = obind (applyOperation env hf op c) (\<lambda>_. apply_ops env hf ops)"

definition trx_body :: "pool_env \<Rightarrow> trx_entry \<Rightarrow> db \<Rightarrow> unit outcome" where
  "trx_body env entry s =
     (let sigTrx = te_SigTrx entry in
      obind (CheckNet (pe_TrxSize env sigTrx) (GetOpCreatorsMap (sg_Trx sigTrx))
               (NewTrxContext s (te_signer entry))) (\<lambda>_.
      apply_ops (pe_vm env) (HardFork env) (tx_Operations (sg_Trx sigTrx))))"

text \<open>
  The transaction runs on a patch of the database. When it panics after some stamina was recorded
  the patch is dropped and only the stamina is paid; when it panics before that, or the payment
  panics, the panic goes on to the caller (no database). The receipt is written in every case.
\<close>

definition applyTransactionOnDb :: "pool_env \<Rightarrow> trx_entry \<Rightarrow> db \<Rightarrow> receipt \<times> db option" where
  "applyTransactionOnDb env entry s =
     (let (c, r) = trx_body env entry s;
          pay = (\<lambda>base status.
            let receipt = (te_Receipt entry)\<lparr>rc_Status := status\<rparr> in
            case PayGas base c of
              Inl _ \<Rightarrow> (receipt, None)
            | Inr (s', c') \<Rightarrow>
                (receipt\<lparr>rc_NetUsage := GetNetUse c', rc_CpuUsage := GetCpuUse c'\<rparr>, Some s')) in
      case r of
        Inr _ \<Rightarrow> pay (tc_db c) StatusSuccess
      | Inl _ \<Rightarrow> if HasGasFee c then pay s StatusFailDeductStamina
                 else ((te_Receipt entry)\<lparr>rc_Status := StatusError\<rparr>, None))"

definition applySingle :: "pool_env \<Rightarrow> nat \<Rightarrow> trx_entry list \<times> db \<Rightarrow> trx_entry list \<times> db" where
  "applySingle env i = (\<lambda>(es, s).
     let (r, s') = applyTransactionOnDb env (es ! i) s
     in (es[i := (es ! i)\<lparr>te_Receipt := r\<rparr>], case s' of None \<Rightarrow> s | Some s1 \<Rightarrow> s1))"

definition applyGroup :: "pool_env \<Rightarrow> nat list \<Rightarrow> trx_entry list \<times> db \<Rightarrow> trx_entry list \<times> db" where
  "applyGroup env trxGroup = fold (applySingle env) trxGroup"

text \<open>
  The groups of a batch run concurrently, each on a patch of its own; here they run one after the
  other, which is one of the interleavings. Groups share no affected property.
\<close>

definition MultiTrxs_Apply :: "pool_env \<Rightarrow> trx_entry list \<Rightarrow> db \<Rightarrow> trx_entry list \<times> db" where
  "MultiTrxs_Apply env es s =
     fold (applyGroup env)
       (ScheduleTrxs (pe_sched_order env) (\<lambda>i. sg_Trx (te_SigTrx (es ! i))) [0..<length es]) (es, s)"

section \<open>Updating the dynamic properties\<close>

definition updateAvgTps :: "pool_env \<Rightarrow> signed_block \<Rightarrow> db \<Rightarrow> db res" where
  "updateAvgTps env blk s =
     (let props = db_props s;
          blockNum = BlockNum (Block_Id (pe_HeaderHash env) blk);
          (newOneDayStamina, tpsInWindowNew) =
            UpdateDynamicStamina (dp_AvgTpsInWindow props) (dp_OneDayStamina props)
              (of_nat (length (sb_Transactions blk))) (dp_AvgTpsUpdateBlock props) blockNum
              (dp_TpsExpected props) in
      ModifyProps (\<lambda>props. Inr (props\<lparr>dp_OneDayStamina := newOneDayStamina,
        dp_AvgTpsInWindow := tpsInWindowNew, dp_AvgTpsUpdateBlock := blockNum\<rparr>)) s)"

definition updateGlobalBpBootMark :: "db \<Rightarrow> db res" where
  "updateGlobalBpBootMark s =
     (if dp_BlockProducerBootCompleted (db_props s) then Inr s
      else if bs_CurrentShuffledBlockProducer (db_schedule s) = [COSInitMiner] then Inr s
      else
     rbind (ModifyProps (\<lambda>dgpo. Inr (dgpo\<lparr>dp_BlockProducerBootCompleted := True,
              dp_CurrentEpochStartBlock :=
                (if dp_CurrentEpochStartBlock dgpo = 0 then 1
                 else dp_CurrentEpochStartBlock dgpo)\<rparr>)) s) (\<lambda>s1.
     case tbl_get (db_producers s1) COSInitMiner of
       None \<Rightarrow> Inr s1
     | Some bp \<Rightarrow>
         producer_Modify COSInitMiner (set_BpVest False (bv_VoteVest (bp_BpVest bp))) s1))"

text \<open>The middle element of the proposals in ascending order.\<close>

definition median :: "u64 list \<Rightarrow> u64" where
  "median xs = sort xs ! (length xs div 2)"

fun get_producers :: "db \<Rightarrow> name list \<Rightarrow> block_producer list res" where
  "get_producers s [] = Inr []"
| "get_producers s (n # ns) =
     rbind (MustExist (db_producers s) n (''bp '' @ n @ '' doesn't exist'')) (\<lambda>_.
     rbind (producer_Get n s) (\<lambda>bp.
     rbind (get_producers s ns) (\<lambda>bps. Inr (bp # bps))))"

definition updateGlobalResourceParam :: "name list \<Rightarrow> db \<Rightarrow> db res" where
  "updateGlobalResourceParam bpNameList s =
     rbind (get_producers s bpNameList) (\<lambda>bps.
     ModifyProps (\<lambda>dgpo. Inr (dgpo\<lparr>
       dp_StaminaFree := median (map bp_ProposedStaminaFree bps),
       dp_TpsExpected := median (map bp_TpsExpected bps),
       dp_AccountCreateFee := median (map bp_AccountCreateFee bps),
       dp_EpochDuration := median (map bp_EpochDuration bps),
       dp_TopNAcquireFreeToken := ucast (median (map (\<lambda>b. ucast (bp_TopNAcquireFreeToken b)) bps)),
       dp_PerTicketPrice := median (map bp_PerTicketPrice bps),
       dp_PerTicketWeight := median (map bp_PerTicketWeight bps)\<rparr>)) s)"

definition updateGlobalProperties :: "pool_env \<Rightarrow> signed_block \<Rightarrow> db \<Rightarrow> db res" where
  "updateGlobalProperties env blk s =
     (let bid = Block_Id (pe_HeaderHash env) blk;
          trxCount = length (sb_Transactions blk);
          tps = of_nat (trxCount div unat BlockInterval) :: u32 in
      ModifyProps (\<lambda>dgpo.
        let d1 = dgpo\<lparr>dp_HeadBlockNumber := BlockNum bid, dp_HeadBlockId := bid,
                      dp_Time := sb_Timestamp blk,
                      dp_CurrentBlockProducer := sb_BlockProducer blk,
                      dp_TotalTrxCnt := dp_TotalTrxCnt dgpo + of_nat trxCount,
                      dp_Tps := tps\<rparr> in
        Inr (if dp_MaxTps d1 < tps
             then d1\<lparr>dp_MaxTps := tps, dp_MaxTpsBlockNum := BlockNum bid\<rparr> else d1)) s)"

definition createBlockSummary :: "pool_env \<Rightarrow> signed_block \<Rightarrow> db \<Rightarrow> db res" where
  "createBlockSummary env blk s =
     (let bid = Block_Id (pe_HeaderHash env) blk;
          suffix = ucast (BlockNum bid mod 2048) :: u32 in
     rbind (MustExist (db_blockSummary s) suffix ''can not get block summary object'') (\<lambda>_.
     rbind (tbl_Modify suffix (\<lambda>_. Inr bid) (db_blockSummary s)) (\<lambda>t.
     Inr (s\<lparr>db_blockSummary := t\<rparr>))))"

section \<open>The shuffle of the block producers\<close>

text \<open>
  The walk over the producers by vote, most voted first, restricted to active ones, ends when one
  more than \<open>n\<close> have been seen; the initial producer is left out as soon as there is another.
\<close>

definition bp_vest_key :: "block_producer \<Rightarrow> bool \<times> vest" where
  "bp_vest_key b = (bv_Active (bp_BpVest b), bv_VoteVest (bp_BpVest b))"

fun walk_active :: "db \<Rightarrow> u32 \<Rightarrow> u32 \<Rightarrow> name list \<Rightarrow> name list" where
  "walk_active s n bpCount [] = []"
| "walk_active s n bpCount (m # ms) =
     (let active = (case tbl_get (db_producers s) m of
                      None \<Rightarrow> False | Some b \<Rightarrow> bv_Active (bp_BpVest b));
          bpCount' = (if active then bpCount + 1 else bpCount);
          rest = (if bpCount' < n + 1 then walk_active s n bpCount' ms else [])
      in if active then m # rest else rest)"

fun pick_names :: "u32 \<Rightarrow> nat \<Rightarrow> u32 \<Rightarrow> name list \<Rightarrow> name list" where
  "pick_names n total_names cnt [] = []"
| "pick_names n total_names cnt (m # ms) =
     (if m = COSInitMiner \<and> total_names > 1 then pick_names n total_names cnt ms
      else if cnt + 1 = n then [m] else m # pick_names n total_names (cnt + 1) ms)"

definition GetBlockProducerTopN :: "u32 \<Rightarrow> db \<Rightarrow> (name \<times> pubkey) list res" where
  "GetBlockProducerTopN n s =
     (let names = walk_active s n 0
                    (ForEachByRevOrder bp_vest_key (Some (True, MaxUint64)) (Some (True, 0))
                       (db_producers s));
          bpNames = pick_names n (length names) 0 names in
     rbind (get_producers s bpNames) (\<lambda>bps. Inr (zip bpNames (map bp_SigningKey bps))))"

definition shuffle_key :: "u64 \<Rightarrow> nat \<Rightarrow> u64" where
  "shuffle_key seed i =
     (let k0 = seed + of_nat i * 2695921657736338717;
          k1 = xor k0 (drop_bit 12 k0);
          k2 = xor k1 (push_bit 25 k1);
          k3 = xor k2 (drop_bit 27 k2)
      in k3 * 2695921657736338717)"

definition swap :: "nat \<Rightarrow> nat \<Rightarrow> 'a list \<Rightarrow> 'a list" where
  "swap i j xs = xs[i := xs ! j, j := xs ! i]"

fun shuffle_list :: "u64 \<Rightarrow> nat \<Rightarrow> nat \<Rightarrow> 'a list \<Rightarrow> 'a list" where
  "shuffle_list seed i 0 xs = xs"
| "shuffle_list seed i (Suc n) xs =
     (let j = i + unat (shuffle_key seed i mod of_nat (length xs - i))
      in shuffle_list seed (i + 1) n (swap i j xs))"

definition updateProducers :: "u64 \<Rightarrow> (name \<times> pubkey) list \<Rightarrow> u64 \<Rightarrow> db \<Rightarrow> db" where
  "updateProducers seed prods seq s =
     (let p = shuffle_list seed 0 (length prods) prods
      in s\<lparr>db_schedule := \<lparr>bs_CurrentShuffledBlockProducer = map fst p, bs_PubKey = map snd p,
                           bs_Seq = seq\<rparr>\<rparr>)"

section \<open>Sharing the ticket bonus\<close>

text \<open>
  The panics of \<open>ShareTicketBonus\<close> are recovered inside it: what the loop has done so far stays.
\<close>

definition share_one :: "name \<times> vest \<Rightarrow> db \<Rightarrow> db \<times> bool" where
  "share_one = (\<lambda>(name, amount) s.
     if amount = 0 then (s, True)
     else
       (case rbind (MustExist (db_accounts s) name
                      (''block producer account '' @ name @ '' not found'')) (\<lambda>_.
             rbind (account_Get name s) (\<lambda>bp.
             rbind (vest_Add (acc_Vest bp) amount) (\<lambda>newVest.
             rbind (account_Modify name (\<lambda>t. Inr (t\<lparr>acc_Vest := newVest\<rparr>)) s) (\<lambda>s1.
             Inr (acc_Vest bp, newVest, s1))))) of
          Inl _ \<Rightarrow> (s, False)
        | Inr (oldVest, newVest, s1) \<Rightarrow>
            (case updateBpVoteValue name oldVest newVest s1 of
               Inl _ \<Rightarrow> (s1, False) | Inr s2 \<Rightarrow> (s2, True))))"

fun share_all :: "(name \<times> vest) list \<Rightarrow> db \<Rightarrow> db" where
  "share_all [] s = s"
| "share_all (x # xs) s = (case share_one x s of (s', ok) \<Rightarrow> if ok then share_all xs s' else s')"

definition bonus_shares :: "vest \<Rightarrow> name list \<Rightarrow> (name \<times> vest) list" where
  "bonus_shares bonus bpNames =
     (let share = bonus div of_nat (length bpNames);
          firstShare = bonus - share * of_nat (length bpNames - 1)
      in map (\<lambda>(i, name). (name, if i = 0 then firstShare else share))
           (zip [0..<length bpNames] bpNames))"

definition ShareTicketBonus :: "db \<Rightarrow> db" where
  "ShareTicketBonus s =
     (let bonus = dp_TicketsBpBonus (db_props s);
          bpNames = bs_CurrentShuffledBlockProducer (db_schedule s) in
      if bonus = 0 then s
      else if length bpNames = 0 then s
      else share_all (bonus_shares bonus bpNames)
             (s\<lparr>db_props := (db_props s)\<lparr>dp_TicketsBpBonus := 0\<rparr>\<rparr>))"

definition BlockProdRepetition :: u64 where "BlockProdRepetition = 5"
definition MaxBlockProducerCount :: u32 where "MaxBlockProducerCount = 21"

definition shuffle :: "pool_env \<Rightarrow> signed_block \<Rightarrow> db \<Rightarrow> (name list option \<times> db) res" where
  "shuffle env head s =
     (let blockNum = BlockNum (Block_Id (pe_HeaderHash env) head);
          producers = bs_CurrentShuffledBlockProducer (db_schedule s) in
      if blockNum mod BlockProdRepetition \<noteq> 0 then Inr (None, s)
      else
     rbind (opAssert (length producers \<noteq> 0) ''integer divide by zero'') (\<lambda>_.
     if blockNum div BlockProdRepetition mod of_nat (length producers) \<noteq> 0 then Inr (None, s)
     else
       (let s1 = ShareTicketBonus s in
       rbind (GetBlockProducerTopN MaxBlockProducerCount s1) (\<lambda>prods.
       let seed = push_bit 32 (ucast (sb_Timestamp head) :: u64);
           s2 = updateProducers seed prods blockNum s1
       in Inr (Some (bs_CurrentShuffledBlockProducer (db_schedule s2)), s2)))))"

section \<open>Applying a block\<close>

definition validateBlockHeader :: "pool_env \<Rightarrow> signed_block \<Rightarrow> db \<Rightarrow> unit res" where
  "validateBlockHeader env blk s =
     rbind (opAssert (dp_HeadBlockId (db_props s) = sb_Previous blk) ''hash not equal'') (\<lambda>_.
     rbind (opAssert (dp_Time (db_props s) < sb_Timestamp blk) ''block time is invalid'') (\<lambda>_.
     rbind (producer_Get (sb_BlockProducer blk) s) (\<lambda>bp.
     opAssert (pe_ValidateSig env blk (bp_SigningKey bp)) ''ValidateSig error'')))"

definition MaxBlockSize :: u32 where "MaxBlockSize = 1024 * 1024 * 2"

definition block_check :: "pool_env \<Rightarrow> signed_block \<Rightarrow> db \<Rightarrow> unit res" where
  "block_check env blk s =
     rbind (opAssert (CalculateMerkleRoot (pe_MerkleDigest env) (pe_PairHash env) blk =
                        sb_TransactionMerkleRoot blk) ''Merkle check failed'') (\<lambda>_.
     rbind (validateBlockHeader env blk s) (\<lambda>_.
     opAssert (pe_BlockSize env blk \<le> MaxBlockSize + MaxBlockSize) ''Block size is too big''))"

definition invoice_ok :: "receipt list \<Rightarrow> trx_entry list \<Rightarrow> bool" where
  "invoice_ok expect entries =
     list_all2 (\<lambda>e a. rc_Status (te_Receipt a) = rc_Status e \<and>
                        rc_NetUsage (te_Receipt a) = rc_NetUsage e \<and>
                        rc_CpuUsage (te_Receipt a) = rc_CpuUsage e) expect entries"

definition batchCount :: nat where "batchCount = 64"

fun apply_batches :: "pool_env \<Rightarrow> receipt list \<Rightarrow> trx_entry list \<Rightarrow> db \<Rightarrow> db res" where
  "apply_batches env expect [] s = Inr s"
| "apply_batches env expect (e # es) s =
     (let (done_entries, s1) = MultiTrxs_Apply env (e # take (batchCount - 1) es) s in
      rbind (opAssert (invoice_ok (take batchCount expect) done_entries) ''mismatched invoice'') (\<lambda>_.
      apply_batches env (drop batchCount expect) (drop (batchCount - 1) es) s1))"

text \<open>What follows the transactions of a block, also in \<open>generateBlockNoLock\<close>.\<close>

definition update_after_trxs :: "pool_env \<Rightarrow> signed_block \<Rightarrow> db \<Rightarrow> db res" where
  "update_after_trxs env blk s =
     rbind (updateGlobalProperties env blk s) (\<lambda>s1.
     rbind (shuffle env blk s1) (\<lambda>(bpNames, s2).
     rbind (case bpNames of
              None \<Rightarrow> Inr s2
            | Some names \<Rightarrow> if length names > 0 then updateGlobalResourceParam names s2 else Inr s2)
       (updateAvgTps env blk)))"

record pool =
  pl_db :: db
  pl_tm :: trx_mgr

type_synonym 'a pool_outcome = "pool \<times> 'a res"

definition pbind :: "'a pool_outcome \<Rightarrow> ('a \<Rightarrow> pool \<Rightarrow> 'b pool_outcome) \<Rightarrow> 'b pool_outcome" where
  "pbind m f = (case m of (c, Inl e) \<Rightarrow> (c, Inl e) | (c, Inr a) \<Rightarrow> f a c)"

definition pool_db :: "(db \<Rightarrow> db res) \<Rightarrow> pool \<Rightarrow> unit pool_outcome" where
  "pool_db f c = (case f (pl_db c) of Inl e \<Rightarrow> (c, Inl e) | Inr s \<Rightarrow> (c\<lparr>pl_db := s\<rparr>, Inr ()))"

definition pool_check :: "pool_env \<Rightarrow> signed_block \<Rightarrow> pool \<Rightarrow> trx_entry list pool_outcome" where
  "pool_check env blk c =
     (case CheckBlockTrxs (pe_mgr env) (pl_db c) blk (pl_tm c) of
        Inl e \<Rightarrow> (c, Inl e)
      | Inr (Inl err, m) \<Rightarrow> (c\<lparr>pl_tm := m\<rparr>, Inl (Assert (''block trxs check failed : '' @ err)))
      | Inr (Inr es, m) \<Rightarrow> (c\<lparr>pl_tm := m\<rparr>, Inr es))"

definition pool_BlockApplied :: "pool_env \<Rightarrow> signed_block \<Rightarrow> pool \<Rightarrow> unit pool_outcome" where
  "pool_BlockApplied env blk c =
     (case mgr_BlockApplied (pe_mgr env) (pe_cleanDue env) blk (pl_tm c) (pl_db c) of
        Inl e \<Rightarrow> (c, Inl e) | Inr (m, s) \<Rightarrow> (\<lparr>pl_db = s, pl_tm = m\<rparr>, Inr ()))"

text \<open>The economist's five steps, in the order of \<open>applyBlock\<close>.\<close>

definition economist_steps :: "db \<Rightarrow> db res" where
  "economist_steps s =
     rbind (Mint s) (\<lambda>s1. rbind (Distribute s1) (\<lambda>s2. rbind (Do s2) (\<lambda>s3.
     rbind (PowerDown s3) (\<lambda>s4. DeliverDelegatedVests s4))))"

definition applyBlock :: "pool_env \<Rightarrow> bool \<Rightarrow> bool \<Rightarrow> signed_block \<Rightarrow> pool \<Rightarrow> unit pool_outcome" where
  "applyBlock env skip_check skip_trxs blk c =
     pbind (if skip_check then (c, Inr ()) else (c, block_check env blk (pl_db c))) (\<lambda>_ c.
     pbind (if skip_trxs then (c, Inr ())
            else pbind (pool_check env blk c) (\<lambda>es.
              pool_db (\<lambda>s. rbind (apply_batches env (map tw_Receipt (sb_Transactions blk)) es s)
                             (update_after_trxs env blk)))) (\<lambda>_ c.
     pbind (pool_db (createBlockSummary env blk) c) (\<lambda>_ c.
     pbind (pool_BlockApplied env blk c) (\<lambda>_ c.
     pbind (pool_db economist_steps c) (\<lambda>_.
     pool_db updateGlobalBpBootMark)))))"

text \<open>
  \<open>PushBlock\<close> of a received block: a panic gives the database of before the block back, but not
  the state of the transaction manager.
\<close>

definition pushBlock :: "pool_env \<Rightarrow> bool \<Rightarrow> signed_block \<Rightarrow> pool \<Rightarrow> pool \<times> panic option" where
  "pushBlock env skip_check blk c =
     (case applyBlock env skip_check False blk c of
        (c', Inl e) \<Rightarrow> (c'\<lparr>pl_db := pl_db c\<rparr>, Some e)
      | (c', Inr _) \<Rightarrow> (c', None))"

end
