(* ===== verification/Kope.thy ===== *)
theory Kope
  imports ChainState
begin

text \<open>
  The order-preserving key encoding (\<open>common/encoding/kope\<close>) on which every ordered walk over a
  table rests. A value is written as a byte string so that comparing the strings byte by byte
  compares the values; the elements of a list are joined by separators that sort below every
  continuation of an element. The theory shows that the order of encodings is the order of the
  values (for values of the same shape), that a packed list is read back, and that the byte ranges
  the generated tables walk are the ranges of the column that \<^const>\<open>ForEachByOrder\<close> and
  \<^const>\<open>ForEachByRevOrder\<close> describe. Go's \<open>int\<close> and \<open>uint\<close> have 64 bits here; the values the
  encoder refuses (maps, structs, nil interfaces) are \<open>KOther\<close>. A named type with an \<open>OpeEncode\<close>
  method is the value it encodes.
\<close>

section \<open>Bytes of the encoding\<close>

definition typeMin :: u8 where "typeMin = 1"
definition typeNormal :: u8 where "typeNormal = 2"
definition typeMax :: u8 where "typeMax = not typeMin"

definition extListBegin :: u8 where "extListBegin = 0x01"
definition extListEnd :: u8 where "extListEnd = 0x02"
definition extSeparator :: u8 where "extSeparator = 0x80"
definition extZero :: u8 where "extZero = 0xff"

definition separator :: bytes where "separator = [0, extSeparator]"
definition listBegin :: bytes where "listBegin = [0, extListBegin]"
definition listEnd :: bytes where "listEnd = [0, extListEnd]"

lemmas kope_marks = typeMin_def typeNormal_def typeMax_def extListBegin_def extListEnd_def
  extSeparator_def extZero_def separator_def listBegin_def listEnd_def

text \<open>The loop of \<open>packString\<close>: a zero byte is followed by \<open>extZero\<close>.\<close>

fun escape :: "bytes \<Rightarrow> bytes" where
  "escape [] = []"
| "escape (b # s) = (if b = 0 then b # extZero # escape s else b # escape s)"

definition packString :: "bytes \<Rightarrow> bytes" where
  "packString s = typeNormal # escape s"

text \<open>\<open>bytes.Join\<close>.\<close>

fun bytes_Join :: "bytes list \<Rightarrow> bytes \<Rightarrow> bytes" where
  "bytes_Join [] sep = []"
| "bytes_Join [e] sep = e"
| "bytes_Join (e # f # es) sep = e @ sep @ bytes_Join (f # es) sep"

definition packList :: "bytes list \<Rightarrow> bytes" where
  "packList e = typeNormal # listBegin @ bytes_Join e separator @ listEnd"

text \<open>
  The loop of \<open>unpackList\<close>: the bytes still to read, their position, the last byte, the nesting
  depth, where the element at depth one began, and the elements found. A slice with a start that
  was never set would panic.
\<close>

definition slice :: "bytes \<Rightarrow> nat option \<Rightarrow> nat \<Rightarrow> bytes res" where
  "slice d begin_at stop =
     (case begin_at of
        None \<Rightarrow> Inl (Assert ''slice bounds out of range'')
      | Some b \<Rightarrow> if stop < b then Inl (Assert ''slice bounds out of range'')
                  else Inr (take (stop - b) (drop b d)))"

fun unpack_loop ::
  "bytes \<Rightarrow> bytes \<Rightarrow> nat \<Rightarrow> u8 option \<Rightarrow> int \<Rightarrow> nat option \<Rightarrow> bytes list \<Rightarrow> bytes list res" where
  "unpack_loop d [] p last_byte depth begin_at r = Inr r"
| "unpack_loop d (c # cs) p last_byte depth begin_at r =
     (if last_byte \<noteq> Some 0 then unpack_loop d cs (p + 1) (Some c) depth begin_at r
      else if c = extListBegin then
        unpack_loop d cs (p + 1) (Some c) (depth + 1)
          (if depth + 1 = 1 then Some (p + 1) else begin_at) r
      else if c = extListEnd then
        (if depth - 1 = 0
         then rbind (slice d begin_at (p - 1)) (\<lambda>e.
              unpack_loop d cs (p + 1) (Some c) (depth - 1) None (r @ [e]))
         else unpack_loop d cs (p + 1) (Some c) (depth - 1) begin_at r)
      else if c = extSeparator \<and> depth = 1 then
        rbind (slice d begin_at (p - 1)) (\<lambda>e.
        unpack_loop d cs (p + 1) (Some c) depth (Some (p + 1)) (r @ [e]))
      else unpack_loop d cs (p + 1) (Some c) depth begin_at r)"

definition unpackList :: "bytes \<Rightarrow> bytes list res" where
  "unpackList d =
     (if length d \<ge> 5 \<and> d ! 0 = typeNormal \<and> take 2 (drop 1 d) = listBegin \<and>
         drop (length d - 2) d = listEnd
      then unpack_loop d d 0 None 0 None [] else Inr [])"

fun unpack_all :: "bytes list \<Rightarrow> bytes list res" where
  "unpack_all [] = Inr []"
| "unpack_all (lst # ls) = rbind (unpackList lst) (\<lambda>e. rbind (unpack_all ls) (\<lambda>es. Inr (e @ es)))"

definition catLists :: "bytes list \<Rightarrow> bytes res" where
  "catLists keys = rbind (unpack_all keys) (\<lambda>e. Inr (packList e))"

section \<open>Encoding values\<close>

text \<open>\<open>binary.Write\<close> with \<open>binary.BigEndian\<close>: the \<open>n\<close> bytes of a number, highest first.\<close>

fun be_bytes :: "nat \<Rightarrow> nat \<Rightarrow> bytes" where
  "be_bytes 0 x = []"
| "be_bytes (Suc n) x = of_nat (x div 256 ^ n) # be_bytes n (x mod 256 ^ n)"

definition bigEndianBytes :: "'a :: len word \<Rightarrow> bytes" where
  "bigEndianBytes w = be_bytes (LENGTH('a) div 8) (unat w)"

definition flip_sign :: "bytes \<Rightarrow> bytes" where
  "flip_sign data = (case data of [] \<Rightarrow> [] | b # bs \<Rightarrow> xor b 0x80 # bs)"

definition encodeSignedInteger :: "'a :: len word \<Rightarrow> bytes" where
  "encodeSignedInteger value = packString (flip_sign (bigEndianBytes value))"

definition encodeUnsignedInteger :: "'a :: len word \<Rightarrow> bytes" where
  "encodeUnsignedInteger value = packString (bigEndianBytes value)"

text \<open>The argument is the bit pattern of the number; both zeros are written as the positive one.\<close>

definition encodeFloat :: "'a :: len word \<Rightarrow> bytes" where
  "encodeFloat value =
     (let data = bigEndianBytes value;
          zero = list_all (\<lambda>b. b = 0) (tl data) \<and> and (hd data) 0x7f = 0;
          data1 = (if zero then 0 # tl data else data) in
      packString (if and (hd data1) 0x80 \<noteq> 0 then map not data1 else flip_sign data1))"

definition encodeMinMaxKey :: "bool \<Rightarrow> bytes" where
  "encodeMinMaxKey min_key = [if min_key then typeMin else typeMax]"

datatype kval =
    KBool bool
  | KInt8 "8 word" | KInt16 "16 word" | KInt32 "32 word" | KInt64 "64 word"
  | KUint8 "8 word" | KUint16 "16 word" | KUint32 "32 word" | KUint64 "64 word"
  | KFloat32 "32 word" | KFloat64 "64 word"
  | KBytes bytes
  | KSlice "kval list"
  | KNil | KMinimalKey | KMaximumKey | KOther

fun EncodeValue :: "kval \<Rightarrow> bytes option" and EncodeElements :: "kval list \<Rightarrow> bytes list option" where
  "EncodeValue (KBool b) = Some (encodeUnsignedInteger (if b then 1 else 0 :: u8))"
| "EncodeValue (KInt8 w) = Some (encodeSignedInteger w)"
| "EncodeValue (KInt16 w) = Some (encodeSignedInteger w)"
| "EncodeValue (KInt32 w) = Some (encodeSignedInteger w)"
| "EncodeValue (KInt64 w) = Some (encodeSignedInteger w)"
| "EncodeValue (KUint8 w) = Some (encodeUnsignedInteger w)"
| "EncodeValue (KUint16 w) = Some (encodeUnsignedInteger w)"
| "EncodeValue (KUint32 w) = Some (encodeUnsignedInteger w)"
| "EncodeValue (KUint64 w) = Some (encodeUnsignedInteger w)"
| "EncodeValue (KFloat32 w) = Some (encodeFloat w)"
| "EncodeValue (KFloat64 w) = Some (encodeFloat w)"
| "EncodeValue (KBytes s) = Some (packString s)"
| "EncodeValue (KSlice vs) = map_option packList (EncodeElements vs)"
| "EncodeValue KNil = Some [typeNormal]"
| "EncodeValue KMinimalKey = Some (encodeMinMaxKey True)"
| "EncodeValue KMaximumKey = Some (encodeMinMaxKey False)"
| "EncodeValue KOther = None"
| "EncodeElements [] = Some []"
| "EncodeElements (v # vs) =
     (case EncodeValue v of
        None \<Rightarrow> None
      | Some d \<Rightarrow> map_option ((#) d) (EncodeElements vs))"

definition EncodeSlice :: "kval list \<Rightarrow> bytes option" where
  "EncodeSlice vs = EncodeValue (KSlice vs)"

section \<open>Keys\<close>

definition NewKey :: "kval list \<Rightarrow> bytes" where
  "NewKey values = (case EncodeSlice values of Some data \<Rightarrow> data | None \<Rightarrow> [])"

definition ConcatKey :: "bytes list \<Rightarrow> bytes res" where
  "ConcatKey keys = (case keys of [] \<Rightarrow> Inr [] | [k] \<Rightarrow> Inr k | _ \<Rightarrow> catLists keys)"

definition AppendKey :: "bytes \<Rightarrow> kval list \<Rightarrow> bytes res" where
  "AppendKey prefix values =
     (if values = [] then Inr prefix else ConcatKey [prefix, NewKey values])"

definition MinKey :: "bytes \<Rightarrow> bytes res" where
  "MinKey prefix = AppendKey prefix [KMinimalKey]"

definition MaxKey :: "bytes \<Rightarrow> bytes res" where
  "MaxKey prefix = AppendKey prefix [KMaximumKey]"

definition IndexKey :: "bytes \<Rightarrow> bytes \<Rightarrow> kval list \<Rightarrow> bytes res" where
  "IndexKey prefix primaryKey idxValues =
     rbind (AppendKey prefix idxValues) (\<lambda>k. ConcatKey [k, packList [primaryKey]])"

definition IndexedPrimaryKey :: "bytes \<Rightarrow> bytes res" where
  "IndexedPrimaryKey indexKey =
     rbind (unpackList indexKey) (\<lambda>elems.
     if elems = [] then Inl (Assert ''index out of range'') else Inr (last elems))"

text \<open>
  \<open>IndexKeyRange\<close>: the values before the first \<open>ValueRange\<close> are handed to \<open>AppendKey\<close> as one
  slice, not spread, so they become a single list element.
\<close>

datatype key_arg = KeyVal kval | ValueRange "kval option" "kval option"

fun split_range :: "key_arg list \<Rightarrow> kval list \<times> kval option \<times> kval option" where
  "split_range [] = ([], None, None)"
| "split_range (KeyVal v # vs) = (let (pre, r) = split_range vs in (v # pre, r))"
| "split_range (ValueRange start limit # vs) = ([], start, limit)"

definition IndexKeyRange :: "bytes \<Rightarrow> key_arg list \<Rightarrow> (bytes \<times> bytes) res" where
  "IndexKeyRange prefix idxValues =
     (let (vals, start, limit) = split_range idxValues;
          startVal = (case start of None \<Rightarrow> KMinimalKey | Some v \<Rightarrow> v);
          limitVal = (case limit of None \<Rightarrow> KMaximumKey | Some v \<Rightarrow> v) in
      rbind (AppendKey prefix [KSlice vals]) (\<lambda>ik.
      rbind (AppendKey ik [startVal]) (\<lambda>s.
      rbind (AppendKey ik [limitVal]) (\<lambda>l. Inr (s, l)))))"

section \<open>The order of encoded strings\<close>

text \<open>
  What may follow an element inside a list, or nothing: such a continuation sorts below every
  continuation of the element itself.
\<close>

definition tail_ok :: "bytes \<Rightarrow> bool" where
  "tail_ok c = (c = [] \<or> (\<exists>t r. c = 0 # t # r \<and> t < extZero))"

lemma escape_append: "escape (s @ t) = escape s @ escape t"
  by (induction s) auto

lemma word_pos_iff: "(0 :: u8) < b \<longleftrightarrow> b \<noteq> 0"
  by (simp add: word_neq_0_conv)

lemma tail_less_escape:
  assumes "tail_ok c" and "t \<noteq> []"
  shows "c < escape t @ c'"
  using assms by (cases t) (auto simp: tail_ok_def word_pos_iff)

lemma list_less_append_same [simp]: "(xs @ ys < xs @ zs) \<longleftrightarrow> ys < (zs :: 'a :: linorder list)"
  by (induction xs) auto

lemma escape_order:
  assumes "s < t" and "tail_ok c"
  shows "escape s @ c < escape t @ c'"
  using assms(1)
proof (induction s arbitrary: t)
  case Nil
  then have "t \<noteq> []" by auto
  then show ?case using tail_less_escape [OF assms(2)] by simp
next
  case (Cons b s)
  then show ?case by (cases t) auto
qed

lemma packString_order:
  "s < t \<Longrightarrow> tail_ok c \<Longrightarrow> packString s @ c < packString t @ c'"
  using escape_order by (simp add: packString_def)

section \<open>The order of encoded numbers\<close>

lemma length_be_bytes [simp]: "length (be_bytes n x) = n"
  by (induction n arbitrary: x) auto

lemma be_bytes_order:
  assumes "x < y" and "y < 256 ^ n"
  shows "be_bytes n x < be_bytes n y"
  using assms
proof (induction n arbitrary: x y)
  case (Suc n)
  let ?p = "256 ^ n :: nat"
  have small: "v div ?p < 256" if "v < 256 ^ Suc n" for v
    using that by (simp add: less_mult_imp_div_less)
  have le: "x div ?p \<le> y div ?p" using Suc.prems(1) by (simp add: div_le_mono)
  have digits: "unat (of_nat (x div ?p) :: u8) = x div ?p" "unat (of_nat (y div ?p) :: u8) = y div ?p"
    using small [of x] small [of y] Suc.prems by (simp_all add: unat_of_nat)
  show ?case
  proof (cases "x div ?p = y div ?p")
    case True
    then have "x mod ?p < y mod ?p"
      using Suc.prems(1) by (metis div_mult_mod_eq nat_add_left_cancel_less)
    with True Suc.IH show ?thesis by simp
  next
    case False
    with le digits show ?thesis by (simp add: word_less_nat_alt)
  qed
qed simp

lemma be_bytes_mono_iff:
  "x < 256 ^ n \<Longrightarrow> y < 256 ^ n \<Longrightarrow> be_bytes n x < be_bytes n y \<longleftrightarrow> x < y"
  by (metis be_bytes_order less_asym linorder_neqE_nat order_less_irrefl)

text \<open>The bytes of a word whose width is a whole number of bytes.\<close>

lemma byte_all:
  assumes "\<forall>n \<in> set [0..<256]. P n (of_nat n :: u8)"
  shows "P (unat b) b"
proof -
  have "unat b \<in> set [0..<256]"
  proof -
    have "unat b < 2 ^ LENGTH(8)" by (rule unsigned_less)
    then show ?thesis by simp
  qed
  from assms [rule_format, OF this] show ?thesis by simp
qed

lemma xor_sign_byte: "xor (b :: u8) 0x80 = b + 0x80"
  by (rule byte_all [of "\<lambda>n b. xor b 0x80 = b + 0x80"]) code_simp

lemma and_sign_byte: "(and (b :: u8) 0x80 \<noteq> 0) = (128 \<le> unat b)"
  by (rule byte_all [of "\<lambda>n b. (and b 0x80 \<noteq> 0) = (128 \<le> n)"]) code_simp

lemma and_magnitude_byte: "(and (b :: u8) 0x7f = 0) = (unat b = 0 \<or> unat b = 128)"
  by (rule byte_all [of "\<lambda>n b. (and b 0x7f = 0) = (n = 0 \<or> n = 128)"]) code_simp

lemma not_byte: "n < 256 \<Longrightarrow> not (of_nat n :: u8) = of_nat (255 - n)"
proof -
  have "not b = of_nat (255 - unat b)" for b :: u8
    by (rule byte_all [of "\<lambda>n b. not b = of_nat (255 - n)"]) code_simp
  from this [of "of_nat n"] show "n < 256 \<Longrightarrow> ?thesis" by (simp add: unat_of_nat)
qed

lemma top_digit: "x < 256 ^ Suc n \<Longrightarrow> x div 256 ^ n < (256 :: nat)"
  by (simp add: less_mult_imp_div_less)

lemma flip_sign_be_bytes:
  assumes "x < 256 ^ Suc n"
  shows "flip_sign (be_bytes (Suc n) x) = be_bytes (Suc n) ((x + 128 * 256 ^ n) mod 256 ^ Suc n)"
proof -
  let ?p = "256 ^ n :: nat"
  let ?y = "(x + 128 * ?p) mod (256 * ?p)"
  have p: "?p > 0" by simp
  have y: "?y = ?p * ((x + 128 * ?p) div ?p mod 256) + (x + 128 * ?p) mod ?p"
    by (metis mod_mult2_eq mult.commute)
  have "?y div ?p = (x div ?p + 128) mod 256" by (subst y) (simp add: p add.commute)
  then have hi: "(of_nat (?y div ?p) :: u8) = of_nat (x div ?p) + 0x80"
    by (simp add: word_unat_eq_iff unat_of_nat unat_word_ariths mod_add_left_eq)
  have lo: "?y mod ?p = x mod ?p" by (subst y) (simp add: p)
  show ?thesis
    by (simp add: flip_sign_def xor_sign_byte hi lo del: mod_mult_self2)
qed

lemma not_be_bytes:
  "x < 256 ^ n \<Longrightarrow> map not (be_bytes n x) = be_bytes n (256 ^ n - 1 - x)"
proof (induction n arbitrary: x)
  case (Suc n)
  let ?p = "256 ^ n :: nat"
  have d: "x div ?p < 256" by (rule top_digit [OF Suc.prems])
  have m: "x mod ?p < ?p" by simp
  have "256 * ?p - 1 - x = (255 - x div ?p) * ?p + (?p - 1 - x mod ?p)"
  proof -
    have x: "x = x div ?p * ?p + x mod ?p" by (rule div_mult_mod_eq [symmetric])
    have "(255 - x div ?p) * ?p + x div ?p * ?p = 255 * ?p"
      using d by (simp flip: add_mult_distrib)
    then show ?thesis using x m by linarith
  qed
  moreover have "?p - 1 - x mod ?p < ?p" by simp
  ultimately have "(256 * ?p - 1 - x) div ?p = 255 - x div ?p"
    "(256 * ?p - 1 - x) mod ?p = ?p - 1 - x mod ?p" by simp_all
  with Suc.IH [OF m] d show ?case by (simp add: not_byte)
qed simp

lemma be_bytes_zero: "y < 256 ^ n \<Longrightarrow> list_all (\<lambda>b. b = 0) (be_bytes n y) \<longleftrightarrow> y = 0"
proof (induction n arbitrary: y)
  case (Suc n)
  have d: "y div 256 ^ n < 256" by (rule top_digit [OF Suc.prems])
  have "(of_nat (y div 256 ^ n) :: u8) = 0 \<longleftrightarrow> y div 256 ^ n = 0"
    using d by (simp add: word_unat_eq_iff unat_of_nat)
  with Suc.IH [of "y mod 256 ^ n"] show ?case
    by (auto simp del: div_eq_0_iff)
qed simp

text \<open>The number a float's bit pattern stands for in the order of floats: its magnitude, signed.\<close>

definition float_key :: "'a :: len word \<Rightarrow> int" where
  "float_key w =
     (let h = 2 ^ (LENGTH('a) - 1); m = int (unat w mod h) in
      if h \<le> unat w then - m else m)"

definition float_bias :: "int \<Rightarrow> int \<Rightarrow> int" where
  "float_bias h k = (if k < 0 then h - 1 + k else h + k)"

lemma float_bias_values:
  "nat (float_bias (int h) 0) = h"
  "h < x \<Longrightarrow> x < 2 * h \<Longrightarrow> nat (float_bias (int h) (- int (x - h))) = 2 * h - 1 - x"
  "x < h \<Longrightarrow> nat (float_bias (int h) (int x)) = (x + h) mod (2 * h)"
  by (auto simp: float_bias_def)

lemma power_bytes: "LENGTH('a :: len) = 8 * Suc n \<Longrightarrow> (2 :: nat) ^ LENGTH('a) = 256 ^ Suc n"
  by (simp only: power_mult) simp

lemma power_half: "LENGTH('a :: len) = 8 * Suc n \<Longrightarrow> (2 :: nat) ^ (LENGTH('a) - 1) = 128 * 256 ^ n"
proof -
  assume "LENGTH('a) = 8 * Suc n"
  then have "LENGTH('a) - 1 = 7 + 8 * n" by simp
  then have "(2 :: nat) ^ (LENGTH('a) - 1) = 2 ^ 7 * (2 ^ 8) ^ n"
    by (simp only: power_add power_mult)
  then show ?thesis by simp
qed

lemma unat_bytes: "LENGTH('a :: len) = 8 * Suc n \<Longrightarrow> unat (w :: 'a word) < 256 ^ Suc n"
  by (metis power_bytes unsigned_less)

lemma bigEndianBytes_eq:
  "LENGTH('a :: len) = 8 * Suc n \<Longrightarrow> bigEndianBytes (w :: 'a word) = be_bytes (Suc n) (unat w)"
  by (simp add: bigEndianBytes_def del: be_bytes.simps)

lemma sint_shift:
  fixes w :: "'a :: len word"
  shows "nat (sint w + 2 ^ (LENGTH('a) - 1)) = (unat w + 2 ^ (LENGTH('a) - 1)) mod 2 ^ LENGTH('a)"
proof -
  have "sint w + 2 ^ (LENGTH('a) - 1) = (uint w + 2 ^ (LENGTH('a) - 1)) mod 2 ^ LENGTH('a)"
    by (simp add: sint_uint signed_take_bit_eq_take_bit_shift take_bit_eq_mod)
  also have "\<dots> = int ((unat w + 2 ^ (LENGTH('a) - 1)) mod 2 ^ LENGTH('a))"
    by (simp add: zmod_int)
  finally show ?thesis by simp
qed

lemma signed_bytes:
  fixes w :: "'a :: len word"
  assumes "LENGTH('a) = 8 * Suc n"
  shows "flip_sign (bigEndianBytes w) = be_bytes (Suc n) (nat (sint w + 2 ^ (LENGTH('a) - 1)))"
  using flip_sign_be_bytes [OF unat_bytes [OF assms, of w]]
  by (simp only: bigEndianBytes_eq [OF assms] sint_shift power_half [OF assms] power_bytes [OF assms])

lemma float_bytes:
  fixes w :: "'a :: len word"
  assumes "LENGTH('a) = 8 * Suc n"
  shows "encodeFloat w = packString (be_bytes (Suc n)
           (nat (float_bias (2 ^ (LENGTH('a) - 1)) (float_key w))))"
proof -
  let ?p = "256 ^ n :: nat"
  define x where "x = unat w"
  have x: "x < 256 * ?p" using unat_bytes [OF assms, of w] by (simp add: x_def)
  have d: "x div ?p < 256" by (rule top_digit) (simp add: x)
  have x_eq: "x = x div ?p * ?p + x mod ?p" by (rule div_mult_mod_eq [symmetric])
  have half: "(2 :: nat) ^ (LENGTH('a) - 1) = 128 * ?p" by (rule power_half [OF assms])
  then have half_int: "(2 :: int) ^ (LENGTH('a) - 1) = int (128 * ?p)"
    by (metis of_nat_numeral of_nat_power)
  have hd_eq: "unat (of_nat (x div ?p) :: u8) = x div ?p" using d by (simp add: unat_of_nat)
  have sign: "128 \<le> x div ?p \<longleftrightarrow> 128 * ?p \<le> x"
    by (simp add: less_eq_div_iff_mult_less_eq mult.commute)
  have key: "float_key w = (if 128 * ?p \<le> x then - int (x mod (128 * ?p)) else int (x mod (128 * ?p)))"
    by (simp only: float_key_def half x_def Let_def)
  show ?thesis
  proof (cases "x = 0 \<or> x = 128 * ?p")
    case True
    have "encodeFloat w = packString (flip_sign (be_bytes (Suc n) 0))"
      using True by (auto simp: encodeFloat_def bigEndianBytes_eq [OF assms] Let_def be_bytes_zero
          and_magnitude_byte simp flip: x_def)
    moreover have "flip_sign (be_bytes (Suc n) 0) = be_bytes (Suc n) (128 * ?p)"
      using flip_sign_be_bytes [of 0 n] by simp
    moreover have "nat (float_bias (2 ^ (LENGTH('a) - 1)) (float_key w)) = 128 * ?p"
    proof -
      have "float_key w = 0" using True by (auto simp: key)
      then show ?thesis by (simp only: half_int float_bias_values)
    qed
    ultimately show ?thesis by (simp del: be_bytes.simps)
  next
    case False
    have nz: "\<not> (x mod ?p = 0 \<and> (x div ?p = 0 \<or> x div ?p = 128))"
      using False x_eq by (metis add.right_neutral mult_0)
    have enc: "encodeFloat w = packString (if 128 * ?p \<le> x then map not (be_bytes (Suc n) x)
                 else flip_sign (be_bytes (Suc n) x))"
      using nz by (auto simp: encodeFloat_def bigEndianBytes_eq [OF assms] Let_def be_bytes_zero
          and_magnitude_byte and_sign_byte hd_eq sign simp flip: x_def)
    show ?thesis
    proof (cases "128 * ?p \<le> x")
      case True
      then have "x mod (128 * ?p) = x - 128 * ?p" using x
        by (simp add: le_mod_geq)
      then have "float_key w = - int (x - 128 * ?p)" "x > 128 * ?p" using True False by (simp_all add: key)
      then have "nat (float_bias (2 ^ (LENGTH('a) - 1)) (float_key w)) = 2 * (128 * ?p) - 1 - x"
        using x by (simp only: half_int float_bias_values)
      with True enc not_be_bytes [of x "Suc n"] x show ?thesis by (simp del: be_bytes.simps)
    next
      case below: False
      then have "float_key w = int x" by (simp add: key)
      then have "nat (float_bias (2 ^ (LENGTH('a) - 1)) (float_key w)) = (x + 128 * ?p) mod (2 * (128 * ?p))"
        using below by (simp only: half_int float_bias_values not_le)
      with below enc flip_sign_be_bytes [of x n] x show ?thesis by (simp del: be_bytes.simps)
    qed
  qed
qed

section \<open>The order of encoded values\<close>

text \<open>
  The order the encoding is meant to keep. Scalars compare within their type: its number in the
  list and the number the value stands for.
\<close>

fun kscalar :: "kval \<Rightarrow> (nat \<times> int) option" where
  "kscalar (KBool b) = Some (0, of_bool b)"
| "kscalar (KInt8 w) = Some (1, sint w)"
| "kscalar (KInt16 w) = Some (2, sint w)"
| "kscalar (KInt32 w) = Some (3, sint w)"
| "kscalar (KInt64 w) = Some (4, sint w)"
| "kscalar (KUint8 w) = Some (5, uint w)"
| "kscalar (KUint16 w) = Some (6, uint w)"
| "kscalar (KUint32 w) = Some (7, uint w)"
| "kscalar (KUint64 w) = Some (8, uint w)"
| "kscalar (KFloat32 w) = Some (9, float_key w)"
| "kscalar (KFloat64 w) = Some (10, float_key w)"
| "kscalar v = None"

text \<open>
  The least and the greatest key are below and above every other value; byte strings and lists
  compare lexicographically.
\<close>

function (sequential) kless :: "kval \<Rightarrow> kval \<Rightarrow> bool" and klist_less :: "kval list \<Rightarrow> kval list \<Rightarrow> bool" where
  "kless (KSlice vs) w =
     (case w of KSlice ws \<Rightarrow> klist_less vs ws | KMaximumKey \<Rightarrow> True | _ \<Rightarrow> False)"
| "kless (KBytes s) w = (case w of KBytes t \<Rightarrow> s < t | KMaximumKey \<Rightarrow> True | _ \<Rightarrow> False)"
| "kless KMinimalKey w = (w \<noteq> KMinimalKey)"
| "kless KMaximumKey w = False"
| "kless v w =
     (w = KMaximumKey \<or>
      (case kscalar v of None \<Rightarrow> False
       | Some (i, x) \<Rightarrow> (case kscalar w of None \<Rightarrow> False | Some (j, y) \<Rightarrow> i = j \<and> x < y)))"
| "klist_less [] ws = (ws \<noteq> [])"
| "klist_less (v # vs) ws =
     (case ws of [] \<Rightarrow> False
      | w # ws' \<Rightarrow> kless v w \<or> (\<not> kless w v \<and> klist_less vs ws'))"
  by pat_completeness auto
termination
  by (relation "measure (case_sum (\<lambda>(v, w). size v + size w)
        (\<lambda>(vs, ws). size_list size vs + size_list size ws))") auto

text \<open>Two values of the same shape; the two extreme keys are comparable with everything.\<close>

fun ksame :: "kval \<Rightarrow> kval \<Rightarrow> bool" and klist_same :: "kval list \<Rightarrow> kval list \<Rightarrow> bool" where
  "ksame (KSlice vs) w =
     (case w of KSlice ws \<Rightarrow> klist_same vs ws | KMinimalKey \<Rightarrow> True | KMaximumKey \<Rightarrow> True | _ \<Rightarrow> False)"
| "ksame (KBytes s) w =
     (case w of KBytes t \<Rightarrow> True | KMinimalKey \<Rightarrow> True | KMaximumKey \<Rightarrow> True | _ \<Rightarrow> False)"
| "ksame KMinimalKey w = True"
| "ksame KMaximumKey w = True"
| "ksame v w =
     (w = KMinimalKey \<or> w = KMaximumKey \<or> v = w \<or>
      (kscalar v \<noteq> None \<and> map_option fst (kscalar w) = map_option fst (kscalar v)))"
| "klist_same [] ws = True"
| "klist_same (v # vs) ws =
     (case ws of [] \<Rightarrow> True | w # ws' \<Rightarrow> ksame v w \<and> klist_same vs ws')"

lemma numbers_order:
  fixes x y :: int
  assumes "x < y" and "0 \<le> x" and "nat y < 256 ^ n"
  shows "be_bytes n (nat x) < be_bytes n (nat y)"
  using be_bytes_order [of "nat x" "nat y" n] assms by simp

lemma unsigned_order:
  fixes v w :: "'a :: len word"
  assumes "LENGTH('a) = 8 * Suc n" and "uint v < uint w"
  shows "bigEndianBytes v < bigEndianBytes w"
  using be_bytes_order [OF _ unat_bytes [OF assms(1), of w], of "unat v"] assms(2)
  by (simp add: bigEndianBytes_eq [OF assms(1)] word_less_def [symmetric] word_less_nat_alt [symmetric]
      del: be_bytes.simps)

lemma signed_order:
  fixes v w :: "'a :: len word"
  assumes len: "LENGTH('a) = 8 * Suc n" and less: "sint v < sint w"
  shows "flip_sign (bigEndianBytes v) < flip_sign (bigEndianBytes w)"
  unfolding signed_bytes [OF len]
proof (rule numbers_order)
  show "sint v + 2 ^ (LENGTH('a) - 1) < sint w + 2 ^ (LENGTH('a) - 1)" using less by simp
  show "0 \<le> sint v + 2 ^ (LENGTH('a) - 1)" using sint_greater_eq [of v] by simp
  show "nat (sint w + 2 ^ (LENGTH('a) - 1)) < 256 ^ Suc n"
    unfolding sint_shift power_bytes [OF len, symmetric] by (rule mod_less_divisor) simp
qed

lemma float_key_bounds:
  fixes w :: "'a :: len word"
  shows "- (2 ^ (LENGTH('a) - 1)) < float_key w" "float_key w < 2 ^ (LENGTH('a) - 1)"
proof -
  obtain m where "0 \<le> m" "m < (2 :: int) ^ (LENGTH('a) - 1)" "float_key w = m \<or> float_key w = - m"
  proof
    show "int (unat w mod 2 ^ (LENGTH('a) - 1)) < 2 ^ (LENGTH('a) - 1)" by (simp add: zmod_int)
    show "float_key w = int (unat w mod 2 ^ (LENGTH('a) - 1)) \<or>
          float_key w = - int (unat w mod 2 ^ (LENGTH('a) - 1))"
      unfolding float_key_def Let_def by metis
  qed simp
  then show "- (2 ^ (LENGTH('a) - 1)) < float_key w" "float_key w < 2 ^ (LENGTH('a) - 1)"
    by linarith+
qed

lemma float_order:
  fixes v w :: "'a :: len word"
  assumes len: "LENGTH('a) = 8 * Suc n" and less: "float_key v < float_key w"
  shows "\<exists>s t. s < t \<and> encodeFloat v = packString s \<and> encodeFloat w = packString t"
proof -
  let ?h = "2 ^ (LENGTH('a) - 1) :: int"
  have two: "(2 :: nat) ^ LENGTH('a) = 2 * 2 ^ (LENGTH('a) - 1)"
    by (metis len_gt_0 power_minus_mult mult.commute)
  have "be_bytes (Suc n) (nat (float_bias ?h (float_key v))) <
        be_bytes (Suc n) (nat (float_bias ?h (float_key w)))"
  proof (rule numbers_order)
    show "float_bias ?h (float_key v) < float_bias ?h (float_key w)"
      using less by (auto simp: float_bias_def)
    show "0 \<le> float_bias ?h (float_key v)"
      using float_key_bounds(1) [of v] by (auto simp: float_bias_def)
    have "float_bias ?h (float_key w) < 2 * ?h"
      using float_key_bounds(2) [of w] by (auto simp: float_bias_def)
    then have "nat (float_bias ?h (float_key w)) < nat (2 * ?h)" by simp
    also have "nat (2 * ?h) = 256 ^ Suc n"
      by (simp add: nat_mult_distrib nat_power_eq power_bytes [OF len, symmetric] two del: power_Suc)
    finally show "nat (float_bias ?h (float_key w)) < 256 ^ Suc n" .
  qed
  then show ?thesis using float_bytes [OF len] by blast
qed

lemma sint_inject: "sint v = sint w \<Longrightarrow> v = (w :: 'a :: len word)"
  by (metis scast_eq scast_id)

text \<open>A smaller scalar of the same type has the smaller byte string; equal ones have the same.\<close>

lemma encodeUnsigned_order:
  fixes v w :: "'a :: len word"
  assumes "LENGTH('a) = 8 * Suc n" and "uint v < uint w"
  shows "\<exists>s t. s < t \<and> encodeUnsignedInteger v = packString s \<and> encodeUnsignedInteger w = packString t"
  using unsigned_order [OF assms] by (auto simp: encodeUnsignedInteger_def)

lemma encodeSigned_order:
  fixes v w :: "'a :: len word"
  assumes "LENGTH('a) = 8 * Suc n" and "sint v < sint w"
  shows "\<exists>s t. s < t \<and> encodeSignedInteger v = packString s \<and> encodeSignedInteger w = packString t"
  using signed_order [OF assms] by (auto simp: encodeSignedInteger_def)

lemma encodeFloat_cong:
  fixes v w :: "'a :: len word"
  assumes "LENGTH('a) = 8 * Suc n" and "float_key v = float_key w"
  shows "encodeFloat v = encodeFloat w"
  using assms by (simp only: float_bytes)

lemmas scalar_orders =
  encodeUnsigned_order [where 'a = 8 and n = 0] encodeUnsigned_order [where 'a = 16 and n = 1]
  encodeUnsigned_order [where 'a = 32 and n = 3] encodeUnsigned_order [where 'a = 64 and n = 7]
  encodeSigned_order [where 'a = 8 and n = 0] encodeSigned_order [where 'a = 16 and n = 1]
  encodeSigned_order [where 'a = 32 and n = 3] encodeSigned_order [where 'a = 64 and n = 7]
  float_order [where 'a = 32 and n = 3] float_order [where 'a = 64 and n = 7]

lemma kscalar_order:
  assumes "kscalar v = Some (i, x)" and "kscalar w = Some (i, y)" and "x < y"
  shows "\<exists>s t. s < t \<and> EncodeValue v = Some (packString s) \<and> EncodeValue w = Some (packString t)"
  using assms
  by (cases v; cases w) (auto intro: scalar_orders [simplified] simp: of_bool_def split: if_splits)

lemma kscalar_equal:
  assumes "kscalar v = Some (i, x)" and "kscalar w = Some (i, x)"
  shows "EncodeValue v = EncodeValue w"
proof (cases "(\<exists>a b. v = KFloat32 a \<and> w = KFloat32 b) \<or> (\<exists>a b. v = KFloat64 a \<and> w = KFloat64 b)")
  case True
  then show ?thesis
    using assms encodeFloat_cong [where 'a = 32 and n = 3] encodeFloat_cong [where 'a = 64 and n = 7]
    by auto
next
  case False
  then show ?thesis
    using assms by (cases v; cases w) (auto dest: sint_inject word_uint_eqI)
qed

lemma bytes_Join_Cons:
  "bytes_Join (e # es) sep = e @ (if es = [] then [] else sep @ bytes_Join es sep)"
  by (cases es) auto

text \<open>The first byte of an encoding tells the extreme keys from every other value.\<close>

lemma EncodeValue_head:
  assumes "EncodeValue v = Some e"
  shows "\<exists>r. e = (case v of KMinimalKey \<Rightarrow> typeMin | KMaximumKey \<Rightarrow> typeMax | _ \<Rightarrow> typeNormal) # r"
  using assms
  by (cases v) (auto simp: encodeUnsignedInteger_def encodeSignedInteger_def encodeFloat_def Let_def
      packString_def packList_def encodeMinMaxKey_def)

lemma type_marks_order: "typeMin < typeNormal" "typeNormal < typeMax" "typeMin < typeMax"
  "0 < typeMin" "0 < typeNormal" "0 < typeMax"
  by (simp_all add: kope_marks word_less_nat_alt)

lemma tail_ok_marks [simp]: "tail_ok []" "tail_ok (separator @ r)" "tail_ok (listEnd @ r)"
  by (simp_all add: tail_ok_def kope_marks word_less_nat_alt)

lemma end_before_separator: "listEnd @ c < separator @ d"
  by (simp add: kope_marks word_less_nat_alt)

lemma end_before_element: "EncodeValue w = Some f \<Longrightarrow> listEnd @ c < f @ d"
  by (auto dest!: EncodeValue_head simp: listEnd_def type_marks_order split: kval.splits)

lemma kless_scalar:
  "kscalar v = Some (i, x) \<Longrightarrow>
     kless v w \<longleftrightarrow> w = KMaximumKey \<or> (\<exists>y. kscalar w = Some (i, y) \<and> x < y)"
  by (cases v) (auto split: option.splits)

lemma ksame_scalar:
  "kscalar v = Some (i, x) \<Longrightarrow>
     ksame v w \<longleftrightarrow> w = KMinimalKey \<or> w = KMaximumKey \<or> (\<exists>y. kscalar w = Some (i, y))"
  by (cases v) (auto)

text \<open>Values of one shape are ordered one way, the other way, or have the same encoding.\<close>

lemma scalar_total:
  assumes "kscalar v = Some (i, x)" and "ksame v w"
  shows "kless v w \<or> kless w v \<or> EncodeValue v = EncodeValue w"
proof -
  consider "w = KMinimalKey" | "w = KMaximumKey" | y where "kscalar w = Some (i, y)"
    using assms(2) by (auto simp: ksame_scalar [OF assms(1)])
  then show ?thesis
  proof cases
    case 1
    then show ?thesis using assms(1) by auto
  next
    case 2
    then show ?thesis by (simp add: kless_scalar [OF assms(1)])
  next
    case 3
    then show ?thesis
      using kscalar_equal [OF assms(1)] kless_scalar [OF assms(1)] kless_scalar [OF 3]
      by (metis assms(1) linorder_neqE)
  qed
qed

lemma scalar_total': "kscalar v \<noteq> None \<Longrightarrow> ksame v w \<Longrightarrow>
    kless v w \<or> kless w v \<or> EncodeValue v = EncodeValue w"
  using scalar_total by fastforce

lemma klist_less_Cons:
  "klist_less (v # vs) (w # ws) \<longleftrightarrow> kless v w \<or> (\<not> kless w v \<and> klist_less vs ws)"
  by simp

lemma list_total_step:
  assumes "kless v w \<or> kless w v \<or> EncodeValue v = EncodeValue w"
    and "klist_less vs ws \<or> klist_less ws vs \<or> EncodeElements vs = EncodeElements ws"
  shows "klist_less (v # vs) (w # ws) \<or> klist_less (w # ws) (v # vs) \<or>
         EncodeElements (v # vs) = EncodeElements (w # ws)"
proof -
  have "EncodeValue v = EncodeValue w \<Longrightarrow> EncodeElements vs = EncodeElements ws \<Longrightarrow>
      EncodeElements (v # vs) = EncodeElements (w # ws)"
    by (cases "EncodeValue w") simp_all
  with assms show ?thesis unfolding klist_less_Cons by blast
qed

lemma kless_total:
  "ksame v w \<Longrightarrow> kless v w \<or> kless w v \<or> EncodeValue v = EncodeValue w"
  "klist_same vs ws \<Longrightarrow> klist_less vs ws \<or> klist_less ws vs \<or> EncodeElements vs = EncodeElements ws"
proof (induction v w and vs ws rule: ksame_klist_same.induct)
  case (1 vs w)
  then show ?case by (cases w) auto
next
  case (2 s w)
  then show ?case using less_linear [of s] by (cases w) (simp_all, metis)
next
  case (4 w)
  then show ?case by (cases w) auto
next
  case (7 v vs ws)
  show ?case
  proof (cases ws)
    case (Cons w ws')
    with "7.prems" have "ksame v w" "klist_same vs ws'" by simp_all
    with "7.IH" Cons show ?thesis unfolding Cons by (intro list_total_step)
  qed simp
qed ((rule scalar_total', simp, assumption) | fastforce)+

text \<open>
  The smaller value has the smaller encoding, whatever follows: the first continuation is empty or
  starts the way the end of an element does.
\<close>

lemma scalar_order:
  assumes "kscalar v = Some (i, x)" and "kless v w" and "EncodeValue v = Some e"
    and "EncodeValue w = Some f" and "tail_ok c"
  shows "e @ c < f @ c'"
proof (cases "w = KMaximumKey")
  case True
  then show ?thesis
    using EncodeValue_head [OF assms(3)] assms(1,4)
    by (cases v) (auto simp: encodeMinMaxKey_def type_marks_order)
next
  case False
  then obtain y where "kscalar w = Some (i, y)" "x < y"
    using assms(2) by (auto simp: kless_scalar [OF assms(1)])
  then show ?thesis
    using kscalar_order [OF assms(1), of w y] assms(3-5) by (auto intro: packString_order)
qed

lemma scalar_order': "kless v w \<Longrightarrow> kscalar v \<noteq> None \<Longrightarrow> EncodeValue v = Some e \<Longrightarrow>
    EncodeValue w = Some f \<Longrightarrow> tail_ok c \<Longrightarrow> e @ c < f @ c'"
  using scalar_order by fastforce

lemma list_order_step:
  assumes step: "\<And>c c'. tail_ok c \<Longrightarrow> kless v w \<Longrightarrow> e @ c < f @ c'"
    and rest: "klist_less vs ws \<Longrightarrow>
      bytes_Join es separator @ listEnd @ c < bytes_Join fs separator @ listEnd @ c'"
    and less: "klist_less (v # vs) (w # ws)" and same: "ksame v w"
    and enc: "EncodeValue v = Some e" "EncodeValue w = Some f"
    and encs: "EncodeElements vs = Some es" "EncodeElements ws = Some fs"
  shows "bytes_Join (e # es) separator @ listEnd @ c < bytes_Join (f # fs) separator @ listEnd @ c'"
proof (cases "kless v w")
  case True
  then show ?thesis by (auto simp: bytes_Join_Cons intro: step)
next
  case False
  with less kless_total(1) [OF same] enc have eq: "e = f" and tails: "klist_less vs ws" by auto
  from tails encs have nonempty: "fs \<noteq> []"
    by (cases vs; cases ws) (auto split: option.splits)
  from tails encs have "vs = [] \<longleftrightarrow> es = []"
    by (cases vs) (auto split: option.splits)
  with rest [OF tails] nonempty eq show ?thesis
    by (cases "es = []") (simp_all add: bytes_Join_Cons end_before_separator)
qed

lemma klist_order_Nil:
  "klist_less [] ws \<Longrightarrow> EncodeElements ws = Some fs \<Longrightarrow> listEnd @ c < bytes_Join fs separator @ d"
  by (cases ws) (auto simp: bytes_Join_Cons end_before_element split: option.splits)

lemma kless_order:
  "kless v w \<Longrightarrow> ksame v w \<Longrightarrow> EncodeValue v = Some e \<Longrightarrow> EncodeValue w = Some f \<Longrightarrow> tail_ok c \<Longrightarrow>
     e @ c < f @ c'"
  "klist_less vs ws \<Longrightarrow> klist_same vs ws \<Longrightarrow> EncodeElements vs = Some es \<Longrightarrow>
     EncodeElements ws = Some fs \<Longrightarrow>
     bytes_Join es separator @ listEnd @ d < bytes_Join fs separator @ listEnd @ d'"
proof (induction v w and vs ws arbitrary: e f c c' and es fs d d' rule: ksame_klist_same.induct)
  case (1 vs w)
  then show ?case
    by (cases w) (auto simp: packList_def encodeMinMaxKey_def type_marks_order)
next
  case (2 s w)
  then show ?case
    by (cases w) (auto simp: encodeMinMaxKey_def type_marks_order packString_def intro: escape_order)
next
  case (3 w)
  then show ?case
    using EncodeValue_head [of w f] by (auto simp: encodeMinMaxKey_def type_marks_order split: kval.splits)
next
  case (6 ws)
  then show ?case by (simp add: klist_order_Nil)
next
  case (7 v vs ws)
  then obtain w ws' where ws: "ws = w # ws'" by (cases ws) auto
  with "7.prems" obtain e es' f fs' where
    enc: "EncodeValue v = Some e" "EncodeElements vs = Some es'" "es = e # es'"
      "EncodeValue w = Some f" "EncodeElements ws' = Some fs'" "fs = f # fs'"
    by (auto split: option.splits)
  from "7.prems" ws have same: "ksame v w" "klist_same vs ws'" and less: "klist_less (v # vs) (w # ws')"
    by simp_all
  have "e @ c < f @ c'" if "tail_ok c" "kless v w" for c c'
    using "7.IH"(1) [OF ws] that same enc by blast
  moreover have "bytes_Join es' separator @ listEnd @ d < bytes_Join fs' separator @ listEnd @ d'"
    if "klist_less vs ws'"
    using "7.IH"(2) [OF ws] that same enc by blast
  ultimately show ?case
    unfolding enc(3,6) using less same enc by (intro list_order_step)
qed ((rule scalar_order', assumption, simp, assumption+) | (fastforce simp: encodeMinMaxKey_def type_marks_order))+

lemma EncodeValue_less_iff:
  assumes "ksame v w" and "EncodeValue v = Some e" and "EncodeValue w = Some f" and "ksame w v"
  shows "e < f \<longleftrightarrow> kless v w"
  using kless_total(1) [OF assms(1)] kless_order(1) [OF _ assms(1-3), of "[]" "[]"]
    kless_order(1) [OF _ assms(4,3,2), of "[]" "[]"] assms(2,3)
  by auto

section \<open>Reading a packed list\<close>

text \<open>
  An element is framed when the scan of a list passes over it without opening, closing or
  splitting anything at its own depth.
\<close>

definition framed :: "bytes \<Rightarrow> bool" where
  "framed e = (\<forall>d cs p l depth b r. l \<noteq> Some 0 \<longrightarrow> depth \<ge> 1 \<longrightarrow>
     (\<exists>l'. l' \<noteq> Some 0 \<and>
        unpack_loop d (e @ cs) p l depth b r = unpack_loop d cs (p + length e) l' depth b r))"

lemma framed_run:
  "framed e \<Longrightarrow> l \<noteq> Some 0 \<Longrightarrow> depth \<ge> 1 \<Longrightarrow>
     \<exists>l'. l' \<noteq> Some 0 \<and>
       unpack_loop d (e @ cs) p l depth b r = unpack_loop d cs (p + length e) l' depth b r"
  unfolding framed_def by blast

lemma escape_framed:
  "l \<noteq> Some 0 \<Longrightarrow> \<exists>l'. l' \<noteq> Some 0 \<and>
     unpack_loop d (escape s @ cs) p l depth b r = unpack_loop d cs (p + length (escape s)) l' depth b r"
proof (induction s arbitrary: p l)
  case (Cons c s)
  show ?case
  proof (cases "c = 0")
    case True
    from Cons.IH [of "Some extZero" "p + 2"] Cons.prems True show ?thesis
      by (auto simp: kope_marks)
  next
    case False
    from Cons.IH [of "Some c" "p + 1"] Cons.prems False show ?thesis by auto
  qed
qed auto

lemma framed_packString: "framed (packString s)"
  unfolding framed_def
proof (intro allI impI)
  fix d cs p l depth b r
  assume "l \<noteq> Some (0 :: u8)" and "(1 :: int) \<le> depth"
  then show "\<exists>l'. l' \<noteq> Some 0 \<and> unpack_loop d (packString s @ cs) p l depth b r =
      unpack_loop d cs (p + length (packString s)) l' depth b r"
    using escape_framed [of "Some typeNormal" d s cs "p + 1" depth b r]
    by (simp add: packString_def kope_marks)
qed

lemma framed_byte: "b \<noteq> 0 \<Longrightarrow> framed [b]"
  by (auto simp: framed_def)

text \<open>Inside a list at depth two or more the separators and the elements are all passed over.\<close>

lemma join_framed:
  assumes "\<forall>e \<in> set es. framed e" and "l \<noteq> Some 0" and "depth \<ge> 2"
  shows "\<exists>l'. l' \<noteq> Some 0 \<and>
     unpack_loop d (bytes_Join es separator @ cs) p l depth b r =
     unpack_loop d cs (p + length (bytes_Join es separator)) l' depth b r"
  using assms
proof (induction es arbitrary: p l)
  case (Cons e es)
  have head: "\<exists>l'. l' \<noteq> Some 0 \<and>
      unpack_loop d (e @ cs) p l depth b r = unpack_loop d cs (p + length e) l' depth b r" for cs
    using Cons.prems by (intro framed_run) auto
  show ?case
  proof (cases "es = []")
    case True
    then show ?thesis using head by (auto simp: bytes_Join_Cons)
  next
    case False
    obtain l2 where l2: "l2 \<noteq> Some 0"
      "unpack_loop d (e @ separator @ bytes_Join es separator @ cs) p l depth b r =
       unpack_loop d (separator @ bytes_Join es separator @ cs) (p + length e) l2 depth b r"
      using head by blast
    have "unpack_loop d (separator @ bytes_Join es separator @ cs) (p + length e) l2 depth b r =
        unpack_loop d (bytes_Join es separator @ cs) (p + length e + 2) (Some extSeparator) depth b r"
      using l2(1) Cons.prems(3) by (simp add: kope_marks)
    moreover obtain l3 where "l3 \<noteq> Some 0"
      "unpack_loop d (bytes_Join es separator @ cs) (p + length e + 2) (Some extSeparator) depth b r =
       unpack_loop d cs (p + length e + 2 + length (bytes_Join es separator)) l3 depth b r"
      using Cons.IH [of "Some extSeparator" "p + length e + 2"] Cons.prems by (auto simp: kope_marks)
    ultimately show ?thesis
      using l2(2) False by (intro exI [of _ l3]) (simp add: bytes_Join_Cons kope_marks ac_simps)
  qed
qed auto

lemma framed_packList:
  assumes "\<forall>e \<in> set es. framed e"
  shows "framed (packList es)"
  unfolding framed_def
proof (intro allI impI)
  fix d cs p l depth b r
  assume l: "l \<noteq> Some (0 :: u8)" and depth: "(1 :: int) \<le> depth"
  let ?j = "bytes_Join es separator"
  have start: "unpack_loop d (packList es @ cs) p l depth b r =
      unpack_loop d (?j @ listEnd @ cs) (p + 3) (Some extListBegin) (depth + 1) b r"
    using l depth by (simp add: packList_def kope_marks numeral_3_eq_3)
  obtain l1 where l1: "l1 \<noteq> Some 0"
    "unpack_loop d (?j @ listEnd @ cs) (p + 3) (Some extListBegin) (depth + 1) b r =
     unpack_loop d (listEnd @ cs) (p + 3 + length ?j) l1 (depth + 1) b r"
    using join_framed [OF assms, of "Some extListBegin" "depth + 1" d "listEnd @ cs" "p + 3" b r] depth
    by (auto simp: kope_marks)
  have "unpack_loop d (listEnd @ cs) (p + 3 + length ?j) l1 (depth + 1) b r =
      unpack_loop d cs (p + 5 + length ?j) (Some extListEnd) depth b r"
    using l1(1) depth by (simp add: kope_marks ac_simps)
  with start l1(2) have "unpack_loop d (packList es @ cs) p l depth b r =
      unpack_loop d cs (p + 5 + length ?j) (Some extListEnd) depth b r" by (simp only:)
  moreover have "p + length (packList es) = p + 5 + length ?j"
    by (simp add: packList_def kope_marks)
  moreover have "Some extListEnd \<noteq> Some 0" by (simp add: kope_marks)
  ultimately show "\<exists>l'. l' \<noteq> Some 0 \<and> unpack_loop d (packList es @ cs) p l depth b r =
      unpack_loop d cs (p + length (packList es)) l' depth b r" by metis
qed

lemma framed_EncodeValue:
  "EncodeValue v = Some e \<Longrightarrow> framed e"
  "EncodeElements vs = Some es \<Longrightarrow> \<forall>e \<in> set es. framed e"
  by (induction v and vs arbitrary: e and es rule: EncodeValue_EncodeElements.induct)
     (auto simp: encodeUnsignedInteger_def encodeSignedInteger_def encodeFloat_def Let_def
        framed_packString framed_packList framed_byte encodeMinMaxKey_def type_marks_order
        word_pos_iff [symmetric] split: option.splits)

text \<open>The scan of a packed list at depth one: every element is cut out where it stands.\<close>

lemma unpack_elements:
  assumes "\<forall>e \<in> set es. framed e" and "es \<noteq> []" and "l \<noteq> Some 0"
    and "d = pre @ bytes_Join es separator @ listEnd" and "p = length pre"
  shows "unpack_loop d (bytes_Join es separator @ listEnd) p l 1 (Some p) r = Inr (r @ es)"
  using assms
proof (induction es arbitrary: pre p l r)
  case (Cons e es)
  have head: "\<exists>l'. l' \<noteq> Some 0 \<and>
      unpack_loop d (e @ cs) p l 1 (Some p) r = unpack_loop d cs (p + length e) l' 1 (Some p) r" for cs
    using Cons.prems by (intro framed_run) auto
  have cut: "take (length e) (drop p d) = e"
    using Cons.prems by (simp add: bytes_Join_Cons)
  show ?case
  proof (cases "es = []")
    case True
    obtain l' where "l' \<noteq> Some 0"
      "unpack_loop d (e @ listEnd) p l 1 (Some p) r = unpack_loop d listEnd (p + length e) l' 1 (Some p) r"
      using head by blast
    with True cut show ?thesis
      by (simp add: bytes_Join_Cons slice_def kope_marks)
  next
    case False
    let ?rest = "bytes_Join es separator @ listEnd"
    obtain l' where l': "l' \<noteq> Some 0"
      "unpack_loop d (e @ separator @ ?rest) p l 1 (Some p) r =
       unpack_loop d (separator @ ?rest) (p + length e) l' 1 (Some p) r"
      using head by blast
    have "unpack_loop d (separator @ ?rest) (p + length e) l' 1 (Some p) r =
        unpack_loop d ?rest (p + length e + 2) (Some extSeparator) 1 (Some (p + length e + 2)) (r @ [e])"
      using l'(1) cut by (simp add: slice_def kope_marks)
    also have "\<dots> = Inr ((r @ [e]) @ es)"
      using Cons.prems False
      by (intro Cons.IH [of _ "pre @ e @ separator"]) (auto simp: bytes_Join_Cons kope_marks)
    finally show ?thesis using False l'(2) by (simp add: bytes_Join_Cons)
  qed
qed simp

lemma unpackList_packList:
  assumes "\<forall>e \<in> set es. framed e" and "es \<noteq> []"
  shows "unpackList (packList es) = Inr es"
proof -
  let ?d = "packList es"
  have "unpackList ?d = unpack_loop ?d ?d 0 None 0 None []"
    by (simp add: unpackList_def packList_def kope_marks)
  also have "\<dots> = unpack_loop ?d (bytes_Join es separator @ listEnd) 3 (Some extListBegin) 1 (Some 3) []"
    by (subst (2) packList_def) (simp add: kope_marks numeral_3_eq_3)
  also have "\<dots> = Inr es"
    using unpack_elements [OF assms, of "Some extListBegin" ?d "typeNormal # listBegin" 3 "[]"]
    by (simp add: packList_def kope_marks)
  finally show ?thesis .
qed

lemma char_byte_less: "(of_nat (of_char c) :: u8) < of_nat (of_char d) \<longleftrightarrow> c < d"
  using nat_of_char_less_256 [of c] nat_of_char_less_256 [of d]
  by (simp add: word_less_nat_alt less_char_def unat_of_nat)

lemma bytes_of_string_less: "bytes_of_string m < bytes_of_string n \<longleftrightarrow> m < n"
proof (induction m arbitrary: n)
  case Nil
  then show ?case by (cases n) (simp_all add: bytes_of_string_def)
next
  case (Cons c m)
  have "(of_nat (of_char c) :: u8) = of_nat (of_char d) \<longleftrightarrow> c = d" for d
    using char_byte_less [of c d] char_byte_less [of d c] by (metis less_linear order_less_irrefl)
  with Cons show ?case
    by (cases n) (simp_all add: bytes_of_string_def char_byte_less)
qed

section \<open>Keys of tables and indices\<close>

definition encodable :: "kval list \<Rightarrow> bool" where
  "encodable vs = (EncodeElements vs \<noteq> None)"

lemma encodable_NewKey:
  assumes "encodable vs"
  obtains es where "EncodeElements vs = Some es" "NewKey vs = packList es" "\<forall>e \<in> set es. framed e"
    "es = [] \<longleftrightarrow> vs = []"
proof -
  from assms obtain es where "EncodeElements vs = Some es" by (auto simp: encodable_def)
  moreover from this have "es = [] \<longleftrightarrow> vs = []" by (cases vs) (auto split: option.splits)
  ultimately show ?thesis
    using framed_EncodeValue(2) by (intro that) (auto simp: NewKey_def EncodeSlice_def)
qed

lemma EncodeElements_append:
  "EncodeElements vs = Some es \<Longrightarrow> EncodeElements ws = Some fs \<Longrightarrow>
     EncodeElements (vs @ ws) = Some (es @ fs)"
  by (induction vs arbitrary: es) (auto split: option.splits)

lemma encodable_append: "encodable vs \<Longrightarrow> encodable ws \<Longrightarrow> encodable (vs @ ws)"
  using EncodeElements_append by (fastforce simp: encodable_def)

lemma ConcatKey_NewKey:
  assumes "encodable ps" and "ps \<noteq> []" and "encodable qs" and "qs \<noteq> []"
  shows "ConcatKey [NewKey ps, NewKey qs] = Inr (NewKey (ps @ qs))"
proof -
  obtain es where e: "EncodeElements ps = Some es" "NewKey ps = packList es"
    "\<forall>e \<in> set es. framed e" "es = [] \<longleftrightarrow> ps = []"
    by (rule encodable_NewKey [OF assms(1)])
  obtain fs where f: "EncodeElements qs = Some fs" "NewKey qs = packList fs"
    "\<forall>e \<in> set fs. framed e" "fs = [] \<longleftrightarrow> qs = []"
    by (rule encodable_NewKey [OF assms(3)])
  have "NewKey (ps @ qs) = packList (es @ fs)"
    using EncodeElements_append [OF e(1) f(1)] by (simp add: NewKey_def EncodeSlice_def)
  then show ?thesis
    using e f assms by (simp add: ConcatKey_def catLists_def unpackList_packList rbind_def)
qed

lemma AppendKey_NewKey:
  "encodable ps \<Longrightarrow> ps \<noteq> [] \<Longrightarrow> encodable vs \<Longrightarrow> AppendKey (NewKey ps) vs = Inr (NewKey (ps @ vs))"
  by (simp add: AppendKey_def ConcatKey_NewKey)

text \<open>The index key of a row is the prefix, the indexed values and the packed primary key.\<close>

lemma IndexKey_eq:
  assumes "encodable ps" and "ps \<noteq> []" and "encodable vs" and "encodable qs"
  obtains es where "IndexKey (NewKey ps) (NewKey qs) vs = Inr (packList (es @ [NewKey qs]))"
    "\<forall>e \<in> set (es @ [NewKey qs]). framed e"
proof -
  obtain es where e: "NewKey (ps @ vs) = packList es" "\<forall>e \<in> set es. framed e" "es \<noteq> []"
  proof (rule encodable_NewKey [OF encodable_append [OF assms(1,3)]])
    fix es
    assume "NewKey (ps @ vs) = packList es" "\<forall>e \<in> set es. framed e" "es = [] \<longleftrightarrow> ps @ vs = []"
    with that assms(2) show thesis by simp
  qed
  have q: "framed (NewKey qs)"
    by (rule encodable_NewKey [OF assms(4)]) (simp add: framed_packList)
  with e have "IndexKey (NewKey ps) (NewKey qs) vs = Inr (packList (es @ [NewKey qs]))"
    using unpackList_packList [of "[NewKey qs]"]
    by (simp add: IndexKey_def AppendKey_NewKey assms ConcatKey_def catLists_def unpackList_packList rbind_def)
  with that e q show ?thesis by auto
qed

text \<open>C23. From the index key that \<open>IndexKey\<close> builds out of a table prefix, the indexed values and a row's primary key, \<open>IndexedPrimaryKey\<close> reads exactly that primary key back, whatever bytes the values and the key contain (zero bytes, nested lists, marks).\<close>

theorem index_key_round_trip:
  assumes "encodable ps" and "ps \<noteq> []" and "encodable vs" and "encodable qs"
  shows "rbind (IndexKey (NewKey ps) (NewKey qs) vs) IndexedPrimaryKey = Inr (NewKey qs)"
proof -
  obtain es where "IndexKey (NewKey ps) (NewKey qs) vs = Inr (packList (es @ [NewKey qs]))"
    "\<forall>e \<in> set (es @ [NewKey qs]). framed e"
    by (rule IndexKey_eq [OF assms])
  then show ?thesis
    using unpackList_packList [of "es @ [NewKey qs]"] by (simp add: IndexedPrimaryKey_def rbind_def)
qed

theorem index_key_round_trip_witness:
  "rbind (IndexKey (NewKey [KUint32 1]) (NewKey [KUint64 0, KSlice [KBytes [0, 2]]])
     [KBool True, KUint64 5]) IndexedPrimaryKey = Inr (NewKey [KUint64 0, KSlice [KBytes [0, 2]]])"
  by (rule index_key_round_trip) (simp_all add: encodable_def)

text \<open>C22. The encodings of two values of the same shape (scalars of one type, byte strings, lists position by position, and the two extreme keys against anything) compare byte by byte exactly as the values do: signed and unsigned integers by value, floats by their signed magnitude, strings and lists lexicographically.\<close>

theorem encoding_keeps_order:
  assumes "ksame v w" and "ksame w v" and "EncodeValue v = Some e" and "EncodeValue w = Some f"
  shows "(e < f \<longleftrightarrow> kless v w) \<and> (kless v w \<or> kless w v \<or> e = f)"
  using EncodeValue_less_iff [OF assms(1,3,4,2)] kless_total(1) [OF assms(1)] assms(3,4) by auto

theorem encoding_keeps_order_witness:
  "the (EncodeValue (KSlice [KUint32 1, KInt64 (- 5), KBytes [0]])) <
   the (EncodeValue (KSlice [KUint32 1, KInt64 3, KMinimalKey]))"
proof -
  let ?v = "KSlice [KUint32 1, KInt64 (- 5), KBytes [0]]"
  let ?w = "KSlice [KUint32 1, KInt64 3, KMinimalKey]"
  have "sint (- 5 :: 64 word) = - 5" "sint (3 :: 64 word) = 3" by simp_all
  then have "kless ?v ?w" by simp
  moreover have "ksame ?v ?w" "ksame ?w ?v" by simp_all
  moreover have "EncodeValue ?v \<noteq> None" "EncodeValue ?w \<noteq> None" by simp_all
  ultimately show ?thesis
    using encoding_keeps_order [of ?v ?w "the (EncodeValue ?v)" "the (EncodeValue ?w)"]
    by (simp only: option.collapse simp_thms)
qed

lemma IndexKeyRange_misses_its_keys:
  "case (IndexKey (NewKey [KUint8 1]) (NewKey [KUint8 3]) [KUint8 7],
         IndexKeyRange (NewKey [KUint8 1]) [KeyVal (KUint8 7)]) of
     (Inr k, Inr (s, l)) \<Rightarrow> \<not> (s \<le> k \<and> k < l) | _ \<Rightarrow> False"
  by code_simp

end
