(* ===== verification/Store.thy ===== *)
theory Store
  imports Kope
begin

text \<open>
  The key-value database below the tables, by the contract of \<open>db/storage/database.go\<close>: a map from
  byte strings to values, read and written by key and enumerated over a half-open key range in byte
  order. Both engines of the program (levelDB and the red-black tree) are third-party code behind
  this interface; errors of the disk are not modelled. The second part gives the generic facts on
  sorting that the walks need.
\<close>

type_synonym 'v store = "(bytes, 'v) tbl"

definition db_Get :: "'v store \<Rightarrow> bytes \<Rightarrow> 'v option" where
  "db_Get st key = tbl_get st key"

definition db_Has :: "'v store \<Rightarrow> bytes \<Rightarrow> bool" where
  "db_Has st key = (tbl_get st key \<noteq> None)"

definition db_Put :: "bytes \<Rightarrow> 'v \<Rightarrow> 'v store \<Rightarrow> 'v store" where
  "db_Put key val st = tbl_put key val st"

definition db_Delete :: "bytes \<Rightarrow> 'v store \<Rightarrow> 'v store" where
  "db_Delete key st = tbl_del key st"

text \<open>The rows a scan calls its callback with, in order, when the callback never stops it.\<close>

definition db_Iterate :: "bytes option \<Rightarrow> bytes option \<Rightarrow> bool \<Rightarrow> 'v store \<Rightarrow> (bytes \<times> 'v) list" where
  "db_Iterate start limit reverse st =
     (let rows = sort_key fst (filter (\<lambda>(k, v). in_range start limit k) st) in
      if reverse then rev rows else rows)"

section \<open>Sorting by equivalent keys\<close>

lemma insort_key_cong:
  "\<forall>y \<in> set ys. (f x \<le> f y) = (g x \<le> g y) \<Longrightarrow> insort_key f x ys = insort_key g x ys"
  by (induction ys) auto

lemma sort_key_cong_order:
  assumes "\<forall>x \<in> set xs. \<forall>y \<in> set xs. (f x \<le> f y) = (g x \<le> g y)"
  shows "sort_key f xs = sort_key g xs"
  using assms
proof (induction xs)
  case (Cons x xs)
  then have "sort_key f xs = sort_key g xs" by simp
  with Cons.prems show ?case by (simp add: insort_key_cong [of _ f x g])
qed simp

lemma insort_key_map: "insort_key f (g x) (map g xs) = map g (insort_key (\<lambda>x. f (g x)) x xs)"
  by (induction xs) auto

lemma sort_key_map: "sort_key f (map g xs) = map g (sort_key (\<lambda>x. f (g x)) xs)"
  by (induction xs) (auto simp: insort_key_map)

lemma sort_key_id: "sort_key (\<lambda>x. x) xs = sort xs"
  by simp

section \<open>Facts on scans\<close>

lemma set_db_Iterate: "set (db_Iterate s l r st) = {(k, v) \<in> set st. in_range s l k}"
  by (auto simp: db_Iterate_def Let_def)

lemma db_Get_Put: "db_Get (db_Put k v st) j = (if j = k then Some v else db_Get st j)"
  by (simp add: db_Get_def db_Put_def tbl_get_put)

lemma db_Get_Delete: "tbl_ok st \<Longrightarrow> db_Get (db_Delete k st) j = (if j = k then None else db_Get st j)"
  by (simp add: db_Get_def db_Delete_def tbl_get_del)

lemma tbl_ok_db_Put [simp]: "tbl_ok st \<Longrightarrow> tbl_ok (db_Put k v st)"
  by (simp add: db_Put_def tbl_ok_put)

lemma tbl_ok_db_Delete [simp]: "tbl_ok st \<Longrightarrow> tbl_ok (db_Delete k st)"
  by (simp add: db_Delete_def tbl_ok_del)

end
