(* ===== verification/IndexWalk.thy ===== *)
theory IndexWalk
  imports TrxPool Store
begin

text \<open>
  The ordered walks of the generated tables at the level of bytes. A sort index holds, for every
  row, the entry whose key is the encoding of (index prefix, column value, main key) and whose value
  names the main key (\<open>OpeEncode\<close> and \<open>GetMainVal\<close> of the \<open>SoList\<close> types); \<open>ForEachByOrder\<close> and
  \<open>ForEachByRevOrder\<close> compute two encoded bounds and scan the database between them. The theory
  shows that these scans are the walks of theory Table, for the four indices the chain logic walks,
  and what the paging arguments select.
\<close>

section \<open>Index entries and bounds\<close>

definition index_key :: "u32 \<Rightarrow> kval \<Rightarrow> kval \<Rightarrow> bytes" where
  "index_key pre sub main = NewKey [KUint32 pre, sub, main]"

definition index_entries ::
  "u32 \<Rightarrow> ('u \<Rightarrow> kval) \<Rightarrow> ('k \<Rightarrow> kval) \<Rightarrow> ('v \<Rightarrow> 'u) \<Rightarrow> ('k, 'v) tbl \<Rightarrow> 'k store" where
  "index_entries pre fenc kenc field t =
     map (\<lambda>(k, v). (index_key pre (fenc (field v)) (kenc k), k)) t"

text \<open>The paging arguments must be given together; then the two lists of values to encode.\<close>

definition last_ok :: "'k option \<Rightarrow> 'u option \<Rightarrow> bool" where
  "last_ok lastMainKey lastSubVal = ((lastMainKey = None) = (lastSubVal = None))"

definition up_start ::
  "u32 \<Rightarrow> ('u \<Rightarrow> kval) \<Rightarrow> ('k \<Rightarrow> kval) \<Rightarrow> 'u option \<Rightarrow> 'k option \<Rightarrow> 'u option \<Rightarrow> kval list" where
  "up_start pre fenc kenc start lastMainKey lastSubVal =
     KUint32 pre #
     (case start of
        Some u \<Rightarrow> fenc u # (case lastMainKey of None \<Rightarrow> [] | Some k \<Rightarrow> [kenc k, KMinimalKey])
      | None \<Rightarrow> (case (lastMainKey, lastSubVal) of
                   (Some k, Some u) \<Rightarrow> [fenc u, kenc k, KMinimalKey]
                 | _ \<Rightarrow> []) @ [KMinimalKey])"

definition up_stop :: "u32 \<Rightarrow> ('u \<Rightarrow> kval) \<Rightarrow> 'u option \<Rightarrow> kval list" where
  "up_stop pre fenc stop =
     [KUint32 pre, case stop of Some u \<Rightarrow> fenc u | None \<Rightarrow> KMaximumKey]"

definition down_start ::
  "u32 \<Rightarrow> ('u \<Rightarrow> kval) \<Rightarrow> ('k \<Rightarrow> kval) \<Rightarrow> 'u option \<Rightarrow> 'k option \<Rightarrow> 'u option \<Rightarrow> kval list" where
  "down_start pre fenc kenc start lastMainKey lastSubVal =
     KUint32 pre #
     (case start of
        Some u \<Rightarrow> fenc u # (case lastMainKey of None \<Rightarrow> [] | Some k \<Rightarrow> [kenc k])
      | None \<Rightarrow> (case (lastMainKey, lastSubVal) of
                   (Some k, Some u) \<Rightarrow> [fenc u, kenc k]
                 | _ \<Rightarrow> []) @ [KMaximumKey])"

definition down_stop :: "u32 \<Rightarrow> ('u \<Rightarrow> kval) \<Rightarrow> 'u option \<Rightarrow> kval list" where
  "down_stop pre fenc stop =
     KUint32 pre # (case stop of Some u \<Rightarrow> [fenc u] | None \<Rightarrow> [])"

text \<open>
  The main keys the callback is called with, or None for the error on the paging arguments. Encoding
  a bound cannot fail for the column types of the tables.
\<close>

definition scan_up ::
  "u32 \<Rightarrow> ('u \<Rightarrow> kval) \<Rightarrow> ('k \<Rightarrow> kval) \<Rightarrow> 'u option \<Rightarrow> 'u option \<Rightarrow> 'k option \<Rightarrow> 'u option \<Rightarrow>
   'k store \<Rightarrow> 'k list option" where
  "scan_up pre fenc kenc start stop lastMainKey lastSubVal db =
     (if \<not> last_ok lastMainKey lastSubVal then None
      else Some (map snd (db_Iterate
             (Some (NewKey (up_start pre fenc kenc start lastMainKey lastSubVal)))
             (Some (NewKey (up_stop pre fenc stop))) False db)))"

definition scan_down ::
  "u32 \<Rightarrow> ('u \<Rightarrow> kval) \<Rightarrow> ('k \<Rightarrow> kval) \<Rightarrow> 'u option \<Rightarrow> 'u option \<Rightarrow> 'k option \<Rightarrow> 'u option \<Rightarrow>
   'k store \<Rightarrow> 'k list option" where
  "scan_down pre fenc kenc start stop lastMainKey lastSubVal db =
     (if \<not> last_ok lastMainKey lastSubVal then None
      else Some (map snd (db_Iterate
             (Some (NewKey (down_stop pre fenc stop)))
             (Some (NewKey (down_start pre fenc kenc start lastMainKey lastSubVal))) True db)))"

section \<open>Columns\<close>

text \<open>
  What a walk relies on of the type of a column: its values encode, to keys of one shape, in the
  order of the values, and none of them is an extreme key.
\<close>

locale ope_column =
  fixes enc :: "'u :: linorder \<Rightarrow> kval"
  assumes encodes: "EncodeValue (enc u) \<noteq> None"
    and same: "ksame (enc u) (enc v)"
    and less: "kless (enc u) (enc v) = (u < v)"
    and proper: "enc u \<noteq> KMinimalKey" "enc u \<noteq> KMaximumKey"
begin

lemma extremes: "kless (enc u) KMaximumKey" "\<not> kless (enc u) KMinimalKey"
  "ksame (enc u) KMinimalKey" "ksame (enc u) KMaximumKey"
  using proper [of u] by (cases "enc u"; simp)+

end

lemma NewKey_less_iff:
  assumes "klist_same vs ws" and "klist_same ws vs" and "encodable vs" and "encodable ws"
  shows "NewKey vs < NewKey ws \<longleftrightarrow> klist_less vs ws"
  using EncodeValue_less_iff [of "KSlice vs" "KSlice ws"] assms
  by (auto simp: NewKey_def EncodeSlice_def encodable_def)

lemma klist_less_Nil_iff: "klist_less vs [] \<longleftrightarrow> False"
  by (cases vs) simp_all

locale index_columns = f: ope_column fenc + k: ope_column kenc
  for fenc :: "'u :: linorder \<Rightarrow> kval" and kenc :: "'k :: linorder \<Rightarrow> kval"
begin

lemma min_less: "kless KMinimalKey (fenc u)" "kless KMinimalKey (kenc k)"
  using f.proper [of u] k.proper [of k] by auto

lemmas column_simps = f.encodes k.encodes f.same k.same f.less k.less f.extremes k.extremes min_less
  klist_less_Nil_iff

lemma encodable_columns [simp]:
  "encodable (KUint32 pre # vs) = encodable vs"
  "encodable (fenc u # vs) = encodable vs"
  "encodable (kenc k # vs) = encodable vs"
  "encodable (KMinimalKey # vs) = encodable vs"
  "encodable (KMaximumKey # vs) = encodable vs"
  "encodable []"
  using f.encodes [of u] k.encodes [of k] by (auto simp: encodable_def split: option.splits)

text \<open>An entry compared with another entry and with every kind of bound.\<close>

lemma entry_less_iff:
  "index_key pre (fenc u) (kenc k) < index_key pre (fenc v) (kenc j) \<longleftrightarrow> (u, k) < (v, j)"
  unfolding index_key_def by (subst NewKey_less_iff) (auto simp: column_simps)

lemma entry_inject:
  "index_key pre (fenc u) (kenc k) = index_key pre (fenc v) (kenc j) \<longleftrightarrow> (u, k) = (v, j)"
  using entry_less_iff [of pre u k v j] entry_less_iff [of pre v j u k]
  by (metis less_linear order_less_irrefl)

lemma entry_le_iff:
  "index_key pre (fenc u) (kenc k) \<le> index_key pre (fenc v) (kenc j) \<longleftrightarrow> (u, k) \<le> (v, j)"
  using entry_less_iff [of pre v j u k] by (simp add: not_less [symmetric])

lemma below_entry:
  "NewKey [KUint32 pre] < index_key pre (fenc u) (kenc k)"
  "NewKey [KUint32 pre, KMinimalKey] < index_key pre (fenc u) (kenc k)"
  unfolding index_key_def by (subst NewKey_less_iff; auto simp: column_simps)+

lemma above_entry: "index_key pre (fenc u) (kenc k) < NewKey [KUint32 pre, KMaximumKey]"
  unfolding index_key_def by (subst NewKey_less_iff) (auto simp: column_simps)

lemma entry_less_value: "index_key pre (fenc u) (kenc k) < NewKey [KUint32 pre, fenc v] \<longleftrightarrow> u < v"
  unfolding index_key_def by (subst NewKey_less_iff) (auto simp: column_simps)

lemma entry_less_page:
  "index_key pre (fenc u) (kenc k) < NewKey [KUint32 pre, fenc v, kenc j, KMinimalKey] \<longleftrightarrow> (u, k) \<le> (v, j)"
  "index_key pre (fenc u) (kenc k) < NewKey [KUint32 pre, fenc v, kenc j, KMinimalKey, KMinimalKey] \<longleftrightarrow> (u, k) \<le> (v, j)"
  "index_key pre (fenc u) (kenc k) < NewKey [KUint32 pre, fenc v, kenc j, KMaximumKey] \<longleftrightarrow> (u, k) \<le> (v, j)"
  unfolding index_key_def by (subst NewKey_less_iff; force simp: column_simps)+

text \<open>A scan of the entries of a table is its sorted index, filtered.\<close>

lemma iterate_entries:
  assumes "\<And>u k. in_range lo hi (index_key pre (fenc u) (kenc k)) = P u k"
  shows "map snd (db_Iterate lo hi reverse (index_entries pre fenc kenc field t)) =
         (if reverse then rev else (\<lambda>xs. xs)) (map snd (filter (\<lambda>(u, k). P u k) (tbl_index field t)))"
proof -
  let ?h = "\<lambda>(u, k). (index_key pre (fenc u) (kenc k), k)"
  let ?rows = "map (\<lambda>(k, v). (field v, k)) t"
  have entries: "index_entries pre fenc kenc field t = map ?h ?rows"
    by (simp add: index_entries_def case_prod_unfold)
  have "filter (\<lambda>(k, v). in_range lo hi k) (map ?h ?rows) = map ?h (filter (\<lambda>(u, k). P u k) ?rows)"
    by (simp add: filter_map comp_def case_prod_unfold assms)
  then have "sort_key fst (filter (\<lambda>(k, v). in_range lo hi k) (map ?h ?rows)) =
      map ?h (sort_key (\<lambda>x. fst (?h x)) (filter (\<lambda>(u, k). P u k) ?rows))"
    by (simp only: sort_key_map)
  also have "sort_key (\<lambda>x. fst (?h x)) (filter (\<lambda>(u, k). P u k) ?rows) =
      sort (filter (\<lambda>(u, k). P u k) ?rows)"
    by (rule sort_key_cong_order) (auto simp: entry_le_iff)
  also have "\<dots> = filter (\<lambda>(u, k). P u k) (tbl_index field t)"
    by (simp add: tbl_index_def filter_sort)
  finally have rows: "sort_key fst (filter (\<lambda>(k, v). in_range lo hi k) (map ?h ?rows)) =
      map ?h (filter (\<lambda>(u, k). P u k) (tbl_index field t))" .
  have "map snd (map ?h xs) = map snd xs" for xs :: "('u \<times> 'k) list"
    by (simp add: case_prod_unfold)
  then show ?thesis
    unfolding db_Iterate_def entries rows Let_def by (simp add: rev_map [symmetric])
qed

lemma scan_up_walk:
  "scan_up pre fenc kenc start stop None None (index_entries pre fenc kenc field t) =
   Some (ForEachByOrder field start stop t)"
proof -
  have "in_range (Some (NewKey (up_start pre fenc kenc start None None)))
          (Some (NewKey (up_stop pre fenc stop))) (index_key pre (fenc u) (kenc k)) =
        in_range start stop u" for u k
    using below_entry [of pre u k] above_entry [of pre u k]
    by (auto simp: in_range_def up_start_def up_stop_def entry_less_value not_less [symmetric]
        less_imp_le split: option.splits)
  then show ?thesis
    by (simp add: scan_up_def last_ok_def iterate_entries [where P = "\<lambda>u k. in_range start stop u"]
        ForEachByOrder_def)
qed

lemma scan_down_walk:
  "scan_down pre fenc kenc start stop None None (index_entries pre fenc kenc field t) =
   Some (ForEachByRevOrder field start stop t)"
proof -
  have "in_range (Some (NewKey (down_stop pre fenc stop)))
          (Some (NewKey (down_start pre fenc kenc start None None))) (index_key pre (fenc u) (kenc k)) =
        in_range stop start u" for u k
    using below_entry [of pre u k] above_entry [of pre u k]
    by (auto simp: in_range_def down_start_def down_stop_def entry_less_value not_less [symmetric]
        less_imp_le split: option.splits)
  then show ?thesis
    by (simp add: scan_down_def last_ok_def iterate_entries [where P = "\<lambda>u k. in_range stop start u"]
        ForEachByRevOrder_def)
qed

text \<open>The pages: what follows an entry, and what an explicit start does to the paging arguments.\<close>

lemma scan_up_page:
  "scan_up pre fenc kenc None stop (Some m) (Some s) (index_entries pre fenc kenc field t) =
   Some (map snd (filter (\<lambda>(u, k). (s, m) < (u, k) \<and> in_range None stop u) (tbl_index field t)))"
proof -
  have "in_range (Some (NewKey (up_start pre fenc kenc None (Some m) (Some s))))
          (Some (NewKey (up_stop pre fenc stop))) (index_key pre (fenc u) (kenc k)) =
        ((s, m) < (u, k) \<and> in_range None stop u)" for u k
    using above_entry [of pre u k]
    by (auto simp: in_range_def up_start_def up_stop_def entry_less_value entry_less_page
        not_less [symmetric] split: option.splits)
  then show ?thesis
    by (simp only: scan_up_def last_ok_def option.distinct simp_thms if_False
        iterate_entries [where P = "\<lambda>u k. (s, m) < (u, k) \<and> in_range None stop u"])
qed

lemma scan_down_page:
  "scan_down pre fenc kenc None stop (Some m) (Some s) (index_entries pre fenc kenc field t) =
   Some (rev (map snd (filter (\<lambda>(u, k). (u, k) \<le> (s, m) \<and> in_range stop None u) (tbl_index field t))))"
proof -
  have "in_range (Some (NewKey (down_stop pre fenc stop)))
          (Some (NewKey (down_start pre fenc kenc None (Some m) (Some s)))) (index_key pre (fenc u) (kenc k)) =
        ((u, k) \<le> (s, m) \<and> in_range stop None u)" for u k
    using below_entry [of pre u k]
    by (auto simp: in_range_def down_start_def down_stop_def entry_less_value entry_less_page
        not_less [symmetric] less_imp_le split: option.splits)
  then show ?thesis
    by (simp only: scan_down_def last_ok_def option.distinct simp_thms if_False if_True
        iterate_entries [where P = "\<lambda>u k. (u, k) \<le> (s, m) \<and> in_range stop None u"])
qed

lemma scan_down_page_from:
  "scan_down pre fenc kenc (Some u0) stop (Some m) (Some s) (index_entries pre fenc kenc field t) =
   Some (rev (map snd (filter (\<lambda>(u, k). (u, k) < (u0, m) \<and> in_range stop None u) (tbl_index field t))))"
proof -
  have "in_range (Some (NewKey (down_stop pre fenc stop)))
          (Some (NewKey (down_start pre fenc kenc (Some u0) (Some m) (Some s)))) (index_key pre (fenc u) (kenc k)) =
        ((u, k) < (u0, m) \<and> in_range stop None u)" for u k
    using below_entry [of pre u k] entry_less_iff [of pre u k u0 m]
    by (auto simp: in_range_def down_start_def down_stop_def entry_less_value index_key_def [symmetric]
        not_less [symmetric] less_imp_le split: option.splits)
  then show ?thesis
    by (simp only: scan_down_def last_ok_def option.distinct simp_thms if_False if_True
        iterate_entries [where P = "\<lambda>u k. (u, k) < (u0, m) \<and> in_range stop None u"])
qed

end

section \<open>The columns of the walked indices\<close>

definition name_enc :: "name \<Rightarrow> kval" where
  "name_enc n = KBytes (bytes_of_string n)"

definition bp_vest_enc :: "bool \<times> vest \<Rightarrow> kval" where
  "bp_vest_enc p = KSlice [KBool (fst p), KUint64 (snd p)]"

definition AccountVestTable :: u32 where "AccountVestTable = 2512254821"
definition AccountNextPowerdownBlockNumTable :: u32 where "AccountNextPowerdownBlockNumTable = 1928824877"
definition PostCashoutBlockNumTable :: u32 where "PostCashoutBlockNumTable = 1826021466"
definition VestDelegationDeliveryBlockTable :: u32 where "VestDelegationDeliveryBlockTable = 4292113245"
definition BlockProducerBpVestTable :: u32 where "BlockProducerBpVestTable = 3083635068"

interpretation u64_column: ope_column KUint64
  by unfold_locales (simp_all add: word_less_def)

interpretation name_column: ope_column name_enc
  by unfold_locales (simp_all add: name_enc_def bytes_of_string_less)

interpretation bp_vest_column: ope_column bp_vest_enc
  by unfold_locales (auto simp: bp_vest_enc_def word_less_def)

interpretation vest_index: index_columns KUint64 name_enc ..
interpretation num_index: index_columns KUint64 KUint64 ..
interpretation bp_index: index_columns bp_vest_enc name_enc ..

text \<open>C24. The byte-level scans are the table walks: for each index the chain logic walks (accounts by vesting shares and by next power-down block, posts by cash-out block, delegations by delivery block, producers by vote weight), scanning the encoded entries of the table between the encoded bounds calls the callback with exactly the main keys, in exactly the order, of the abstract walk over the rows.\<close>

theorem walks_are_byte_scans:
  "scan_down AccountVestTable KUint64 name_enc start stop None None
     (index_entries AccountVestTable KUint64 name_enc acc_Vest (db_accounts s)) =
   Some (ForEachByRevOrder acc_Vest start stop (db_accounts s)) \<and>
   scan_up AccountNextPowerdownBlockNumTable KUint64 name_enc start stop None None
     (index_entries AccountNextPowerdownBlockNumTable KUint64 name_enc acc_NextPowerdownBlockNum (db_accounts s)) =
   Some (ForEachByOrder acc_NextPowerdownBlockNum start stop (db_accounts s)) \<and>
   scan_up PostCashoutBlockNumTable KUint64 KUint64 start stop None None
     (index_entries PostCashoutBlockNumTable KUint64 KUint64 po_CashoutBlockNum (db_posts s)) =
   Some (ForEachByOrder po_CashoutBlockNum start stop (db_posts s)) \<and>
   scan_up VestDelegationDeliveryBlockTable KUint64 KUint64 start stop None None
     (index_entries VestDelegationDeliveryBlockTable KUint64 KUint64 vd_DeliveryBlock (db_delegations s)) =
   Some (ForEachByOrder vd_DeliveryBlock start stop (db_delegations s)) \<and>
   scan_down BlockProducerBpVestTable bp_vest_enc name_enc bstart bstop None None
     (index_entries BlockProducerBpVestTable bp_vest_enc name_enc bp_vest_key (db_producers s)) =
   Some (ForEachByRevOrder bp_vest_key bstart bstop (db_producers s))"
  by (intro conjI vest_index.scan_down_walk vest_index.scan_up_walk num_index.scan_up_walk
      bp_index.scan_down_walk)

section \<open>Paging\<close>

lemma sorted_split:
  assumes "sorted (xs @ x # ys)" and "distinct (xs @ x # ys)"
  shows "filter (\<lambda>y. x < y) (xs @ x # ys) = ys" "filter (\<lambda>y. y \<le> x) (xs @ x # ys) = xs @ [x]"
proof -
  have lt: "\<forall>y \<in> set xs. y < x" "\<forall>y \<in> set ys. x < y"
    using assms by (auto simp: sorted_append order_less_le)
  then have "filter (\<lambda>y. x < y) xs = []" "filter (\<lambda>y. x < y) ys = ys"
    "filter (\<lambda>y. y \<le> x) xs = xs" "filter (\<lambda>y. y \<le> x) ys = []"
    by (auto simp: filter_empty_conv not_less intro!: filter_True less_imp_le)
  then show "filter (\<lambda>y. x < y) (xs @ x # ys) = ys" "filter (\<lambda>y. y \<le> x) (xs @ x # ys) = xs @ [x]"
    by simp_all
qed

lemma sorted_index: "sorted (tbl_index field t)"
  by (simp add: tbl_index_def)

lemma distinct_index: "tbl_ok t \<Longrightarrow> distinct (tbl_index field t)"
  using distinct_index_keys distinct_map by blast

lemma unbounded [simp]: "in_range None None u"
  by (simp add: in_range_def)

text \<open>C25. The page after a row: an upward walk resumed after the last row of the previous page visits exactly the rows that follow it, while a downward walk resumed without a start value visits that last row once more before the rows below it.\<close>

theorem pages_continue:
  assumes "tbl_ok t" and "tbl_index field t = xs @ (u, k) # ys"
  shows "scan_up pre KUint64 name_enc None None (Some k) (Some u)
           (index_entries pre KUint64 name_enc field t) = Some (map snd ys) \<and>
         scan_down pre KUint64 name_enc None None (Some k) (Some u)
           (index_entries pre KUint64 name_enc field t) = Some (k # rev (map snd xs))"
proof -
  have "sorted (xs @ (u, k) # ys)" "distinct (xs @ (u, k) # ys)"
    using sorted_index [of field t] distinct_index [OF assms(1), of field] assms(2) by simp_all
  note split = sorted_split [OF this]
  have preds: "(\<lambda>(v, j). (u, k) < (v, j) \<and> in_range None None v) = (\<lambda>y. (u, k) < y)"
    "(\<lambda>(v, j). (v, j) \<le> (u, k) \<and> in_range None None v) = (\<lambda>y. y \<le> (u, k))" by auto
  show ?thesis
    unfolding vest_index.scan_up_page vest_index.scan_down_page preds assms(2) split by simp
qed

theorem pages_continue_witness:
  "scan_down 7 KUint64 name_enc None None (Some ''bob'') (Some 5)
     (index_entries 7 KUint64 name_enc (\<lambda>v. v) [(''bob'', 5), (''al'', 3)]) = Some [''bob'', ''al'']"
  using pages_continue [of "[(''bob'', 5), (''al'', 3)]" "\<lambda>v. v" "[(3, ''al'')]" 5 "''bob''" "[]" 7]
  by (simp add: tbl_ok_def tbl_index_def)

end
