(* ===== verification/ForkDB.thy ===== *)
theory ForkDB
  imports Blocks
begin

text \<open>
  The fork database (\<open>db/forkdb/forkdb.go\<close>): the tree of blocks above the last committed one, its
  head, and the blocks that wait for their parent. A block is known by what its interface returns:
  its id, the id of its parent and its time stamp. Go maps are tables; where the source walks over a
  map in the map's own order, the order of the table stands for it. The snapshot file is the list of
  the blocks in it. Locks and log lines are left out.
\<close>

section \<open>Blocks and state\<close>

record ISignedBlock =
  blk_Id :: hash
  blk_Previous :: hash
  blk_Timestamp :: u64

definition defaultSize :: u64 where
  "defaultSize = 1024 * 2"

datatype RetCode =
    RTDetached | RTDuplicated | RTPushedOnFork | RTPushedOnMain | RTInvalid | RTOutOfRange

record 'b forkdb =
  fk_start :: u64
  fk_head :: hash
  fk_lastCommitted :: hash
  fk_list :: "hash list list"
  fk_branches :: "(hash, 'b ISignedBlock_scheme) tbl"
  fk_detachedLink :: "(hash, 'b ISignedBlock_scheme) tbl"

definition NewDB :: "'b forkdb" where
  "NewDB = \<lparr>fk_start = 0, fk_head = zero_id, fk_lastCommitted = zero_id,
     fk_list = replicate (unat defaultSize + 1) [], fk_branches = [], fk_detachedLink = []\<rparr>"

definition forkdb_Reset :: "'b forkdb \<Rightarrow> 'b forkdb" where
  "forkdb_Reset db = db\<lparr>fk_start := 0, fk_head := zero_id, fk_lastCommitted := zero_id,
     fk_list := replicate (unat defaultSize + 1) [], fk_branches := [], fk_detachedLink := []\<rparr>"

text \<open>A slot of a slice of slices: reading it, and appending to it.\<close>

definition slot :: "'a list list \<Rightarrow> u64 \<Rightarrow> 'a list res" where
  "slot l i = (if unat i < length l then Inr (l ! unat i) else Inl (Assert ''index out of range''))"

definition slot_append :: "u64 \<Rightarrow> 'a \<Rightarrow> 'a list list \<Rightarrow> 'a list list res" where
  "slot_append i x l = rbind (slot l i) (\<lambda>s. Inr (l[unat i := s @ [x]]))"

definition fetchBlock :: "'b forkdb \<Rightarrow> hash \<Rightarrow> 'b ISignedBlock_scheme option" where
  "fetchBlock db bid = tbl_get (fk_branches db) bid"

definition forkdb_Head :: "'b forkdb \<Rightarrow> 'b ISignedBlock_scheme option" where
  "forkdb_Head db = (if fk_branches db = [] then None else tbl_get (fk_branches db) (fk_head db))"

definition forkdb_Empty :: "'b forkdb \<Rightarrow> bool" where
  "forkdb_Empty db = (fk_head db = zero_id \<or> fk_branches db = [])"

definition FetchBlockByNum :: "u64 \<Rightarrow> 'b forkdb \<Rightarrow> 'b ISignedBlock_scheme option list res" where
  "FetchBlockByNum num db =
     (if num < fk_start db \<or> num > BlockNum (fk_head db) then Inr []
      else rbind (slot (fk_list db) (num - fk_start db)) (\<lambda>ids. Inr (map (fetchBlock db) ids)))"

section \<open>Pushing blocks\<close>

definition tryNewHead :: "hash \<Rightarrow> 'b forkdb \<Rightarrow> 'b forkdb" where
  "tryNewHead bid db = (if BlockNum bid = BlockNum (fk_head db) + 1 then db\<lparr>fk_head := bid\<rparr> else db)"

text \<open>The block enters its slot and the map, and may become the head.\<close>

definition attach :: "'b ISignedBlock_scheme \<Rightarrow> 'b forkdb \<Rightarrow> 'b forkdb res" where
  "attach b db =
     rbind (slot_append (BlockNum (blk_Id b) - fk_start db) (blk_Id b) (fk_list db)) (\<lambda>l.
     Inr (tryNewHead (blk_Id b) (db\<lparr>fk_list := l, fk_branches := tbl_put (blk_Id b) b (fk_branches db)\<rparr>)))"

lemma length_tbl_del: "tbl_get t k = Some v \<Longrightarrow> length (tbl_del k t) < length t"
  by (induction t) (auto simp: tbl_get_Cons split: if_splits)

lemma attach_detachedLink: "attach b db = Inr db' \<Longrightarrow> fk_detachedLink db' = fk_detachedLink db"
  by (auto simp: attach_def tryNewHead_def rbind_Inr_iff)

function pushDetached :: "hash \<Rightarrow> 'b forkdb \<Rightarrow> 'b forkdb res" where
  "pushDetached bid db =
     (case tbl_get (fk_detachedLink db) bid of
        None \<Rightarrow> Inr db
      | Some b \<Rightarrow>
          (case attach b (db\<lparr>fk_detachedLink := tbl_del bid (fk_detachedLink db)\<rparr>) of
             Inl e \<Rightarrow> Inl e
           | Inr db' \<Rightarrow> pushDetached (blk_Id b) db'))"
  by pat_completeness auto

termination
  by (relation "measure (\<lambda>(bid, db). length (fk_detachedLink db))")
    (auto dest!: attach_detachedLink intro: length_tbl_del)

declare pushDetached.simps [simp del]

text \<open>No block is ever marked as illegal, so the check for it at the start has no effect.\<close>

definition pushBlock_db :: "'b ISignedBlock_scheme \<Rightarrow> 'b forkdb \<Rightarrow> ('b forkdb \<times> RetCode) res" where
  "pushBlock_db b db =
     (let bid = blk_Id b; oldHead = fk_head db; num = BlockNum bid in
      if fk_branches db = [] then
        rbind (slot_append 0 bid (fk_list db)) (\<lambda>l.
        Inr (db\<lparr>fk_head := bid, fk_start := num, fk_list := l, fk_branches := tbl_put bid b (fk_branches db)\<rparr>,
             RTPushedOnMain))
      else if fetchBlock db bid \<noteq> None then Inr (db, RTDuplicated)
      else if num > BlockNum (fk_head db) + 1 \<or> num \<le> fk_start db \<or>
              num - fk_start db \<ge> of_nat (length (fk_list db)) then Inr (db, RTOutOfRange)
      else if fetchBlock db (blk_Previous b) = None then
        Inr (db\<lparr>fk_detachedLink := tbl_put (blk_Previous b) b (fk_detachedLink db)\<rparr>, RTDetached)
      else
        rbind (attach b db) (\<lambda>db1.
        rbind (pushDetached bid db1) (\<lambda>db2.
        Inr (db2, if oldHead = blk_Previous b then RTPushedOnMain else RTPushedOnFork))))"

section \<open>Moving the head\<close>

definition Pop :: "'b forkdb \<Rightarrow> ('b forkdb \<times> 'b ISignedBlock_scheme) res" where
  "Pop db =
     (case tbl_get (fk_branches db) (fk_head db) of
        None \<Rightarrow> Inl NilDeref
      | Some ret \<Rightarrow> Inr (db\<lparr>fk_head := blk_Previous ret, fk_branches := tbl_del (fk_head db) (fk_branches db)\<rparr>, ret))"

record Rewind =
  rw_from :: hash
  rw_to :: hash

text \<open>\<open>RewindBranch\<close> moves the head first and remembers the head afterwards.\<close>

definition RewindBranch :: "hash \<Rightarrow> 'b forkdb \<Rightarrow> 'b forkdb \<times> Rewind" where
  "RewindBranch to db =
     (let db1 = db\<lparr>fk_head := to\<rparr> in (db1, \<lparr>rw_from = fk_head db1, rw_to = to\<rparr>))"

definition rw_ApplyBlock :: "hash \<Rightarrow> 'b forkdb \<Rightarrow> 'b forkdb" where
  "rw_ApplyBlock bid db = db\<lparr>fk_head := bid\<rparr>"

definition rw_Undo :: "Rewind \<Rightarrow> 'b forkdb \<Rightarrow> 'b forkdb" where
  "rw_Undo r db = db\<lparr>fk_head := rw_from r\<rparr>"

definition ResetHead :: "hash \<Rightarrow> 'b forkdb \<Rightarrow> 'b forkdb" where
  "ResetHead head db = db\<lparr>fk_head := head\<rparr>"

section \<open>Walking along branches\<close>

text \<open>
  The loops of \<open>FetchBranch\<close>. The first two go up from the block with the higher number; when a
  block is missing they append its id again and again and never end, which the value None stands
  for. The third goes up from both sides; it returns the error of a missing block.
\<close>

partial_function (option) climb ::
  "'b forkdb \<Rightarrow> u64 \<Rightarrow> hash \<Rightarrow> hash list \<Rightarrow> (hash \<times> hash list) option" where
  "climb db other tid ret =
     (if BlockNum tid > other
      then climb db other (case tbl_get (fk_branches db) tid of None \<Rightarrow> tid | Some b \<Rightarrow> blk_Previous b) (ret @ [tid])
      else Some (tid, ret))"

type_synonym branches = "hash list \<times> hash list"

partial_function (option) meet ::
  "'b forkdb \<Rightarrow> hash \<Rightarrow> hash \<Rightarrow> hash list \<Rightarrow> hash list \<Rightarrow> (branches \<times> string option) res option" where
  "meet db tid1 tid2 ret0 ret1 =
     (if tid1 \<noteq> tid2 \<and> BlockNum tid1 + defaultSize > BlockNum (fk_head db) then
        (case (fetchBlock db tid1, fetchBlock db tid2) of
           (Some b1, Some b2) \<Rightarrow> meet db (blk_Previous b1) (blk_Previous b2) (ret0 @ [tid1]) (ret1 @ [tid2])
         | _ \<Rightarrow> Some (Inr ((ret0 @ [tid1], ret1 @ [tid2]), Some ''[ForkDB] No block has id'')))
      else if tid1 = tid2 then Some (Inr ((ret0 @ [tid1], ret1 @ [tid2]), None))
      else Some (Inl (Assert ''[ForkDB] cannot find ancestor'')))"

definition FetchBranch :: "hash \<Rightarrow> hash \<Rightarrow> 'b forkdb \<Rightarrow> (branches \<times> string option) res option" where
  "FetchBranch id1 id2 db =
     (case climb db (BlockNum id2) id1 [] of
        None \<Rightarrow> None
      | Some (tid1, ret0) \<Rightarrow>
          (case climb db (BlockNum tid1) id2 [] of
             None \<Rightarrow> None
           | Some (tid2, ret1) \<Rightarrow> meet db tid1 tid2 ret0 ret1))"

partial_function (option) main_walk ::
  "'b forkdb \<Rightarrow> u64 \<Rightarrow> u64 \<Rightarrow> hash \<Rightarrow> 'b ISignedBlock_scheme option \<Rightarrow>
   (string + 'b ISignedBlock_scheme option) option" where
  "main_walk db num headNum cur ret =
     (if headNum \<ge> num then
        (case fetchBlock db cur of
           None \<Rightarrow> Some (Inl ''[ForkDB] No block has id'')
         | Some b \<Rightarrow> main_walk db num (BlockNum (blk_Previous b)) (blk_Previous b) (Some b))
      else Some (Inr ret))"

definition FetchBlockFromMainBranch ::
  "u64 \<Rightarrow> 'b forkdb \<Rightarrow> (string + 'b ISignedBlock_scheme option) option" where
  "FetchBlockFromMainBranch num db =
     (if num > BlockNum (fk_head db) \<or> num < fk_start db then Some (Inl ''[ForkDB] num out of scope'')
      else main_walk db num (BlockNum (fk_head db)) (fk_head db) None)"

text \<open>\<open>make\<close> with a length: a length beyond the address space panics.\<close>

definition makeslice :: "u64 \<Rightarrow> 'a option list res" where
  "makeslice n = (if n > 2 ^ 44 then Inl (Assert ''makeslice: len out of range'') else Inr (replicate (unat n) None))"

partial_function (option) main_fill ::
  "'b forkdb \<Rightarrow> u64 \<Rightarrow> u64 \<Rightarrow> hash \<Rightarrow> 'b ISignedBlock_scheme option list \<Rightarrow>
   (string + 'b ISignedBlock_scheme option list) res option" where
  "main_fill db num size_left cur ret =
     (if BlockNum cur \<ge> num then
        (case fetchBlock db cur of
           None \<Rightarrow> Some (Inr (Inl ''[ForkDB] No block has id''))
         | Some b \<Rightarrow>
             (if unat (size_left - 1) < length ret
              then main_fill db num (size_left - 1) (blk_Previous b) (ret[unat (size_left - 1) := Some b])
              else Some (Inl (Assert ''index out of range''))))
      else Some (Inr (Inr ret)))"

definition FetchBlocksFromMainBranch ::
  "u64 \<Rightarrow> 'b forkdb \<Rightarrow> (string + 'b ISignedBlock_scheme option list) res option" where
  "FetchBlocksFromMainBranch num0 db =
     (let num = (if num0 < BlockNum (fk_lastCommitted db) then BlockNum (fk_lastCommitted db) else num0);
          headNum = BlockNum (fk_head db) in
      if num > headNum then Some (Inr (Inl ''num out of range''))
      else case makeslice (headNum - num + 1) of
             Inl e \<Rightarrow> Some (Inl e)
           | Inr ret \<Rightarrow> main_fill db num (headNum - num + 1) (fk_head db) ret)"

text \<open>\<open>FetchBlocksSince\<close>: the loop counts down from the length, so it always ends.\<close>

fun since_loop :: "'b forkdb \<Rightarrow> nat \<Rightarrow> hash \<Rightarrow> 'b ISignedBlock_scheme list \<Rightarrow> 'b ISignedBlock_scheme list option" where
  "since_loop db 0 cur acc = Some acc"
| "since_loop db (Suc n) cur acc =
     (case fetchBlock db cur of
        None \<Rightarrow> None
      | Some b \<Rightarrow> since_loop db n (blk_Previous b) (b # acc))"

definition FetchBlocksSince :: "hash \<Rightarrow> 'b forkdb \<Rightarrow> (string + 'b ISignedBlock_scheme list) res" where
  "FetchBlocksSince id0 db =
     (let bid = (if BlockNum id0 < BlockNum (fk_lastCommitted db) then fk_lastCommitted db else id0);
          len = BlockNum (fk_head db) - BlockNum bid in
      if len = 0 then Inr (Inr [])
      else if len > 2 ^ 43 then Inl (Assert ''makeslice: len out of range'')
      else case since_loop db (unat len) (fk_head db) [] of
             None \<Rightarrow> Inr (Inl ''[ForkDB] No block has id'')
           | Some bs \<Rightarrow> (if blk_Previous (hd bs) \<noteq> bid then Inr (Inl ''block is not on main branch'')
                         else Inr (Inr bs)))"

section \<open>Committing and purging\<close>

text \<open>The blocks of one slot whose parent was kept in the slot before.\<close>

fun commit_slot ::
  "'b forkdb \<Rightarrow> hash list res \<Rightarrow> hash list \<Rightarrow> hash list \<Rightarrow> (hash, 'b ISignedBlock_scheme) tbl \<Rightarrow>
   (hash list \<times> (hash, 'b ISignedBlock_scheme) tbl) res" where
  "commit_slot db prevs [] kept nb = Inr (kept, nb)"
| "commit_slot db prevs (bid # ids) kept nb =
     (case fetchBlock db bid of
        None \<Rightarrow> commit_slot db prevs ids kept nb
      | Some b \<Rightarrow>
          rbind prevs (\<lambda>ps.
          if blk_Previous b \<in> set ps then commit_slot db prevs ids (kept @ [bid]) (tbl_put bid b nb)
          else commit_slot db prevs ids kept nb))"

fun commit_loop ::
  "nat \<Rightarrow> 'b forkdb \<Rightarrow> u64 \<Rightarrow> u64 \<Rightarrow> hash list list \<Rightarrow> (hash, 'b ISignedBlock_scheme) tbl \<Rightarrow>
   (hash list list \<times> (hash, 'b ISignedBlock_scheme) tbl) res" where
  "commit_loop 0 db commitNum startNum nl nb = Inr (nl, nb)"
| "commit_loop (Suc n) db commitNum startNum nl nb =
     rbind (slot (fk_list db) (startNum - fk_start db)) (\<lambda>ids.
     rbind (commit_slot db (slot nl (startNum - commitNum - 1)) ids [] nb) (\<lambda>(kept, nb1).
     rbind (if kept = [] then Inr nl
            else rbind (slot nl (startNum - commitNum)) (\<lambda>s. Inr (nl[unat (startNum - commitNum) := s @ kept]))) (\<lambda>nl1.
     commit_loop n db commitNum (startNum + 1) nl1 nb1)))"

definition purgeDetached :: "u64 \<Rightarrow> 'b forkdb \<Rightarrow> 'b forkdb" where
  "purgeDetached commitNum db =
     db\<lparr>fk_detachedLink := filter (\<lambda>(k, v). \<not> BlockNum (blk_Id v) \<le> commitNum) (fk_detachedLink db)\<rparr>"

definition forkdb_Commit :: "hash \<Rightarrow> 'b forkdb \<Rightarrow> 'b forkdb res" where
  "forkdb_Commit bid db =
     (case fetchBlock db bid of
        None \<Rightarrow> Inl (Assert ''tried to commit a detached or non-exist block'')
      | Some b \<Rightarrow>
          let commitNum = BlockNum bid;
              nl0 = (replicate (unat defaultSize + 1) [])[0 := [bid]];
              endNum = BlockNum (fk_head db);
              rounds = (if commitNum + 1 \<le> endNum then unat (endNum - (commitNum + 1)) + 1 else 0) in
          rbind (commit_loop rounds db commitNum (commitNum + 1) nl0 [(bid, b)]) (\<lambda>(nl, nb).
          Inr (purgeDetached commitNum
                 (db\<lparr>fk_list := nl, fk_branches := nb, fk_start := commitNum, fk_lastCommitted := bid\<rparr>))))"

definition PurgeBranch :: "'b forkdb \<Rightarrow> 'b forkdb" where
  "PurgeBranch db =
     (let headNum = BlockNum (fk_head db) in
      db\<lparr>fk_branches := filter (\<lambda>(k, v). \<not> BlockNum k > headNum) (fk_branches db),
         fk_list := map (\<lambda>(i, l). if unat (headNum + 1 - fk_start db) \<le> i \<and> i < unat defaultSize then [] else l)
                      (enumerate 0 (fk_list db)),
         fk_detachedLink := []\<rparr>)"

section \<open>Detached blocks and the snapshot\<close>

definition fetchUnlinkBlockById :: "hash \<Rightarrow> 'b forkdb \<Rightarrow> 'b ISignedBlock_scheme option" where
  "fetchUnlinkBlockById bid db = find (\<lambda>v. blk_Id v = bid) (map snd (fk_detachedLink db))"

partial_function (option) unlink_walk :: "'b forkdb \<Rightarrow> hash \<Rightarrow> hash option" where
  "unlink_walk db firstKey =
     (case fetchUnlinkBlockById firstKey db of
        None \<Rightarrow> Some firstKey
      | Some b \<Rightarrow> unlink_walk db (blk_Previous b))"

definition FetchUnlinkBlockTail :: "'b forkdb \<Rightarrow> (string + hash) option" where
  "FetchUnlinkBlockTail db =
     (case fk_detachedLink db of
        [] \<Rightarrow> Some (Inl ''No More Unlinked block'')
      | (k, v) # _ \<Rightarrow> map_option Inr (unlink_walk db (blk_Previous v)))"

text \<open>\<open>Snapshot\<close> writes the slots up to that of the head; an id without a block panics.\<close>

fun fetch_all :: "'b forkdb \<Rightarrow> hash list \<Rightarrow> 'b ISignedBlock_scheme list res" where
  "fetch_all db [] = Inr []"
| "fetch_all db (bid # ids) =
     (case fetchBlock db bid of
        None \<Rightarrow> Inl (Assert ''[ForkDB] No block has id'')
      | Some b \<Rightarrow> rbind (fetch_all db ids) (\<lambda>bs. Inr (b # bs)))"

definition Snapshot :: "'b forkdb \<Rightarrow> 'b ISignedBlock_scheme list res" where
  "Snapshot db =
     (let n = (if fk_start db \<le> BlockNum (fk_head db) then unat (BlockNum (fk_head db) - fk_start db) + 1 else 0) in
      if n \<le> length (fk_list db) then fetch_all db (concat (take n (fk_list db)))
      else rbind (fetch_all db (concat (fk_list db))) (\<lambda>bs. Inl (Assert ''index out of range'')))"

fun push_all :: "'b ISignedBlock_scheme list \<Rightarrow> 'b forkdb \<Rightarrow> 'b forkdb res" where
  "push_all [] db = Inr db"
| "push_all (b # bs) db = rbind (pushBlock_db b db) (\<lambda>(db1, rc). push_all bs db1)"

text \<open>
  \<open>LoadSnapshot\<close>: the last block of the block log, if there is one, and the blocks of the snapshot,
  if it can be opened and is not empty.
\<close>

definition LoadSnapshot ::
  "'b ISignedBlock_scheme option \<Rightarrow> 'b ISignedBlock_scheme list option \<Rightarrow> 'b forkdb \<Rightarrow> 'b forkdb res" where
  "LoadSnapshot lastCommittedBlock snapshot db =
     (let db0 = forkdb_Reset db;
          restore = (\<lambda>b. rbind (pushBlock_db b db0) (\<lambda>(db1, rc). Inr (db1\<lparr>fk_lastCommitted := blk_Id b\<rparr>))) in
      case snapshot of
        None \<Rightarrow> (case lastCommittedBlock of None \<Rightarrow> Inr db0 | Some b \<Rightarrow> restore b)
      | Some [] \<Rightarrow> (case lastCommittedBlock of None \<Rightarrow> Inr db0 | Some b \<Rightarrow> restore b)
      | Some (b0 # bs) \<Rightarrow>
          rbind (push_all (b0 # bs) db0) (\<lambda>db1.
          case lastCommittedBlock of
            Some b \<Rightarrow> (if blk_Id b \<noteq> blk_Id b0 then restore b else Inr (db1\<lparr>fk_lastCommitted := blk_Id b\<rparr>))
          | None \<Rightarrow> (if BlockNum (blk_Id b0) \<noteq> 1 then Inr (forkdb_Reset db1) else Inr db1)))"

end
