(* ===== verification/ForkTree.thy ===== *)
theory ForkTree
  imports ForkDB
begin

text \<open>
  The fork database as a tree: every block it knows leads, parent by parent and number by number, to
  the block the tree starts with; the head is one of the blocks (\<open>fork_tree\<close>), and one with the highest
  number unless it was rewound (\<open>head_top\<close>); blocks wait only for parents that are not known. The
  theory shows that pushing and committing keep this, that pushing never panics, and that committing
  keeps exactly the descendants of the committed block up to the head.
\<close>

section \<open>The tree\<close>

definition numbered :: "'b ISignedBlock_scheme \<Rightarrow> bool" where
  "numbered b = (BlockNum (blk_Id b) = BlockNum (blk_Previous b) + 1)"

definition known :: "'b forkdb \<Rightarrow> hash \<Rightarrow> bool" where
  "known db x = (fetchBlock db x \<noteq> None)"

definition parent :: "'b forkdb \<Rightarrow> hash \<Rightarrow> hash" where
  "parent db x = (case fetchBlock db x of None \<Rightarrow> x | Some b \<Rightarrow> blk_Previous b)"

definition up :: "'b forkdb \<Rightarrow> nat \<Rightarrow> hash \<Rightarrow> hash" where
  "up db n x = (parent db ^^ n) x"

definition is_anc :: "'b forkdb \<Rightarrow> hash \<Rightarrow> hash \<Rightarrow> bool" where
  "is_anc db a x = (\<exists>n. up db n x = a)"

abbreviation level :: "hash \<Rightarrow> nat" where
  "level x \<equiv> unat (BlockNum x)"

abbreviation slots :: nat where
  "slots \<equiv> unat defaultSize + 1"

definition fork_tree :: "hash \<Rightarrow> 'b forkdb \<Rightarrow> bool" where
  "fork_tree root db =
     (tbl_ok (fk_branches db) \<and> tbl_ok (fk_detachedLink db) \<and> length (fk_list db) = slots \<and>
      known db root \<and> BlockNum root = fk_start db \<and> known db (fk_head db) \<and>
      (\<forall>x b. fetchBlock db x = Some b \<longrightarrow>
         blk_Id b = x \<and> numbered b \<and> level root \<le> level x \<and> level x - level root < slots \<and>
         x \<in> set (fk_list db ! (level x - level root)) \<and>
         (x = root \<or> level root < level x \<and> known db (blk_Previous b))) \<and>
      (\<forall>i < slots. \<forall>x \<in> set (fk_list db ! i). level x = level root + i) \<and>
      (\<forall>p b. tbl_get (fk_detachedLink db) p = Some b \<longrightarrow>
         blk_Previous b = p \<and> numbered b \<and> level root < level (blk_Id b) \<and>
         level (blk_Id b) - level root < slots))"

definition head_top :: "'b forkdb \<Rightarrow> bool" where
  "head_top db = (\<forall>x. known db x \<longrightarrow> level x \<le> level (fk_head db))"

text \<open>No waiting block has a known parent, except possibly \<open>x\<close>.\<close>

definition waiting_but :: "hash option \<Rightarrow> 'b forkdb \<Rightarrow> bool" where
  "waiting_but x db = (\<forall>p b. tbl_get (fk_detachedLink db) p = Some b \<longrightarrow> known db p \<longrightarrow> x = Some p)"

lemma defaultSize_nat [simp]: "unat defaultSize = 2048"
  by (simp add: defaultSize_def)

lemma fork_treeD:
  assumes "fork_tree root db"
  shows "tbl_ok (fk_branches db)" and "tbl_ok (fk_detachedLink db)" and "length (fk_list db) = slots"
    and "known db root" and "BlockNum root = fk_start db" and "known db (fk_head db)"
  using assms unfolding fork_tree_def by blast+

lemma fork_tree_block:
  assumes "fork_tree root db" and "fetchBlock db x = Some b"
  shows "blk_Id b = x" and "numbered b" and "level root \<le> level x" and "level x - level root < slots"
    and "x \<in> set (fk_list db ! (level x - level root))"
    and "x \<noteq> root \<Longrightarrow> level root < level x" and "x \<noteq> root \<Longrightarrow> known db (blk_Previous b)"
  using assms unfolding fork_tree_def by blast+

lemma fork_tree_slot:
  "fork_tree root db \<Longrightarrow> i < slots \<Longrightarrow> x \<in> set (fk_list db ! i) \<Longrightarrow> level x = level root + i"
  unfolding fork_tree_def by blast

lemma fork_tree_waiting:
  assumes "fork_tree root db" and "tbl_get (fk_detachedLink db) p = Some b"
  shows "blk_Previous b = p" and "numbered b" and "level root < level (blk_Id b)"
    and "level (blk_Id b) - level root < slots"
  using assms unfolding fork_tree_def by blast+

lemma fork_treeI:
  assumes "tbl_ok (fk_branches db)" and "tbl_ok (fk_detachedLink db)" and "length (fk_list db) = slots"
    and "known db root" and "BlockNum root = fk_start db" and "known db (fk_head db)"
    and "\<And>x b. fetchBlock db x = Some b \<Longrightarrow>
         blk_Id b = x \<and> numbered b \<and> level root \<le> level x \<and> level x - level root < slots \<and>
         x \<in> set (fk_list db ! (level x - level root)) \<and>
         (x = root \<or> level root < level x \<and> known db (blk_Previous b))"
    and "\<And>i x. i < slots \<Longrightarrow> x \<in> set (fk_list db ! i) \<Longrightarrow> level x = level root + i"
    and "\<And>p b. tbl_get (fk_detachedLink db) p = Some b \<Longrightarrow>
         blk_Previous b = p \<and> numbered b \<and> level root < level (blk_Id b) \<and>
         level (blk_Id b) - level root < slots"
  shows "fork_tree root db"
  unfolding fork_tree_def using assms by blast

lemma unat_suc_word: "w = v + 1 \<Longrightarrow> 0 < unat w \<Longrightarrow> unat w = Suc (unat v)" for w v :: u64
  by (metis add.commute less_irrefl unatSuc unat_0)

lemma numbered_level: "numbered b \<Longrightarrow> 0 < level (blk_Id b) \<Longrightarrow> level (blk_Id b) = Suc (level (blk_Previous b))"
  unfolding numbered_def by (rule unat_suc_word)

lemma level_sub: "level y \<le> level x \<Longrightarrow> unat (BlockNum x - BlockNum y) = level x - level y"
  by (simp add: unat_sub word_le_nat_alt)

lemma parent_level:
  assumes "fork_tree root db" and "known db x" and "x \<noteq> root"
  shows "known db (parent db x)" and "level x = Suc (level (parent db x))"
proof -
  obtain b where b: "fetchBlock db x = Some b" using assms(2) by (auto simp: known_def)
  note t = fork_tree_block [OF assms(1) b]
  show "known db (parent db x)" using t(7) assms(3) b by (simp add: parent_def)
  show "level x = Suc (level (parent db x))"
    using numbered_level [OF t(2)] t(1) t(6) assms(3) b by (simp add: parent_def)
qed

lemma root_unique:
  assumes "fork_tree root db" and "known db x" and "level x = level root"
  shows "x = root"
proof (rule ccontr)
  assume "x \<noteq> root"
  moreover obtain b where "fetchBlock db x = Some b" using assms(2) by (auto simp: known_def)
  ultimately have "level root < level x" using fork_tree_block(6) [OF assms(1)] by blast
  then show False using assms(3) by simp
qed

lemma up_simps [simp]: "up db 0 x = x" "up db (Suc n) x = up db n (parent db x)"
  by (simp_all add: up_def funpow_Suc_right del: funpow.simps(2))

lemma up_Suc: "up db (Suc n) x = parent db (up db n x)"
  by (simp add: up_def)

lemma up_add: "up db (m + n) x = up db m (up db n x)"
  by (simp add: up_def funpow_add)

lemma up_level:
  assumes "fork_tree root db" and "known db x" and "n \<le> level x - level root"
  shows "known db (up db n x)" and "level (up db n x) + n = level x"
proof -
  have "known db (up db n x) \<and> level (up db n x) + n = level x" using assms(3)
  proof (induction n)
    case (Suc n)
    then have IH: "known db (up db n x)" "level (up db n x) + n = level x" by simp_all
    have "level root \<le> level x" using fork_tree_block(3) [OF assms(1)] assms(2) by (auto simp: known_def)
    then have "up db n x \<noteq> root" using IH(2) Suc.prems by auto
    from parent_level [OF assms(1) IH(1) this] IH(2) show ?case by (simp add: up_Suc del: up_simps)
  qed (use assms(2) in simp)
  then show "known db (up db n x)" "level (up db n x) + n = level x" by simp_all
qed

text \<open>Every known block leads to the root.\<close>

lemma up_root:
  assumes "fork_tree root db" and "known db x"
  shows "up db (level x - level root) x = root"
proof -
  have le: "level root \<le> level x" using fork_tree_block(3) [OF assms(1)] assms(2) by (auto simp: known_def)
  note u = up_level [OF assms le_refl]
  have "level (up db (level x - level root) x) = level root" using u(2) le by simp
  then show ?thesis by (rule root_unique [OF assms(1) u(1)])
qed

section \<open>Pushing\<close>

lemma fetchBlock_update [simp]:
  "fetchBlock (db\<lparr>fk_list := l\<rparr>) x = fetchBlock db x" "fetchBlock (db\<lparr>fk_head := h\<rparr>) x = fetchBlock db x"
  "fetchBlock (db\<lparr>fk_detachedLink := d\<rparr>) x = fetchBlock db x"
  "fetchBlock (db\<lparr>fk_lastCommitted := c\<rparr>) x = fetchBlock db x"
  "fetchBlock (db\<lparr>fk_branches := t\<rparr>) x = tbl_get t x"
  by (simp_all add: fetchBlock_def)

lemma known_update [simp]:
  "known (db\<lparr>fk_head := h\<rparr>) x = known db x" "known (db\<lparr>fk_detachedLink := d\<rparr>) x = known db x"
  "known (db\<lparr>fk_lastCommitted := c\<rparr>) x = known db x"
  by (simp_all add: known_def)

lemma fork_tree_detached:
  assumes tree: "fork_tree root db" and "tbl_ok d"
    and "\<And>p b. tbl_get d p = Some b \<Longrightarrow> blk_Previous b = p \<and> numbered b \<and> level root < level (blk_Id b) \<and>
         level (blk_Id b) - level root < slots"
  shows "fork_tree root (db\<lparr>fk_detachedLink := d\<rparr>)"
proof (rule fork_treeI)
  show "blk_Id b = x \<and> numbered b \<and> level root \<le> level x \<and> level x - level root < slots \<and>
         x \<in> set (fk_list (db\<lparr>fk_detachedLink := d\<rparr>) ! (level x - level root)) \<and>
         (x = root \<or> level root < level x \<and> known (db\<lparr>fk_detachedLink := d\<rparr>) (blk_Previous b))"
    if "fetchBlock (db\<lparr>fk_detachedLink := d\<rparr>) x = Some b" for x b
    using that fork_tree_block [OF tree, of x b] by auto
  show "level x = level root + i" if "i < slots" "x \<in> set (fk_list (db\<lparr>fk_detachedLink := d\<rparr>) ! i)" for i x
    using that fork_tree_slot [OF tree] by simp
qed (use assms fork_treeD [OF tree] in simp_all)

lemma slot_append_ok: "unat i < length l \<Longrightarrow> slot_append i x l = Inr (l[unat i := l ! unat i @ [x]])"
  by (simp add: slot_append_def slot_def)

lemma attach_tree:
  assumes tree: "fork_tree root db" and num: "numbered b" and par: "known db (blk_Previous b)"
    and lo: "level root < level (blk_Id b)" and hi: "level (blk_Id b) - level root < slots"
  obtains db' where "attach b db = Inr db'" and "fork_tree root db'" and "head_top db \<Longrightarrow> head_top db'"
    and "\<And>x. fetchBlock db' x = (if x = blk_Id b then Some b else fetchBlock db x)"
    and "fk_detachedLink db' = fk_detachedLink db"
    and "fk_head db' = (if level (blk_Id b) = Suc (level (fk_head db)) then blk_Id b else fk_head db)"
    and "fk_lastCommitted db' = fk_lastCommitted db" and "fk_start db' = fk_start db"
proof -
  note t = fork_treeD [OF tree]
  let ?x = "blk_Id b" and ?i = "level (blk_Id b) - level root"
  define l where "l = (fk_list db)[?i := fk_list db ! ?i @ [?x]]"
  define db2 where "db2 = tryNewHead ?x (db\<lparr>fk_list := l, fk_branches := tbl_put ?x b (fk_branches db)\<rparr>)"
  have idx: "unat (BlockNum ?x - fk_start db) = ?i" using level_sub [of root ?x] lo t(5) by simp
  have run: "attach b db = Inr db2" using slot_append_ok [of "BlockNum ?x - fk_start db" "fk_list db" ?x] idx hi t(3) by (simp add: attach_def l_def db2_def)
  have lev: "level ?x = Suc (level (blk_Previous b))" using numbered_level [OF num] lo by simp
  have nh: "BlockNum ?x = BlockNum (fk_head db) + 1 \<longleftrightarrow> level ?x = Suc (level (fk_head db))"
  proof
    assume "BlockNum ?x = BlockNum (fk_head db) + 1"
    from unat_suc_word [OF this] lo show "level ?x = Suc (level (fk_head db))" by simp
  next
    assume "level ?x = Suc (level (fk_head db))"
    then have "unat (BlockNum ?x) = unat (BlockNum (fk_head db) + 1)"
      using unat_add_no_wrap [of "BlockNum (fk_head db)" 1] unat_64_less [of "BlockNum ?x"] by simp
    then show "BlockNum ?x = BlockNum (fk_head db) + 1" by (simp add: word_unat_eq_iff)
  qed
  have get: "fetchBlock db2 y = (if y = ?x then Some b else fetchBlock db y)" for y
    by (simp add: db2_def tryNewHead_def fetchBlock_def tbl_get_put)
  have fr: "fk_detachedLink db2 = fk_detachedLink db" "fk_lastCommitted db2 = fk_lastCommitted db"
    "fk_start db2 = fk_start db" "fk_list db2 = l" "fk_branches db2 = tbl_put ?x b (fk_branches db)"
    by (simp_all add: db2_def tryNewHead_def)
  have hd: "fk_head db2 = (if level ?x = Suc (level (fk_head db)) then ?x else fk_head db)"
    using nh by (simp add: db2_def tryNewHead_def)
  have kn: "known db2 y = (y = ?x \<or> known db y)" for y by (simp add: known_def get)
  have top': "head_top db2" if top: "head_top db"
  proof -
    have "level ?x \<le> Suc (level (fk_head db))" using lev top par by (simp add: head_top_def)
    then show ?thesis using top by (auto simp: head_top_def kn hd)
  qed
  have blocks: "blk_Id c = y \<and> numbered c \<and> level root \<le> level y \<and> level y - level root < slots \<and>
      y \<in> set (l ! (level y - level root)) \<and> (y = root \<or> level root < level y \<and> known db2 (blk_Previous c))"
    if "fetchBlock db2 y = Some c" for y c
  proof (cases "y = ?x")
    case True
    then have c: "c = b" using that by (simp add: get)
    show ?thesis unfolding c True using num par lo hi t(3) by (simp add: kn l_def)
  next
    case False
    then have c: "fetchBlock db y = Some c" using that by (simp add: get)
    note o = fork_tree_block [OF tree c]
    have "y \<in> set (l ! (level y - level root))"
      unfolding l_def using o(4,5) hi t(3) by (cases "level y - level root = ?i") simp_all
    then show ?thesis using o kn [of "blk_Previous c"] by auto
  qed
  have lists: "level y = level root + i" if "i < slots" "y \<in> set (l ! i)" for i y
  proof -
    have "y \<in> set (fk_list db ! i) \<or> i = ?i \<and> y = ?x"
      using that t(3) hi by (auto simp: l_def nth_list_update split: if_splits)
    then show ?thesis
    proof
      assume "y \<in> set (fk_list db ! i)"
      then show ?thesis by (rule fork_tree_slot [OF tree that(1)])
    qed (use lo in simp)
  qed
  have "fork_tree root db2"
  proof (rule fork_treeI)
    show "blk_Previous c = p \<and> numbered c \<and> level root < level (blk_Id c) \<and> level (blk_Id c) - level root < slots"
      if "tbl_get (fk_detachedLink db2) p = Some c" for p c
      using that fork_tree_waiting [OF tree, of p c] by (simp add: fr)
      show "length (fk_list db2) = slots" using t(3) by (simp add: fr l_def)
    show "blk_Id c = y \<and> numbered c \<and> level root \<le> level y \<and> level y - level root < slots \<and>
      y \<in> set (fk_list db2 ! (level y - level root)) \<and> (y = root \<or> level root < level y \<and> known db2 (blk_Previous c))"
      if "fetchBlock db2 y = Some c" for y c
      using blocks [OF that] unfolding fr(4) .
    show "level y = level root + i" if "i < slots" "y \<in> set (fk_list db2 ! i)" for i y
      using lists that unfolding fr(4) .
  qed (use t in \<open>simp_all add: fr kn hd tbl_ok_put\<close>)
  from that [OF run this top' get fr(1) hd fr(2,3)] show thesis .
qed

text \<open>The loop that attaches the blocks that were waiting.\<close>

lemma pushDetached_tree:
  assumes "fork_tree root db" and "known db bid" and "waiting_but (Some bid) db"
  shows "\<exists>db'. pushDetached bid db = Inr db' \<and> fork_tree root db' \<and> (head_top db \<longrightarrow> head_top db') \<and> waiting_but None db' \<and>
    (\<forall>x. known db x \<longrightarrow> known db' x) \<and> fk_lastCommitted db' = fk_lastCommitted db \<and> fk_start db' = fk_start db \<and>
    (tbl_get (fk_detachedLink db) bid = None \<longrightarrow> db' = db)"
  using assms
proof (induction bid db rule: pushDetached.induct)
  case (1 bid db)
  show ?case
  proof (cases "tbl_get (fk_detachedLink db) bid")
    case None
    then have "pushDetached bid db = Inr db" by (simp add: pushDetached.simps)
    moreover have "waiting_but None db" using 1(4) None by (auto simp: waiting_but_def)
    ultimately show ?thesis using 1(2) by blast
  next
    case (Some b)
    let ?db = "db\<lparr>fk_detachedLink := tbl_del bid (fk_detachedLink db)\<rparr>"
    note w = fork_tree_waiting [OF 1(2) Some]
    have ok: "tbl_ok (fk_detachedLink db)" by (rule fork_treeD [OF 1(2)])
    have del: "tbl_get (tbl_del bid (fk_detachedLink db)) p = (if p = bid then None else tbl_get (fk_detachedLink db) p)" for p
      using tbl_get_del [OF ok] .
    have tree: "fork_tree root ?db"
      using fork_tree_waiting [OF 1(2)] by (intro fork_tree_detached [OF 1(2)]) (auto simp: del tbl_ok_del ok split: if_splits)
    have top: "head_top ?db = head_top db" by (simp add: head_top_def)
    obtain db' where a: "attach b ?db = Inr db'" "fork_tree root db'" "head_top db \<Longrightarrow> head_top db'"
      "\<And>x. fetchBlock db' x = (if x = blk_Id b then Some b else fetchBlock ?db x)"
      "fk_detachedLink db' = fk_detachedLink ?db" "fk_lastCommitted db' = fk_lastCommitted ?db" "fk_start db' = fk_start ?db"
      by (rule attach_tree [OF tree w(2) _ w(3,4)]) (use w(1) 1(3) top in auto)
    have kn: "known db' x = (x = blk_Id b \<or> known db x)" for x using a(4) by (simp add: known_def)
    have "waiting_but (Some (blk_Id b)) db'"
      using 1(4) unfolding waiting_but_def a(5) kn by (auto simp: del split: if_splits)
    from 1(1) [OF Some a(1) a(2) _ this] kn
    obtain db2 where "pushDetached (blk_Id b) db' = Inr db2" "fork_tree root db2" "head_top db' \<longrightarrow> head_top db2" "waiting_but None db2"
      "\<forall>x. known db' x \<longrightarrow> known db2 x" "fk_lastCommitted db2 = fk_lastCommitted db'" "fk_start db2 = fk_start db'"
      by auto
    moreover from this have "pushDetached bid db = Inr db2" using Some a(1) by (simp add: pushDetached.simps)
    ultimately show ?thesis using a(3,6,7) kn Some by auto
  qed
qed

definition fork_ok :: "'b forkdb \<Rightarrow> bool" where
  "fork_ok db = ((\<exists>root. fork_tree root db) \<and> head_top db \<and> waiting_but None db)"

lemma fork_tree_nonempty: "fork_tree root db \<Longrightarrow> fk_branches db \<noteq> []"
  using fork_treeD(4) [of root db] by (auto simp: known_def fetchBlock_def)

text \<open>Pushing a block never panics and keeps the tree.\<close>

lemma pushBlock_tree:
  assumes tree: "fork_tree root db" and wait: "waiting_but None db" and num: "numbered b"
  shows "\<exists>db' rc. pushBlock_db b db = Inr (db', rc) \<and> fork_tree root db' \<and> (head_top db \<longrightarrow> head_top db') \<and> waiting_but None db' \<and>
    (\<forall>x. known db x \<longrightarrow> known db' x) \<and> fk_lastCommitted db' = fk_lastCommitted db \<and> fk_start db' = fk_start db"
proof -
  note t = fork_treeD [OF tree]
  let ?num = "BlockNum (blk_Id b)"
  consider "known db (blk_Id b)"
    | "\<not> known db (blk_Id b)" "?num > BlockNum (fk_head db) + 1 \<or> ?num \<le> fk_start db \<or> ?num - fk_start db \<ge> of_nat (length (fk_list db))"
    | "\<not> known db (blk_Id b)" "\<not> (?num > BlockNum (fk_head db) + 1 \<or> ?num \<le> fk_start db \<or> ?num - fk_start db \<ge> of_nat (length (fk_list db)))"
    by blast
  then show ?thesis
  proof cases
    case 1
    then have "pushBlock_db b db = Inr (db, RTDuplicated)"
      using fork_tree_nonempty [OF tree] by (simp add: pushBlock_db_def Let_def known_def)
    with tree wait show ?thesis by blast
  next
    case 2
    then have "pushBlock_db b db = Inr (db, RTOutOfRange)"
      using fork_tree_nonempty [OF tree] by (simp add: pushBlock_db_def Let_def known_def)
    with tree wait show ?thesis by blast
  next
    case 3
    have lo: "level root < level (blk_Id b)" using 3(2) t(5) by (simp add: word_le_nat_alt)
    then have "unat (?num - fk_start db) = level (blk_Id b) - level root" using level_sub [of root "blk_Id b"] t(5) by simp
    moreover have "unat (of_nat (length (fk_list db)) :: u64) = slots" using t(3) by (simp add: unat_of_nat)
    ultimately have hi: "level (blk_Id b) - level root < slots" using 3(2) by (auto simp: word_le_nat_alt)
    show ?thesis
    proof (cases "known db (blk_Previous b)")
      case False
      let ?db = "db\<lparr>fk_detachedLink := tbl_put (blk_Previous b) b (fk_detachedLink db)\<rparr>"
      have "pushBlock_db b db = Inr (?db, RTDetached)"
        using fork_tree_nonempty [OF tree] 3 False by (simp add: pushBlock_db_def Let_def known_def)
      moreover have "fork_tree root ?db"
        using fork_tree_waiting [OF tree] num lo hi t(2)
        by (intro fork_tree_detached [OF tree]) (auto simp: tbl_ok_put tbl_get_put split: if_splits)
      moreover have "head_top db \<longrightarrow> head_top ?db" "waiting_but None ?db"
        using wait False by (auto simp: head_top_def waiting_but_def tbl_get_put)
      ultimately show ?thesis by auto
    next
      case True
      obtain db1 where a: "attach b db = Inr db1" "fork_tree root db1" "head_top db \<Longrightarrow> head_top db1"
        "\<And>x. fetchBlock db1 x = (if x = blk_Id b then Some b else fetchBlock db x)"
        "fk_detachedLink db1 = fk_detachedLink db" "fk_lastCommitted db1 = fk_lastCommitted db" "fk_start db1 = fk_start db"
        by (rule attach_tree [OF tree num True lo hi]) blast
      have kn: "known db1 x = (x = blk_Id b \<or> known db x)" for x using a(4) by (simp add: known_def)
      have "waiting_but (Some (blk_Id b)) db1" using wait by (auto simp: waiting_but_def a(5) kn)
      from pushDetached_tree [OF a(2) _ this] kn
      obtain db2 where "pushDetached (blk_Id b) db1 = Inr db2" "fork_tree root db2" "head_top db1 \<longrightarrow> head_top db2" "waiting_but None db2"
        "\<forall>x. known db1 x \<longrightarrow> known db2 x" "fk_lastCommitted db2 = fk_lastCommitted db1" "fk_start db2 = fk_start db1" by auto
      moreover have "pushBlock_db b db = rbind (pushDetached (blk_Id b) db1)
          (\<lambda>db2. Inr (db2, if fk_head db = blk_Previous b then RTPushedOnMain else RTPushedOnFork))"
        using fork_tree_nonempty [OF tree] 3 True a(1) by (auto simp: pushBlock_db_def Let_def known_def)
      ultimately show ?thesis using a(3,6,7) kn by auto
    qed
  qed
qed

text \<open>The first block.\<close>

lemma pushBlock_first:
  assumes "numbered b"
  shows "\<exists>db. pushBlock_db b NewDB = Inr (db, RTPushedOnMain) \<and> fork_tree (blk_Id b) db \<and> head_top db \<and> waiting_but None db"
proof -
  let ?l = "(replicate slots [])[0 := [blk_Id b]]"
  let ?db = "(NewDB :: 'a forkdb)\<lparr>fk_head := blk_Id b, fk_start := BlockNum (blk_Id b), fk_list := ?l,
      fk_branches := [(blk_Id b, b)]\<rparr>"
  have "pushBlock_db b NewDB = Inr (?db, RTPushedOnMain)"
    by (simp add: pushBlock_db_def Let_def NewDB_def slot_append_ok)
  moreover have kn: "known ?db x = (x = blk_Id b)" for x by (simp add: known_def tbl_get_Cons fetchBlock_def)
  moreover have "fork_tree (blk_Id b) ?db"
  proof (rule fork_treeI)
    show "level x = level (blk_Id b) + i" if "i < slots" "x \<in> set (fk_list ?db ! i)" for i x
      using that by (cases i) (simp_all add: nth_list_update)
  qed (use assms in \<open>auto simp: known_def fetchBlock_def tbl_get_Cons tbl_ok_def NewDB_def split: if_splits\<close>)
  ultimately show ?thesis by (auto simp: head_top_def waiting_but_def kn NewDB_def)
qed

section \<open>Ancestors\<close>

lemma is_anc_self [simp]: "is_anc db x x"
  unfolding is_anc_def by (rule exI [of _ 0]) simp

lemma is_anc_step: "is_anc db a x \<longleftrightarrow> a = x \<or> is_anc db a (parent db x)"
proof
  assume "is_anc db a x"
  then obtain n where "up db n x = a" by (auto simp: is_anc_def)
  then show "a = x \<or> is_anc db a (parent db x)" by (cases n) (auto simp: is_anc_def)
next
  assume "a = x \<or> is_anc db a (parent db x)"
  then show "is_anc db a x"
    unfolding is_anc_def by (metis up_simps)
qed

lemma root_parent_unknown:
  assumes "fork_tree root db"
  shows "\<not> known db (parent db root)"
proof
  assume k: "known db (parent db root)"
  obtain b where b: "fetchBlock db root = Some b" using fork_treeD(4) [OF assms] by (auto simp: known_def)
  note t = fork_tree_block [OF assms b]
  have lev: "level root \<le> level (parent db root)" "level (parent db root) - level root < slots"
    using k fork_tree_block(3,4) [OF assms] by (auto simp: known_def)
  have num: "BlockNum root = BlockNum (parent db root) + 1" using t(1,2) b by (simp add: numbered_def parent_def)
  show False
  proof (cases "level root = 0")
    case True
    then have "BlockNum (parent db root) = -1" using num by (simp add: unat_eq_zero eq_neg_iff_add_eq_0)
    moreover have "unat (-1 :: u64) = 18446744073709551615" by (simp add: unsigned_minus_1_eq_mask mask_eq_exp_minus_1)
    ultimately show False using lev(2) True by simp
  next
    case False
    with unat_suc_word [OF num] lev(1) show False by simp
  qed
qed

lemma up_unknown: "\<not> known db x \<Longrightarrow> up db n x = x"
  by (induction n) (simp_all add: known_def parent_def)

lemma anc_up:
  assumes tree: "fork_tree root db" and x: "known db x" and a: "known db a" and anc: "is_anc db a x"
  obtains n where "n \<le> level x - level root" and "up db n x = a" and "level a + n = level x"
proof -
  obtain n where n: "up db n x = a" using anc by (auto simp: is_anc_def)
  have "n \<le> level x - level root"
  proof (rule ccontr)
    assume "\<not> n \<le> level x - level root"
    then obtain m where "n = m + Suc (level x - level root)"
      by (metis add.commute less_iff_Suc_add not_le add_Suc_right)
    then have "a = up db m (parent db root)"
      using n up_root [OF tree x] by (metis up_Suc up_add)
    then have "a = parent db root" using up_unknown [OF root_parent_unknown [OF tree]] by simp
    with a root_parent_unknown [OF tree] show False by simp
  qed
  with that [of n] n up_level(2) [OF tree x this] show thesis by simp
qed

section \<open>Committing\<close>

definition descends :: "'b forkdb \<Rightarrow> hash \<Rightarrow> hash \<Rightarrow> bool" where
  "descends db c x = (known db x \<and> is_anc db c x)"

lemma descends_level: "fork_tree root db \<Longrightarrow> known db c \<Longrightarrow> descends db c x \<Longrightarrow> level c \<le> level x"
  using anc_up [of root db x c] by (fastforce simp: descends_def)

lemma descends_same_level:
  assumes "fork_tree root db" and "known db c" and "descends db c x" and "level x = level c"
  shows "x = c"
proof -
  obtain n where "up db n x = c" "level c + n = level x"
    using anc_up [OF assms(1) _ assms(2)] assms(3) by (auto simp: descends_def)
  with assms(4) show ?thesis by simp
qed

text \<open>Above the committed block, descending is a matter of the parent.\<close>

lemma descends_parent:
  assumes tree: "fork_tree root db" and x: "known db x" and c: "known db c" and lev: "level c < level x"
  shows "descends db c x \<longleftrightarrow> descends db c (parent db x)" and "level x = Suc (level (parent db x))"
proof -
  have "level root \<le> level c" using fork_tree_block(3) [OF tree] c by (auto simp: known_def)
  then have "x \<noteq> root" using lev by auto
  note p = parent_level [OF tree x this]
  show "level x = Suc (level (parent db x))" by (rule p(2))
  have "x \<noteq> c" using lev by auto
  then show "descends db c x \<longleftrightarrow> descends db c (parent db x)"
    using is_anc_step [of db c x] p(1) x by (auto simp: descends_def)
qed

definition commit_inv ::
  "'b forkdb \<Rightarrow> hash \<Rightarrow> nat \<Rightarrow> hash list list \<Rightarrow> (hash, 'b ISignedBlock_scheme) tbl \<Rightarrow> bool" where
  "commit_inv db c k nl nb =
     (length nl = slots \<and>
      (\<forall>j < slots. set (nl ! j) = (if j \<le> k then {x. descends db c x \<and> level x = level c + j} else {})) \<and>
      tbl_ok nb \<and>
      (\<forall>x. tbl_get nb x = (if descends db c x \<and> level x \<le> level c + k then fetchBlock db x else None)))"

lemma fold_put_table:
  "tbl_ok t \<Longrightarrow> tbl_ok (fold (\<lambda>x. tbl_put x (f x)) xs t) \<and>
    tbl_get (fold (\<lambda>x. tbl_put x (f x)) xs t) y = (if y \<in> set xs then Some (f y) else tbl_get t y)"
  by (induction xs arbitrary: t) (auto simp: tbl_ok_put tbl_get_put)

lemma commit_slot_eq:
  "commit_slot db (Inr ps) ids kept nb =
     (let xs = filter (\<lambda>x. known db x \<and> parent db x \<in> set ps) ids in
      Inr (kept @ xs, fold (\<lambda>x. tbl_put x (the (fetchBlock db x))) xs nb))"
  by (induction ids arbitrary: kept nb) (auto simp: known_def parent_def Let_def split: option.splits)

lemma commit_step:
  assumes tree: "fork_tree root db" and c: "known db c" and inv: "commit_inv db c k nl nb"
    and k: "level c + Suc k - level root < slots"
  defines "xs \<equiv> filter (\<lambda>x. known db x \<and> parent db x \<in> set (nl ! k)) (fk_list db ! (level c + Suc k - level root))"
  shows "commit_inv db c (Suc k) (nl[Suc k := nl ! Suc k @ xs]) (fold (\<lambda>x. tbl_put x (the (fetchBlock db x))) xs nb)"
proof -
  have rc: "level root \<le> level c" using fork_tree_block(3) [OF tree] c by (auto simp: known_def)
  have k': "k < slots" "Suc k < slots" using k rc by linarith+
  have len: "length nl = slots" and old: "\<And>j. j < slots \<Longrightarrow> set (nl ! j) = (if j \<le> k then {x. descends db c x \<and> level x = level c + j} else {})"
    and ok: "tbl_ok nb" and get: "\<And>x. tbl_get nb x = (if descends db c x \<and> level x \<le> level c + k then fetchBlock db x else None)"
    using inv by (auto simp: commit_inv_def)
  have xs: "set xs = {x. descends db c x \<and> level x = level c + Suc k}"
  proof (rule set_eqI)
    fix x
    show "x \<in> set xs \<longleftrightarrow> x \<in> {x. descends db c x \<and> level x = level c + Suc k}"
    proof
      assume "x \<in> set xs"
      then have x: "known db x" "parent db x \<in> set (nl ! k)" "x \<in> set (fk_list db ! (level c + Suc k - level root))"
        by (auto simp: xs_def)
      have lev: "level x = level c + Suc k" using fork_tree_slot [OF tree k x(3)] rc by simp
      then have "level c < level x" by simp
      with descends_parent(1) [OF tree x(1) c] x(2) old [OF k'(1)] lev show "x \<in> {x. descends db c x \<and> level x = level c + Suc k}"
        by auto
    next
      assume x: "x \<in> {x. descends db c x \<and> level x = level c + Suc k}"
      then have kn: "known db x" and lev: "level x = level c + Suc k" by (auto simp: descends_def)
      then have gt: "level c < level x" by simp
      note p = descends_parent [OF tree kn c gt]
      have "parent db x \<in> set (nl ! k)" using x p lev old [OF k'(1)] by simp
      moreover obtain b where "fetchBlock db x = Some b" using kn by (auto simp: known_def)
      then have "x \<in> set (fk_list db ! (level c + Suc k - level root))"
        using fork_tree_block(5) [OF tree] lev by metis
      ultimately show "x \<in> set xs" using kn by (simp add: xs_def)
    qed
  qed
  have "set ((nl[Suc k := nl ! Suc k @ xs]) ! j) =
      (if j \<le> Suc k then {x. descends db c x \<and> level x = level c + j} else {})" if "j < slots" for j
    using that old [OF that] old [OF k'(2)] xs len k' by (auto simp: nth_list_update)
  moreover have "tbl_get (fold (\<lambda>x. tbl_put x (the (fetchBlock db x))) xs nb) y =
      (if descends db c y \<and> level y \<le> level c + Suc k then fetchBlock db y else None)" for y
    using fold_put_table [OF ok, of "\<lambda>x. the (fetchBlock db x)" xs y] get [of y] xs
    by (auto simp: le_Suc_eq descends_def known_def)
  ultimately show ?thesis
    using fold_put_table [OF ok] len by (simp add: commit_inv_def)
qed

lemma commit_loop_keeps:
  assumes tree: "fork_tree root db" and c: "known db c"
  shows "commit_inv db c k nl nb \<Longrightarrow> level c + k + n \<le> level (fk_head db) \<Longrightarrow>
    startNum = BlockNum c + of_nat (Suc k) \<Longrightarrow>
    \<exists>nl' nb'. commit_loop n db (BlockNum c) startNum nl nb = Inr (nl', nb') \<and> commit_inv db c (k + n) nl' nb'"
proof (induction n arbitrary: k nl nb startNum)
  case 0
  then show ?case by simp
next
  case (Suc n)
  note t = fork_treeD [OF tree]
  obtain hb where hb: "fetchBlock db (fk_head db) = Some hb" using t(6) by (auto simp: known_def)
  have rc: "level root \<le> level c" using fork_tree_block(3) [OF tree] c by (auto simp: known_def)
  have top: "level c + Suc k \<le> level (fk_head db)" using Suc.prems(2) by simp
  then have k: "level c + Suc k - level root < slots" using fork_tree_block(4) [OF tree hb] by linarith
  have k': "k < slots" "Suc k < slots" using k rc by linarith+
  have small: "level c + Suc k < 2 ^ 64" using top unat_64_less [of "BlockNum (fk_head db)"] by linarith
  have i3: "unat (of_nat (Suc k) :: u64) = Suc k" "unat (of_nat k :: u64) = k"
    using small by (simp_all only: unat_of_nat) simp_all
  have num: "unat startNum = level c + Suc k"
    unfolding Suc.prems(3) using unat_add_no_wrap [of "BlockNum c" "of_nat (Suc k)"] i3(1) small by simp
  have i1: "unat (startNum - fk_start db) = level c + Suc k - level root"
    using num rc t(5) by (simp add: unat_sub word_le_nat_alt)
  have i2: "startNum - BlockNum c = of_nat (Suc k)" "startNum - BlockNum c - 1 = of_nat k"
    unfolding Suc.prems(3) by simp_all
  let ?xs = "filter (\<lambda>x. known db x \<and> parent db x \<in> set (nl ! k)) (fk_list db ! (level c + Suc k - level root))"
  let ?nl = "nl[Suc k := nl ! Suc k @ ?xs]" and ?nb = "fold (\<lambda>x. tbl_put x (the (fetchBlock db x))) ?xs nb"
  have len: "length nl = slots" using Suc.prems(1) by (simp add: commit_inv_def)
  have "slot (fk_list db) (startNum - fk_start db) = Inr (fk_list db ! (level c + Suc k - level root))"
    using k t(3) by (simp add: slot_def i1)
  moreover have "slot nl (startNum - BlockNum c - 1) = Inr (nl ! k)"
    unfolding i2(2) slot_def i3(2) using k' len by simp
  moreover have "slot nl (startNum - BlockNum c) = Inr (nl ! Suc k)"
    unfolding i2 slot_def i3 using k' len by (simp del: unat_of_nat)
  moreover have "unat (startNum - BlockNum c) = Suc k" unfolding i2 i3 ..
  ultimately have step: "commit_loop (Suc n) db (BlockNum c) startNum nl nb =
      commit_loop n db (BlockNum c) (startNum + 1) ?nl ?nb"
    by (simp add: commit_slot_eq Let_def)
  have "startNum + 1 = BlockNum c + of_nat (Suc (Suc k))" unfolding Suc.prems(3) by simp
  from Suc.IH [OF commit_step [OF tree c Suc.prems(1) k] _ this] Suc.prems(2) step show ?case by simp
qed

lemma Commit_tree:
  assumes tree: "fork_tree root db" and wait: "waiting_but None db"
    and c: "known db c" and anc: "is_anc db c (fk_head db)" and small: "level (fk_head db) + 2048 < 2 ^ 64"
  obtains db' where "forkdb_Commit c db = Inr db'" and "fork_tree c db'" and "head_top db'" and "waiting_but None db'"
    and "\<And>x. fetchBlock db' x = (if is_anc db c x \<and> level x \<le> level (fk_head db) then fetchBlock db x else None)"
    and "fk_head db' = fk_head db" and "fk_lastCommitted db' = c"
proof -
  note t = fork_treeD [OF tree]
  obtain cb where cb: "fetchBlock db c = Some cb" using c by (auto simp: known_def)
  have hd: "level c \<le> level (fk_head db)"
    using descends_level [OF tree c, of "fk_head db"] anc t(6) by (simp add: descends_def)
  let ?n = "level (fk_head db) - level c"
  let ?nl = "(replicate slots [])[0 := [c]]"
  have same: "{x. descends db c x \<and> level x = level c} = {c}"
    using descends_same_level [OF tree c] c by (auto simp: descends_def)
  have eq: "descends db c x \<and> level x \<le> level c \<longleftrightarrow> x = c" for x
    using descends_same_level [OF tree c, of x] descends_level [OF tree c, of x] c by (auto simp: descends_def)
  have "commit_inv db c 0 ?nl [(c, cb)]"
    unfolding commit_inv_def using same cb
    by (auto simp: nth_list_update tbl_ok_def tbl_get_Cons eq)
  from commit_loop_keeps [OF tree c this, of ?n] hd
  obtain nl nb where loop: "commit_loop ?n db (BlockNum c) (BlockNum c + 1) ?nl [(c, cb)] = Inr (nl, nb)"
    and inv: "commit_inv db c ?n nl nb" by auto
  have suc: "unat (BlockNum c + 1) = Suc (level c)"
    using hd small unat_add_no_wrap [of "BlockNum c" 1] by simp
  have rounds: "(if BlockNum c + 1 \<le> BlockNum (fk_head db) then unat (BlockNum (fk_head db) - (BlockNum c + 1)) + 1 else 0) = ?n"
    using suc hd by (simp add: word_le_nat_alt unat_sub Suc_diff_Suc)
  define db1 where "db1 = db\<lparr>fk_list := nl, fk_branches := nb, fk_start := BlockNum c, fk_lastCommitted := c\<rparr>"
  define db2 where "db2 = purgeDetached (BlockNum c) db1"
  have run: "forkdb_Commit c db = Inr db2"
    unfolding forkdb_Commit_def cb db2_def db1_def using loop rounds by (simp add: Let_def)
  have fields: "fk_list db2 = nl" "fk_branches db2 = nb" "fk_start db2 = BlockNum c" "fk_lastCommitted db2 = c"
    "fk_head db2 = fk_head db"
    "fk_detachedLink db2 = filter (\<lambda>(k, v). \<not> BlockNum (blk_Id v) \<le> BlockNum c) (fk_detachedLink db)"
    by (simp_all add: db2_def db1_def purgeDetached_def)
  have len: "length nl = slots" and ok: "tbl_ok nb"
    and slot: "\<And>j. j < slots \<Longrightarrow> set (nl ! j) = (if j \<le> ?n then {x. descends db c x \<and> level x = level c + j} else {})"
    and get: "\<And>x. tbl_get nb x = (if descends db c x \<and> level x \<le> level c + ?n then fetchBlock db x else None)"
    using inv unfolding commit_inv_def by blast+
  have cn: "level c + ?n = level (fk_head db)" using hd by simp
  have new: "fetchBlock db2 x = (if is_anc db c x \<and> level x \<le> level (fk_head db) then fetchBlock db x else None)" for x
    using get [of x] by (cases "known db x") (simp_all add: fields fetchBlock_def [of db2] descends_def known_def cn)
  have kn: "known db2 x \<longleftrightarrow> descends db c x \<and> level x \<le> level (fk_head db)" for x
    by (auto simp: known_def new descends_def)
  have wt: "tbl_get (fk_detachedLink db) p = Some b \<and> level c < level (blk_Id b)"
    if "tbl_get (fk_detachedLink db2) p = Some b" for p b
    using tbl_get_filterD [OF t(2)] that by (fastforce simp: fields word_le_nat_alt)
  have "fork_tree c db2"
  proof (rule fork_treeI)
    show "tbl_ok (fk_detachedLink db2)" using t(2) by (simp add: fields tbl_ok_filter)
  next
    fix x b
    assume x: "fetchBlock db2 x = Some b"
    then have xd: "descends db c x" "fetchBlock db x = Some b" and hx: "level x \<le> level (fk_head db)"
      by (auto simp: new descends_def known_def split: if_splits)
    note u = fork_tree_block [OF tree xd(2)]
    have le: "level c \<le> level x" by (rule descends_level [OF tree c xd(1)])
    have rc: "level root \<le> level c" by (rule fork_tree_block(3) [OF tree cb])
    have j: "level x - level c < slots" using u(4) rc by linarith
    have "x \<in> set (nl ! (level x - level c))" using slot [OF j] xd(1) le hx by simp
    moreover have "x = c \<or> level c < level x \<and> known db2 (blk_Previous b)"
    proof (cases "level x = level c")
      case True
      then show ?thesis using descends_same_level [OF tree c xd(1)] by simp
    next
      case False
      then have "level c < level x" using le by simp
      moreover have "known db x" using xd(1) by (simp add: descends_def)
      note p = descends_parent [OF tree this c \<open>level c < level x\<close>]
      have "descends db c (parent db x)" "level (parent db x) \<le> level (fk_head db)"
        using p xd(1) hx by simp_all
      with \<open>level c < level x\<close> show ?thesis using xd(2) by (simp add: kn parent_def)
    qed
    ultimately show "blk_Id b = x \<and> numbered b \<and> level c \<le> level x \<and> level x - level c < slots \<and>
        x \<in> set (fk_list db2 ! (level x - level c)) \<and> (x = c \<or> level c < level x \<and> known db2 (blk_Previous b))"
      using u(1,2) le j by (simp add: fields)
  next
    fix i x
    assume "i < slots" "x \<in> set (fk_list db2 ! i)"
    then show "level x = level c + i" using slot by (auto simp: fields split: if_splits)
  next
    fix p b
    assume "tbl_get (fk_detachedLink db2) p = Some b"
    from wt [OF this] fork_tree_waiting [OF tree] fork_tree_block(3) [OF tree cb]
    show "blk_Previous b = p \<and> numbered b \<and> level c < level (blk_Id b) \<and> level (blk_Id b) - level c < slots"
      by (meson diff_le_mono2 le_less_trans)
  qed (use len ok c anc t(6) hd in \<open>simp_all add: fields kn descends_def\<close>)
  moreover have "head_top db2" by (simp add: head_top_def kn fields)
  moreover have "waiting_but None db2"
    using wait wt by (auto simp: waiting_but_def kn descends_def)
  ultimately show thesis using that [OF run] new fields by metis
qed

text \<open>When the head is one of the highest blocks, all descendants are kept.\<close>

lemma Commit_keeps:
  assumes tree: "fork_tree root db" and top: "head_top db" and wait: "waiting_but None db"
    and c: "known db c" and anc: "is_anc db c (fk_head db)" and small: "level (fk_head db) + 2048 < 2 ^ 64"
  obtains db' where "forkdb_Commit c db = Inr db'" and "fork_tree c db'" and "head_top db'" and "waiting_but None db'"
    and "\<And>x. fetchBlock db' x = (if is_anc db c x then fetchBlock db x else None)"
    and "fk_head db' = fk_head db" and "fk_lastCommitted db' = c"
proof -
  have all: "(if is_anc db c x \<and> level x \<le> level (fk_head db) then fetchBlock db x else None) =
      (if is_anc db c x then fetchBlock db x else None)" for x
  proof (cases "known db x")
    case True
    then have "level x \<le> level (fk_head db)" using top by (simp add: head_top_def)
    then show ?thesis by simp
  qed (simp add: known_def)
  obtain db' where db': "forkdb_Commit c db = Inr db'" "fork_tree c db'" "head_top db'" "waiting_but None db'"
    "\<And>x. fetchBlock db' x = (if is_anc db c x \<and> level x \<le> level (fk_head db) then fetchBlock db x else None)"
    "fk_head db' = fk_head db" "fk_lastCommitted db' = c"
    by (rule Commit_tree [OF tree wait c anc small]) blast
  show thesis by (rule that [OF db'(1-4) db'(5) [unfolded all] db'(6,7)])
qed

end
