(* ===== verification/ForkBranch.thy ===== *)
theory ForkBranch
  imports ForkTree
begin

text \<open>
  The fork database over time and its walks. \<open>fork_reach root db\<close> says that the database gets into
  state \<open>db\<close>, with \<open>root\<close> as its oldest block, without a fork switch or a restart: it starts with a first
  block, and consensus then pushes blocks, takes a block it refuses off again, if none was waiting for
  it, and commits blocks of the main branch. In these states the head is one of the highest blocks;
  theory \<open>ForkRun\<close> has the other states. Every such state is a tree; the theory states what pushing, refusing and committing do to it and that the search for
  the point where two branches part ends with the nearest common ancestor.
\<close>

section \<open>The walk to the common ancestor\<close>

definition path :: "'b forkdb \<Rightarrow> nat \<Rightarrow> hash \<Rightarrow> hash list" where
  "path db n x = map (\<lambda>i. up db i x) [0..<n]"

lemma path_0 [simp]: "path db 0 x = []"
  by (simp add: path_def)

lemma path_Suc: "path db (Suc n) x = x # path db n (parent db x)"
  by (simp add: path_def map_upt_Suc del: upt_Suc)

lemma path_add: "path db (n + k) x = path db n x @ path db k (up db n x)"
  by (induction n arbitrary: x) (simp_all add: path_Suc)

lemma climb_step:
  "climb db t x acc = (if BlockNum x > t then climb db t (parent db x) (acc @ [x]) else Some (x, acc))"
  by (subst climb.simps) (simp add: parent_def fetchBlock_def split: option.splits)

lemma climb_path:
  assumes tree: "fork_tree root db" and lo: "level root \<le> unat t"
  shows "known db x \<Longrightarrow> level x - unat t = n \<Longrightarrow> climb db t x acc = Some (up db n x, acc @ path db n x)"
proof (induction n arbitrary: x acc)
  case 0
  then have "\<not> BlockNum x > t" by (simp add: word_less_nat_alt)
  then show ?case by (subst climb_step) simp
next
  case (Suc n)
  then have gt: "unat t < level x" by simp
  then have "x \<noteq> root" using lo by auto
  note p = parent_level [OF tree Suc.prems(1) this]
  have "level (parent db x) - unat t = n" using Suc.prems(2) p(2) by simp
  from Suc.IH [OF p(1) this] gt show ?case
    by (subst climb_step) (simp add: word_less_nat_alt path_Suc)
qed

lemma meet_path:
  assumes tree: "fork_tree root db" and small: "level (fk_head db) + 2048 < 2 ^ 64"
  shows "known db x \<Longrightarrow> known db y \<Longrightarrow> level x = level y \<Longrightarrow> level x \<le> level (fk_head db) \<Longrightarrow>
    \<exists>m \<le> level x - level root. up db m x = up db m y \<and> (\<forall>i < m. up db i x \<noteq> up db i y) \<and>
      meet db x y r0 r1 = Some (Inr ((r0 @ path db (Suc m) x, r1 @ path db (Suc m) y), None))"
proof (induction "level x - level root" arbitrary: x y r0 r1 rule: less_induct)
  case less
  show ?case
  proof (cases "x = y")
    case True
    then have "meet db x y r0 r1 = Some (Inr ((r0 @ path db (Suc 0) x, r1 @ path db (Suc 0) y), None))"
      by (subst meet.simps) (simp add: path_Suc)
    then show ?thesis using True by (intro exI [of _ 0]) simp
  next
    case False
    obtain bx where bx: "fetchBlock db x = Some bx" using less.prems(1) by (auto simp: known_def)
    obtain b2 where b2: "fetchBlock db y = Some b2" using less.prems(2) by (auto simp: known_def)
    have lo: "level root \<le> level x" by (rule fork_tree_block(3) [OF tree bx])
    have nr: "x \<noteq> root" "y \<noteq> root"
      using root_unique [OF tree] less.prems(1-3) False by metis+
    note px = parent_level [OF tree less.prems(1) nr(1)] and py = parent_level [OF tree less.prems(2) nr(2)]
    have par: "parent db x = blk_Previous bx" "parent db y = blk_Previous b2" by (simp_all add: parent_def bx b2)
    obtain hb where hb: "fetchBlock db (fk_head db) = Some hb"
      using fork_treeD(6) [OF tree] by (auto simp: known_def)
    have "level root < level x" using fork_tree_block(6) [OF tree bx nr(1)] .
    moreover have "unat (BlockNum x + defaultSize) = level x + 2048"
      using unat_add_no_wrap [of "BlockNum x" defaultSize] less.prems(4) small by simp
    moreover have "level (fk_head db) - level root < slots" by (rule fork_tree_block(4) [OF tree hb])
    ultimately have go: "BlockNum x + defaultSize > BlockNum (fk_head db)"
      unfolding word_less_nat_alt by simp
    have fst: "level (parent db x) - level root < level x - level root"
      using px(2) \<open>level root < level x\<close> by linarith
    have "level (parent db x) = level (parent db y)" "level (parent db x) \<le> level (fk_head db)"
      using px(2) py(2) less.prems(3,4) by simp_all
    from less.hyps [OF fst px(1) py(1) this, of "r0 @ [x]" "r1 @ [y]"]
    obtain m where m: "m \<le> level (parent db x) - level root" "up db m (parent db x) = up db m (parent db y)"
      "\<forall>i < m. up db i (parent db x) \<noteq> up db i (parent db y)"
      "meet db (parent db x) (parent db y) (r0 @ [x]) (r1 @ [y]) =
        Some (Inr (((r0 @ [x]) @ path db (Suc m) (parent db x), (r1 @ [y]) @ path db (Suc m) (parent db y)), None))"
      by blast
    have "meet db x y r0 r1 = meet db (parent db x) (parent db y) (r0 @ [x]) (r1 @ [y])"
      by (subst meet.simps) (simp add: False go bx b2 par)
    moreover have "\<forall>i < Suc m. up db i x \<noteq> up db i y"
      using m(3) False by (auto simp: less_Suc_eq_0_disj)
    ultimately show ?thesis
      using m(1,2,4) fst by (intro exI [of _ "Suc m"]) (simp add: path_Suc)
  qed
qed

lemma FetchBranch_paths:
  assumes tree: "fork_tree root db" and top: "head_top db" and small: "level (fk_head db) + 2048 < 2 ^ 64"
    and k1: "known db id1" and k2: "known db id2"
  obtains m1 m2 where "FetchBranch id1 id2 db = Some (Inr ((path db (Suc m1) id1, path db (Suc m2) id2), None))"
    and "up db m1 id1 = up db m2 id2" and "known db (up db m1 id1)"
    and "\<And>c. known db c \<Longrightarrow> is_anc db c id1 \<Longrightarrow> is_anc db c id2 \<Longrightarrow> is_anc db c (up db m1 id1)"
proof -
  let ?n1 = "level id1 - level id2" and ?n2 = "level id2 - level id1"
  let ?t1 = "up db ?n1 id1" and ?t2 = "up db ?n2 id2"
  have lo: "level root \<le> level id1" "level root \<le> level id2"
    using fork_tree_block(3) [OF tree] k1 k2 by (auto simp: known_def)
  have le: "?n1 \<le> level id1 - level root" "?n2 \<le> level id2 - level root" using lo by linarith+
  note u1 = up_level [OF tree k1 le(1)] and u2 = up_level [OF tree k2 le(2)]
  have lt1: "level ?t1 = min (level id1) (level id2)" using u1(2) by linarith
  have c1: "climb db (BlockNum id2) id1 [] = Some (?t1, path db ?n1 id1)"
    using climb_path [OF tree lo(2) k1 refl, of "[]"] by simp
  have n2: "level id2 - level ?t1 = ?n2" and lo2: "level root \<le> level ?t1" using lt1 lo by linarith+
  have c2: "climb db (BlockNum ?t1) id2 [] = Some (?t2, path db ?n2 id2)"
    using climb_path [OF tree lo2 k2 n2, of "[]"] by simp
  have eq: "level ?t1 = level ?t2" using lt1 u2(2) by linarith
  have hd: "level ?t1 \<le> level (fk_head db)" using top u1(1) by (simp add: head_top_def)
  from meet_path [OF tree small u1(1) u2(1) eq hd, of "path db ?n1 id1" "path db ?n2 id2"]
  obtain m where m: "m \<le> level ?t1 - level root" "up db m ?t1 = up db m ?t2" "\<forall>i < m. up db i ?t1 \<noteq> up db i ?t2"
    "meet db ?t1 ?t2 (path db ?n1 id1) (path db ?n2 id2) =
      Some (Inr ((path db ?n1 id1 @ path db (Suc m) ?t1, path db ?n2 id2 @ path db (Suc m) ?t2), None))"
    by blast
  have run: "FetchBranch id1 id2 db = Some (Inr ((path db (Suc (?n1 + m)) id1, path db (Suc (?n2 + m)) id2), None))"
    unfolding FetchBranch_def c1 option.case prod.case c2 m(4)
    using path_add [of db ?n1 "Suc m" id1] path_add [of db ?n2 "Suc m" id2] by simp
  have same: "up db (?n1 + m) id1 = up db (?n2 + m) id2" using m(2) up_add [of db] by (metis add.commute)
  have le1: "?n1 + m \<le> level id1 - level root" using m(1) lt1 lo by linarith
  have near: "is_anc db c (up db (?n1 + m) id1)"
    if c: "known db c" and a1: "is_anc db c id1" and a2: "is_anc db c id2" for c
  proof -
    obtain j1 where j1: "up db j1 id1 = c" "level c + j1 = level id1" by (rule anc_up [OF tree k1 c a1])
    obtain j2 where j2: "up db j2 id2 = c" "level c + j2 = level id2" by (rule anc_up [OF tree k2 c a2])
    have "?n1 + m \<le> j1"
    proof (rule ccontr)
      assume small: "\<not> ?n1 + m \<le> j1"
      let ?i = "j1 - ?n1"
      have "j1 = ?i + ?n1" "j2 = ?i + ?n2" "?i < m" using small j1(2) j2(2) by linarith+
      then have "up db ?i ?t1 = up db ?i ?t2" using j1(1) j2(1) up_add [of db] by metis
      with m(3) \<open>?i < m\<close> show False by blast
    qed
    then have "up db (j1 - (?n1 + m)) (up db (?n1 + m) id1) = c"
      using j1(1) up_add [of db] by (metis le_add_diff_inverse2)
    then show ?thesis by (auto simp: is_anc_def)
  qed
  show thesis by (rule that [OF run same up_level(1) [OF tree k1 le1] near])
qed

text \<open>A climb from a block that is not there.\<close>

lemma climb_unknown:
  assumes "climb db t x acc = Some r" and "fetchBlock db x = None"
  shows "\<not> t < BlockNum x"
  using climb.raw_induct [where P = "\<lambda>db t x acc r. fetchBlock db x = None \<longrightarrow> \<not> t < BlockNum x", OF _ assms(1)] assms(2)
  by (fastforce simp: fetchBlock_def split: if_splits)

section \<open>Refusing a block\<close>

text \<open>
  Consensus pushes a block first and takes it off again when its producer or its content is refused.
  When no block was waiting for it, this gives back the blocks and the head of before.
\<close>

lemma push_main_steps:
  assumes tree: "fork_tree root db" and num: "numbered b" and push: "pushBlock_db b db = Inr (db1, RTPushedOnMain)"
  obtains a where "fork_tree root a" and "\<And>x. fetchBlock a x = (if x = blk_Id b then Some b else fetchBlock db x)"
    and "fk_detachedLink a = fk_detachedLink db" and "fk_head a = blk_Id b" and "attach b db = Inr a"
    and "pushDetached (blk_Id b) a = Inr db1" and "fetchBlock db (blk_Id b) = None" and "level root < level (blk_Id b)"
    and "fk_head db = blk_Previous b" and "fk_lastCommitted a = fk_lastCommitted db" and "fk_start a = fk_start db"
proof -
  note t = fork_treeD [OF tree]
  let ?num = "BlockNum (blk_Id b)"
  note push' = push [unfolded pushBlock_db_def Let_def if_not_P [OF fork_tree_nonempty [OF tree]]]
  have unk: "fetchBlock db (blk_Id b) = None" using push' by (auto split: if_splits)
  have range: "\<not> (?num > BlockNum (fk_head db) + 1 \<or> ?num \<le> fk_start db \<or> ?num - fk_start db \<ge> of_nat (length (fk_list db)))"
    using push' unk by (auto split: if_splits)
  have kp: "known db (blk_Previous b)" using push' unk range by (auto simp: known_def split: if_splits)
  have lo: "level root < level (blk_Id b)" using range t(5) by (simp add: word_le_nat_alt)
  then have "unat (?num - fk_start db) = level (blk_Id b) - level root" using level_sub [of root "blk_Id b"] t(5) by simp
  moreover have "unat (of_nat (length (fk_list db)) :: u64) = slots" using t(3) by (simp add: unat_of_nat)
  ultimately have hi: "level (blk_Id b) - level root < slots" using range by (auto simp: word_le_nat_alt)
  obtain a where a: "attach b db = Inr a" "fork_tree root a"
    "\<And>x. fetchBlock a x = (if x = blk_Id b then Some b else fetchBlock db x)"
    "fk_detachedLink a = fk_detachedLink db"
    "fk_head a = (if level (blk_Id b) = Suc (level (fk_head db)) then blk_Id b else fk_head db)"
    "fk_lastCommitted a = fk_lastCommitted db" "fk_start a = fk_start db"
    by (rule attach_tree [OF tree num kp lo hi]) blast
  have res: "pushDetached (blk_Id b) a = Inr db1" "fk_head db = blk_Previous b"
    using push' unk range kp a(1) by (auto simp: known_def res_inv split: if_splits)
  have "level (blk_Id b) = Suc (level (fk_head db))" using numbered_level [OF num] lo res(2) by simp
  then have "fk_head a = blk_Id b" using a(5) by simp
  then show thesis by (rule that [OF a(2,3,4) _ a(1) res(1) unk lo res(2) a(6,7)])
qed

lemma push_pop:
  assumes tree: "fork_tree root db" and top: "head_top db" and wait: "waiting_but None db" and num: "numbered b"
    and push: "pushBlock_db b db = Inr (db1, RTPushedOnMain)" and none: "tbl_get (fk_detachedLink db) (blk_Id b) = None"
  obtains db' where "Pop db1 = Inr (db', b)" and "fork_tree root db'" and "head_top db'" and "waiting_but None db'"
    and "\<And>x. fetchBlock db' x = fetchBlock db x" and "fk_head db' = fk_head db" and "fk_head db1 = blk_Id b"
    and "fk_detachedLink db' = fk_detachedLink db" and "fk_lastCommitted db' = fk_lastCommitted db"
proof -
  note t = fork_treeD [OF tree]
  obtain a where a: "fork_tree root a" "\<And>x. fetchBlock a x = (if x = blk_Id b then Some b else fetchBlock db x)"
    "fk_detachedLink a = fk_detachedLink db" "pushDetached (blk_Id b) a = Inr db1"
    "fk_lastCommitted a = fk_lastCommitted db" "fk_start a = fk_start db"
    and ha: "fk_head a = blk_Id b" and unk: "fetchBlock db (blk_Id b) = None" and hd: "fk_head db = blk_Previous b"
    by (rule push_main_steps [OF tree num push]) blast
  have res: "db1 = a" using a(3,4) none by (simp add: pushDetached.simps)
  define db' where "db' = a\<lparr>fk_head := blk_Previous b, fk_branches := tbl_del (blk_Id b) (fk_branches a)\<rparr>"
  have pop: "Pop db1 = Inr (db', b)"
    using a(2) [of "blk_Id b"] by (simp add: res Pop_def ha db'_def fetchBlock_def)
  have get: "fetchBlock db' x = fetchBlock db x" for x
    using a(2) [of x] unk tbl_get_del [OF fork_treeD(1) [OF a(1)], of "blk_Id b" x] by (simp add: db'_def fetchBlock_def)
  then have kn': "known db' x = known db x" for x by (simp add: known_def)
  have fields: "fk_head db' = fk_head db" "fk_detachedLink db' = fk_detachedLink db" "fk_lastCommitted db' = fk_lastCommitted db"
    "fk_start db' = fk_start db" "fk_list db' = fk_list a"
    using a(3,5,6) hd by (simp_all add: db'_def)
  have "fork_tree root db'"
  proof (rule fork_treeI)
    fix x c
    assume x: "fetchBlock db' x = Some c"
    then have x0: "fetchBlock db x = Some c" by (simp add: get)
    then have "fetchBlock a x = Some c" using a(2) [of x] unk by auto
    from fork_tree_block [OF a(1) this] fork_tree_block(7) [OF tree x0]
    show "blk_Id c = x \<and> numbered c \<and> level root \<le> level x \<and> level x - level root < slots \<and>
      x \<in> set (fk_list db' ! (level x - level root)) \<and> (x = root \<or> level root < level x \<and> known db' (blk_Previous c))"
      unfolding fields kn' by blast
  next
    fix i x
    assume "i < slots" "x \<in> set (fk_list db' ! i)"
    then show "level x = level root + i" using fork_tree_slot [OF a(1)] by (simp add: fields)
  next
    fix p c
    assume "tbl_get (fk_detachedLink db') p = Some c"
    then show "blk_Previous c = p \<and> numbered c \<and> level root < level (blk_Id c) \<and> level (blk_Id c) - level root < slots"
      using fork_tree_waiting [OF tree] by (simp add: fields)
  next
    show "tbl_ok (fk_branches db')" using fork_treeD(1) [OF a(1)] by (simp add: db'_def tbl_ok_del)
  qed (use t fork_treeD(3) [OF a(1)] in \<open>simp_all add: fields kn'\<close>)
  moreover have "head_top db'" "waiting_but None db'" using top wait by (simp_all add: head_top_def waiting_but_def kn' fields)
  ultimately show thesis using that [OF pop] get fields ha res by blast
qed

section \<open>The states of the fork database\<close>

inductive fork_reach :: "hash \<Rightarrow> 'b forkdb \<Rightarrow> bool" where
  first: "numbered b \<Longrightarrow> pushBlock_db b NewDB = Inr (db, rc) \<Longrightarrow> fork_reach (blk_Id b) db"
| push: "fork_reach root db \<Longrightarrow> numbered b \<Longrightarrow> pushBlock_db b db = Inr (db', rc) \<Longrightarrow> fork_reach root db'"
| refuse: "fork_reach root db \<Longrightarrow> numbered b \<Longrightarrow> tbl_get (fk_detachedLink db) (blk_Id b) = None \<Longrightarrow>
    pushBlock_db b db = Inr (db1, RTPushedOnMain) \<Longrightarrow> Pop db1 = Inr (db', c) \<Longrightarrow> fork_reach root db'"
| commit: "fork_reach root db \<Longrightarrow> level (fk_head db) + 2048 < 2 ^ 64 \<Longrightarrow> known db c \<Longrightarrow> is_anc db c (fk_head db) \<Longrightarrow>
    forkdb_Commit c db = Inr db' \<Longrightarrow> fork_reach c db'"

lemma reach_tree: "fork_reach root db \<Longrightarrow> fork_tree root db \<and> head_top db \<and> waiting_but None db"
proof (induction rule: fork_reach.induct)
  case (first b db rc)
  with pushBlock_first [OF first(1)] show ?case by auto
next
  case (push root db b db' rc)
  with pushBlock_tree [of root db b] show ?case by fastforce
next
  case (refuse root db b db1 db' c)
  then have t: "fork_tree root db" "head_top db" "waiting_but None db" by simp_all
  obtain d where "Pop db1 = Inr (d, b)" "fork_tree root d" "head_top d" "waiting_but None d"
    by (rule push_pop [OF t refuse(2,4,3)]) blast
  with refuse(5) show ?case by simp
next
  case (commit root db c db')
  then have t: "fork_tree root db" "head_top db" "waiting_but None db" by simp_all
  obtain d where "forkdb_Commit c db = Inr d" "fork_tree c d" "head_top d" "waiting_but None d"
    by (rule Commit_keeps [OF t commit(3,4,2)]) blast
  with commit(5) show ?case by simp
qed

lemmas reach_facts = conjunct1 [OF reach_tree] conjunct1 [OF conjunct2 [OF reach_tree]] conjunct2 [OF conjunct2 [OF reach_tree]]

section \<open>An example: two branches above a first block\<close>

definition ex_fid :: "u8 \<Rightarrow> u8 \<Rightarrow> hash" where
  "ex_fid n i = [n, 0, 0, 0, 0, 0, 0, 0, i]"

definition ex_fblock :: "u8 \<Rightarrow> u8 \<Rightarrow> u8 \<Rightarrow> ISignedBlock" where
  "ex_fblock n i p = \<lparr>blk_Id = ex_fid n i, blk_Previous = ex_fid (n - 1) p, blk_Timestamp = 0\<rparr>"

text \<open>The blocks 1, 2a and 2b; the head is 2a.\<close>

definition ex_fork1 :: "unit forkdb" where
  "ex_fork1 = NewDB\<lparr>fk_head := ex_fid 1 0, fk_start := 1, fk_list := (replicate 2049 [])[0 := [ex_fid 1 0]],
     fk_branches := [(ex_fid 1 0, ex_fblock 1 0 0)]\<rparr>"

definition ex_fork2 :: "unit forkdb" where
  "ex_fork2 = ex_fork1\<lparr>fk_head := ex_fid 2 0, fk_list := (replicate 2049 [])[0 := [ex_fid 1 0], 1 := [ex_fid 2 0]],
     fk_branches := [(ex_fid 1 0, ex_fblock 1 0 0), (ex_fid 2 0, ex_fblock 2 0 0)]\<rparr>"

definition ex_fork3 :: "unit forkdb" where
  "ex_fork3 = ex_fork2\<lparr>fk_list := (replicate 2049 [])[0 := [ex_fid 1 0], 1 := [ex_fid 2 0, ex_fid 2 1]],
     fk_branches := [(ex_fid 1 0, ex_fblock 1 0 0), (ex_fid 2 0, ex_fblock 2 0 0), (ex_fid 2 1, ex_fblock 2 1 0)]\<rparr>"

lemma ex_num [simp]: "BlockNum (ex_fid n i) = ucast n"
  by (simp add: ex_fid_def BlockNum_def le_Uint64_def)

lemma ex_fid_eq [simp]: "ex_fid n i = ex_fid m j \<longleftrightarrow> n = m \<and> i = j"
  by (simp add: ex_fid_def)

lemmas ex_fork_defs = ex_fork1_def ex_fork2_def ex_fork3_def NewDB_def ex_fblock_def

lemma ex_numbered [simp]: "numbered (ex_fblock 1 0 0)" "numbered (ex_fblock 2 0 0)" "numbered (ex_fblock 2 1 0)"
  by (simp_all add: numbered_def ex_fblock_def)

lemmas ex_push_simps = pushBlock_db_def Let_def ex_fork_defs fetchBlock_def slot_append_def slot_def attach_def
  tryNewHead_def pushDetached.simps tbl_get_Cons

lemma ex_push1: "pushBlock_db (ex_fblock 1 0 0) NewDB = Inr (ex_fork1, RTPushedOnMain)"
  by (simp add: ex_push_simps)

lemma ex_push2: "pushBlock_db (ex_fblock 2 0 0) ex_fork1 = Inr (ex_fork2, RTPushedOnMain)"
  by (simp add: ex_push_simps nth_list_update word_le_nat_alt)

lemma ex_push3: "pushBlock_db (ex_fblock 2 1 0) ex_fork2 = Inr (ex_fork3, RTPushedOnFork)"
  by (simp add: ex_push_simps nth_list_update word_le_nat_alt)

lemma ex_reach1: "fork_reach (ex_fid 1 0) ex_fork1"
  using fork_reach.first [OF ex_numbered(1) ex_push1] by (simp add: ex_fblock_def)

lemma ex_reach2: "fork_reach (ex_fid 1 0) ex_fork2"
  by (rule fork_reach.push [OF ex_reach1 ex_numbered(2) ex_push2])

lemma ex_reach3: "fork_reach (ex_fid 1 0) ex_fork3"
  by (rule fork_reach.push [OF ex_reach2 ex_numbered(3) ex_push3])

lemma ex_known: "known ex_fork3 x \<longleftrightarrow> x \<in> {ex_fid 1 0, ex_fid 2 0, ex_fid 2 1}"
  by (auto simp: known_def fetchBlock_def ex_fork_defs tbl_get_Cons)

lemma ex_head: "fk_head ex_fork3 = ex_fid 2 0"
  by (simp add: ex_fork_defs)

section \<open>Properties\<close>

text \<open>
  C36. In the states reached by pushing, refusing and committing (\<open>fork_reach\<close>), pushing a block whose
  number is one above its parent's never panics, whatever blocks are
  waiting, never forgets a block and moves the head only to a block with a higher number.
\<close>

theorem pushing_is_safe:
  assumes "fork_reach root db" and "numbered b"
  shows "\<exists>db' rc. pushBlock_db b db = Inr (db', rc) \<and> (\<forall>x. known db x \<longrightarrow> known db' x) \<and>
    level (fk_head db) \<le> level (fk_head db')"
proof -
  note r = reach_facts [OF assms(1)]
  from pushBlock_tree [OF r(1,3) assms(2)] r(2) obtain db' rc where
    "pushBlock_db b db = Inr (db', rc)" "head_top db'" "\<forall>x. known db x \<longrightarrow> known db' x" by blast
  moreover from this have "level (fk_head db) \<le> level (fk_head db')"
    using fork_treeD(6) [OF r(1)] by (auto simp: head_top_def)
  ultimately show ?thesis by blast
qed

theorem pushing_is_safe_witness:
  "\<exists>db' rc. pushBlock_db (ex_fblock 2 1 0) ex_fork2 = Inr (db', rc) \<and> (\<forall>x. known ex_fork2 x \<longrightarrow> known db' x) \<and>
    level (fk_head ex_fork2) \<le> level (fk_head db')"
  using pushing_is_safe [OF ex_reach2 ex_numbered(3)] .

text \<open>
  C35. In the states reached by pushing, refusing and committing (\<open>fork_reach\<close>), with block numbers
  below \<open>2 ^ 64 - 2048\<close>, committing a block of the main branch never panics and keeps exactly the blocks that descend
  from it: forks that parted before it are gone, those above it stay, and so does the head.
\<close>

theorem commit_keeps_descendants:
  assumes "fork_reach root db" and "level (fk_head db) + 2048 < 2 ^ 64" and "known db c" and "is_anc db c (fk_head db)"
  shows "\<exists>db'. forkdb_Commit c db = Inr db' \<and> fork_reach c db' \<and> fk_head db' = fk_head db \<and> fk_lastCommitted db' = c \<and>
    (\<forall>x. fetchBlock db' x = (if is_anc db c x then fetchBlock db x else None))"
proof -
  note r = reach_facts [OF assms(1)]
  obtain db' where "forkdb_Commit c db = Inr db'" "fk_head db' = fk_head db" "fk_lastCommitted db' = c"
    "\<And>x. fetchBlock db' x = (if is_anc db c x then fetchBlock db x else None)"
    by (rule Commit_keeps [OF r assms(3,4,2)]) blast
  moreover from this(1) have "fork_reach c db'" by (rule fork_reach.commit [OF assms])
  ultimately show ?thesis by blast
qed

theorem commit_keeps_descendants_witness:
  "\<exists>db'. forkdb_Commit (ex_fid 2 0) ex_fork3 = Inr db' \<and> fork_reach (ex_fid 2 0) db' \<and> fk_head db' = ex_fid 2 0 \<and>
    fk_lastCommitted db' = ex_fid 2 0 \<and>
    (\<forall>x. fetchBlock db' x = (if is_anc ex_fork3 (ex_fid 2 0) x then fetchBlock ex_fork3 x else None))"
  using commit_keeps_descendants [OF ex_reach3, of "ex_fid 2 0"] by (simp add: ex_head ex_known)

text \<open>
  C34. In the states reached by pushing, refusing and committing (\<open>fork_reach\<close>), with block numbers
  below \<open>2 ^ 64 - 2048\<close>, for two blocks of the fork database the search for their branches always ends, without a
  panic and without an error, and returns the ways up from both blocks, the last block of both being
  their nearest common ancestor.
\<close>

theorem FetchBranch_finds_ancestor:
  assumes "fork_reach root db" and "level (fk_head db) + 2048 < 2 ^ 64" and "known db id1" and "known db id2"
  shows "\<exists>m1 m2 a. FetchBranch id1 id2 db = Some (Inr ((path db (Suc m1) id1, path db (Suc m2) id2), None)) \<and>
    up db m1 id1 = a \<and> up db m2 id2 = a \<and> known db a \<and>
    (\<forall>c. known db c \<longrightarrow> is_anc db c id1 \<longrightarrow> is_anc db c id2 \<longrightarrow> is_anc db c a)"
proof -
  obtain m1 m2 where "FetchBranch id1 id2 db = Some (Inr ((path db (Suc m1) id1, path db (Suc m2) id2), None))"
    "up db m1 id1 = up db m2 id2" "known db (up db m1 id1)"
    "\<And>c. known db c \<Longrightarrow> is_anc db c id1 \<Longrightarrow> is_anc db c id2 \<Longrightarrow> is_anc db c (up db m1 id1)"
    by (rule FetchBranch_paths [OF reach_facts(1,2) [OF assms(1)] assms(2-4)]) blast
  then show ?thesis by (intro exI [of _ m1] exI [of _ m2] exI [of _ "up db m1 id1"]) simp
qed

theorem FetchBranch_finds_ancestor_witness:
  "known ex_fork3 (ex_fid 2 0) \<and> known ex_fork3 (ex_fid 2 1) \<and>
   (\<exists>m1 m2. FetchBranch (ex_fid 2 0) (ex_fid 2 1) ex_fork3 =
      Some (Inr ((path ex_fork3 (Suc m1) (ex_fid 2 0), path ex_fork3 (Suc m2) (ex_fid 2 1)), None)))"
  using FetchBranch_finds_ancestor [OF ex_reach3, of "ex_fid 2 0" "ex_fid 2 1"] by (auto simp: ex_head ex_known)

text \<open>
  C38. The search for the branches of a block that is not in the fork database never ends when its
  number is above the other block's: the loop appends the missing id for ever.
\<close>

theorem FetchBranch_of_missing_block_never_ends:
  assumes "fetchBlock db id1 = None" and "BlockNum id2 < BlockNum id1"
  shows "FetchBranch id1 id2 db = None"
  using climb_unknown [OF _ assms(1), of "BlockNum id2" "[]"] assms(2)
  by (cases "climb db (BlockNum id2) id1 []") (auto simp: FetchBranch_def)

theorem FetchBranch_of_missing_block_never_ends_witness:
  "fetchBlock ex_fork3 (ex_fid 3 0) = None \<and> FetchBranch (ex_fid 3 0) (ex_fid 2 0) ex_fork3 = None"
proof -
  have "fetchBlock ex_fork3 (ex_fid 3 0) = None" using ex_known [of "ex_fid 3 0"] by (simp add: known_def)
  with FetchBranch_of_missing_block_never_ends [OF this, of "ex_fid 2 0"] show ?thesis by (simp add: word_less_nat_alt)
qed

text \<open>
  C37. In the states reached by pushing, refusing and committing (\<open>fork_reach\<close>), a block that is
  pushed onto the main branch and then refused is taken off again: when no block
  was waiting for it, the fork database knows the same blocks and has the same head as before.
\<close>

theorem refused_block_is_forgotten:
  assumes "fork_reach root db" and "numbered b" and "tbl_get (fk_detachedLink db) (blk_Id b) = None"
    and "pushBlock_db b db = Inr (db1, RTPushedOnMain)"
  shows "\<exists>db'. Pop db1 = Inr (db', b) \<and> fork_reach root db' \<and> fk_head db' = fk_head db \<and>
    (\<forall>x. fetchBlock db' x = fetchBlock db x) \<and> fk_detachedLink db' = fk_detachedLink db"
proof -
  obtain db' where "Pop db1 = Inr (db', b)" "fk_head db' = fk_head db" "\<And>x. fetchBlock db' x = fetchBlock db x"
    "fk_detachedLink db' = fk_detachedLink db"
    by (rule push_pop [OF reach_facts [OF assms(1)] assms(2,4,3)]) blast
  moreover from this(1) have "fork_reach root db'" by (rule fork_reach.refuse [OF assms])
  ultimately show ?thesis by blast
qed

theorem refused_block_is_forgotten_witness:
  "\<exists>db'. Pop ex_fork2 = Inr (db', ex_fblock 2 0 0) \<and> fork_reach (ex_fid 1 0) db' \<and> fk_head db' = fk_head ex_fork1 \<and>
    (\<forall>x. fetchBlock db' x = fetchBlock ex_fork1 x) \<and> fk_detachedLink db' = fk_detachedLink ex_fork1"
proof -
  have "tbl_get (fk_detachedLink ex_fork1) (blk_Id (ex_fblock 2 0 0)) = None" by (simp add: ex_fork_defs)
  from refused_block_is_forgotten [OF ex_reach1 ex_numbered(2) this ex_push2] show ?thesis .
qed

end
