(* ===== verification/ForkRun.thy ===== *)
theory ForkRun
  imports ForkBranch
begin

text \<open>
  Everything consensus does to the fork database between two starts of the node and at a start:
  besides pushing and committing, \<open>switchFork\<close> rewinds the head, moves it along another branch, gives
  up on the way or undoes the rewinding, and purges what is above the new head; a refused block is
  popped even when blocks that waited for it were attached on top of it; a start loads a snapshot.
  \<open>fork_run\<close> has a rule for each. Its parameter \<open>block_of\<close> says that ids determine blocks: ids are
  hashes. The head need not be one of the highest blocks any more, but the blocks always are a tree.
\<close>

section \<open>Leaves\<close>

definition leaf :: "'b forkdb \<Rightarrow> hash \<Rightarrow> bool" where
  "leaf db x = (\<forall>y b. fetchBlock db y = Some b \<longrightarrow> blk_Previous b \<noteq> x)"

definition good :: "(hash \<Rightarrow> 'b ISignedBlock_scheme) \<Rightarrow> 'b ISignedBlock_scheme \<Rightarrow> bool" where
  "good block_of b = (numbered b \<and> block_of (blk_Id b) = b)"

definition ids_of :: "(hash \<Rightarrow> 'b ISignedBlock_scheme) \<Rightarrow> 'b forkdb \<Rightarrow> bool" where
  "ids_of block_of db =
     ((\<forall>x b. fetchBlock db x = Some b \<longrightarrow> b = block_of x) \<and>
      (\<forall>p b. tbl_get (fk_detachedLink db) p = Some b \<longrightarrow> block_of (blk_Id b) = b))"

lemma attach_leaf:
  assumes tree: "fork_tree root db" and after: "fork_tree root a"
    and get: "\<And>x. fetchBlock a x = (if x = blk_Id b then Some b else fetchBlock db x)"
    and fresh: "fetchBlock db (blk_Id b) = None"
  shows "leaf a (blk_Id b)"
  unfolding leaf_def
proof (intro allI impI)
  fix y c
  assume y: "fetchBlock a y = Some c"
  consider "y = blk_Id b" | "y \<noteq> blk_Id b" "y = root" | "y \<noteq> blk_Id b" "y \<noteq> root" by blast
  then show "blk_Previous c \<noteq> blk_Id b"
  proof cases
    case 1
    then have "c = b" using y get by simp
    then show ?thesis using fork_tree_block(2) [OF after y] by (auto simp: numbered_def)
  next
    case 2
    have "known a (blk_Id b)" using get by (simp add: known_def)
    then show ?thesis using root_parent_unknown [OF after] y 2(2) by (auto simp: parent_def)
  next
    case 3
    then have "fetchBlock db y = Some c" using y get by simp
    from fork_tree_block(7) [OF tree this 3(2)] fresh show ?thesis by (auto simp: known_def)
  qed
qed

lemma attach_ids:
  assumes "attach b db = Inr db'" and "ids_of block_of db" and "block_of (blk_Id b) = b"
  shows "ids_of block_of db'"
  using assms
  by (auto simp: attach_def tryNewHead_def ids_of_def res_inv fetchBlock_def tbl_get_put split: if_splits)

lemma ids_of_del:
  "tbl_ok (fk_detachedLink db) \<Longrightarrow> ids_of block_of db \<Longrightarrow>
   ids_of block_of (db\<lparr>fk_detachedLink := tbl_del k (fk_detachedLink db)\<rparr>)"
  by (auto simp: ids_of_def tbl_get_del split: if_splits)

lemma pushDetached_ids:
  "tbl_ok (fk_detachedLink db) \<Longrightarrow> ids_of block_of db \<Longrightarrow> pushDetached bid db = Inr db' \<Longrightarrow> ids_of block_of db'"
proof (induction bid db rule: pushDetached.induct)
  case (1 bid db)
  show ?case
  proof (cases "tbl_get (fk_detachedLink db) bid")
    case None
    then show ?thesis using 1(3,4) by (simp add: pushDetached.simps)
  next
    case (Some b)
    let ?db = "db\<lparr>fk_detachedLink := tbl_del bid (fk_detachedLink db)\<rparr>"
    from 1(4) Some obtain a where a: "attach b ?db = Inr a" "pushDetached (blk_Id b) a = Inr db'"
      by (auto simp: pushDetached.simps [of bid] split: sum.splits)
    have "block_of (blk_Id b) = b" using 1(3) Some by (auto simp: ids_of_def)
    from attach_ids [OF a(1) ids_of_del [OF 1(2,3)] this]
    show ?thesis using 1(1) [OF Some a(1)] a(2) attach_detachedLink [OF a(1)] 1(2) by (simp add: tbl_ok_del)
  qed
qed

lemma pushBlock_ids:
  assumes "pushBlock_db b db = Inr (db', rc)" and "tbl_ok (fk_detachedLink db)" and "ids_of block_of db"
    and "block_of (blk_Id b) = b"
  shows "ids_of block_of db'"
proof -
  consider "db' = db" | "fk_branches db' = tbl_put (blk_Id b) b (fk_branches db)" "fk_detachedLink db' = fk_detachedLink db"
    | "db' = db\<lparr>fk_detachedLink := tbl_put (blk_Previous b) b (fk_detachedLink db)\<rparr>"
    | a where "attach b db = Inr a" "pushDetached (blk_Id b) a = Inr db'"
    using assms(1) unfolding pushBlock_db_def Let_def by (auto simp: res_inv split: if_splits)
  then show ?thesis
  proof cases
    case 4
    show ?thesis
      by (rule pushDetached_ids [OF _ attach_ids [OF 4(1) assms(3,4)] 4(2)])
        (simp add: attach_detachedLink [OF 4(1)] assms(2))
  qed (use assms(3,4) in \<open>auto simp: ids_of_def fetchBlock_def tbl_get_put split: if_splits\<close>)
qed

section \<open>What sits on top after a push onto the main branch\<close>

lemma is_anc_trans: "is_anc db a b \<Longrightarrow> is_anc db b c \<Longrightarrow> is_anc db a c"
  unfolding is_anc_def using up_add by metis

lemma pushDetached_leaf:
  assumes "fork_tree root db" and "waiting_but (Some bid) db" and "fk_head db = bid" and "leaf db bid"
    and "ids_of block_of db" and "level root < level bid"
  shows "\<exists>db'. pushDetached bid db = Inr db' \<and> leaf db' (fk_head db') \<and> is_anc db' bid (fk_head db') \<and>
    level bid \<le> level (fk_head db') \<and>
    (tbl_get (fk_detachedLink db) bid \<noteq> None \<longrightarrow> level bid < level (fk_head db'))"
  using assms
proof (induction bid db rule: pushDetached.induct)
  case (1 bid db)
  show ?case
  proof (cases "tbl_get (fk_detachedLink db) bid")
    case None
    then have "pushDetached bid db = Inr db" by (simp add: pushDetached.simps)
    then show ?thesis using 1(4,5) None by simp
  next
    case (Some b)
    let ?db = "db\<lparr>fk_detachedLink := tbl_del bid (fk_detachedLink db)\<rparr>"
    note w = fork_tree_waiting [OF 1(2) Some]
    note t = fork_treeD [OF 1(2)]
    have del: "tbl_get (tbl_del bid (fk_detachedLink db)) p = (if p = bid then None else tbl_get (fk_detachedLink db) p)" for p
      using tbl_get_del [OF t(2)] .
    have tree: "fork_tree root ?db"
      using fork_tree_waiting [OF 1(2)] by (intro fork_tree_detached [OF 1(2)]) (auto simp: del tbl_ok_del t(2) split: if_splits)
    have self: "block_of (blk_Id b) = b" using 1(6) Some by (auto simp: ids_of_def)
    obtain a where a: "attach b ?db = Inr a" "fork_tree root a"
      "\<And>x. fetchBlock a x = (if x = blk_Id b then Some b else fetchBlock ?db x)" "fk_detachedLink a = fk_detachedLink ?db"
      "fk_head a = (if level (blk_Id b) = Suc (level (fk_head ?db)) then blk_Id b else fk_head ?db)"
      by (rule attach_tree [OF tree w(2) _ w(3,4)]) (use w(1) t(6) 1(4) in auto)
    have lev: "level (blk_Id b) = Suc (level bid)" using numbered_level [OF w(2)] w(1,3) by simp
    have ha: "fk_head a = blk_Id b" using a(5) lev 1(4) by simp
    have fresh: "fetchBlock ?db (blk_Id b) = None"
      using 1(5,6) self w(1) unfolding leaf_def ids_of_def by (cases "fetchBlock db (blk_Id b)") auto
    have leaf_a: "leaf a (blk_Id b)" by (rule attach_leaf [OF tree a(2,3) fresh])
    have ids: "ids_of block_of a" by (rule attach_ids [OF a(1) ids_of_del [OF t(2) 1(6)] self])
    have kn: "known a x = (x = blk_Id b \<or> known db x)" for x using a(3) by (simp add: known_def)
    have wait: "waiting_but (Some (blk_Id b)) a"
      using 1(3) unfolding waiting_but_def a(4) kn by (auto simp: del split: if_splits)
    from 1(1) [OF Some a(1,2) wait ha leaf_a ids w(3)] obtain db2 where
      db2: "pushDetached (blk_Id b) a = Inr db2" "leaf db2 (fk_head db2)" "is_anc db2 (blk_Id b) (fk_head db2)"
      "level (blk_Id b) \<le> level (fk_head db2)" by blast
    have run: "pushDetached bid db = Inr db2" using Some a(1) db2(1) by (simp add: pushDetached.simps)
    have "known db2 (blk_Id b)" using pushDetached_tree [OF a(2) _ wait] db2(1) kn by auto
    moreover have "ids_of block_of db2"
      by (rule pushDetached_ids [OF _ ids db2(1)]) (use a(4) t(2) in \<open>simp add: tbl_ok_del\<close>)
    ultimately have "fetchBlock db2 (blk_Id b) = Some b" using self by (auto simp: known_def ids_of_def)
    then have "parent db2 (blk_Id b) = bid" using w(1) by (simp add: parent_def)
    then have "is_anc db2 bid (blk_Id b)" using is_anc_step [of db2 bid "blk_Id b"] by simp
    then have "is_anc db2 bid (fk_head db2)" by (rule is_anc_trans [OF _ db2(3)])
    with run db2 lev show ?thesis by auto
  qed
qed

lemma push_main_leaf:
  assumes tree: "fork_tree root db" and wait: "waiting_but None db" and ids: "ids_of block_of db" and b: "good block_of b"
    and push: "pushBlock_db b db = Inr (db1, RTPushedOnMain)"
  shows "leaf db1 (fk_head db1)" and "level root < level (fk_head db1)" and "is_anc db1 (blk_Id b) (fk_head db1)"
    and "tbl_get (fk_detachedLink db) (blk_Id b) \<noteq> None \<Longrightarrow> fk_head db1 \<noteq> blk_Id b" and "known db1 (blk_Id b)"
proof -
  have num: "numbered b" using b by (simp add: good_def)
  obtain a where a: "fork_tree root a" "\<And>x. fetchBlock a x = (if x = blk_Id b then Some b else fetchBlock db x)"
    "fk_detachedLink a = fk_detachedLink db" "fk_head a = blk_Id b" "attach b db = Inr a"
    "pushDetached (blk_Id b) a = Inr db1" and unk: "fetchBlock db (blk_Id b) = None" and lo: "level root < level (blk_Id b)"
    by (rule push_main_steps [OF tree num push]) blast
  have kn: "known a x = (x = blk_Id b \<or> known db x)" for x using a(2) by (simp add: known_def)
  then have w: "waiting_but (Some (blk_Id b)) a" using wait by (auto simp: waiting_but_def a(3))
  from pushDetached_tree [OF a(1) _ w] kn a(6) show "known db1 (blk_Id b)" by auto
  from pushDetached_leaf [OF a(1) w a(4) attach_leaf [OF tree a(1,2) unk] attach_ids [OF a(5) ids] lo]
  have res: "leaf db1 (fk_head db1)" "is_anc db1 (blk_Id b) (fk_head db1)" "level (blk_Id b) \<le> level (fk_head db1)"
    "tbl_get (fk_detachedLink db) (blk_Id b) \<noteq> None \<longrightarrow> level (blk_Id b) < level (fk_head db1)"
    using b a(3,6) by (auto simp: good_def)
  then show "leaf db1 (fk_head db1)" "is_anc db1 (blk_Id b) (fk_head db1)" "level root < level (fk_head db1)"
    using lo by auto
  show "fk_head db1 \<noteq> blk_Id b" if "tbl_get (fk_detachedLink db) (blk_Id b) \<noteq> None" using res(4) that by auto
qed

section \<open>Popping, moving the head and purging\<close>

lemma Pop_tree:
  assumes tree: "fork_tree root db" and wait: "waiting_but None db" and leaf: "leaf db (fk_head db)"
    and lo: "level root < level (fk_head db)"
  obtains db' c where "Pop db = Inr (db', c)" and "fork_tree root db'" and "waiting_but None db'"
    and "\<And>x. fetchBlock db' x = (if x = fk_head db then None else fetchBlock db x)"
    and "fetchBlock db (fk_head db) = Some c" and "fk_head db' = blk_Previous c" and "fk_detachedLink db' = fk_detachedLink db"
proof -
  note t = fork_treeD [OF tree]
  let ?h = "fk_head db"
  obtain c where c: "fetchBlock db ?h = Some c" using t(6) by (auto simp: known_def)
  define db' where "db' = db\<lparr>fk_head := blk_Previous c, fk_branches := tbl_del ?h (fk_branches db)\<rparr>"
  have pop: "Pop db = Inr (db', c)" using c by (simp add: Pop_def db'_def fetchBlock_def)
  have get: "fetchBlock db' x = (if x = ?h then None else fetchBlock db x)" for x
    using tbl_get_del [OF t(1), of ?h x] by (simp add: db'_def fetchBlock_def)
  then have kn: "known db' x \<longleftrightarrow> x \<noteq> ?h \<and> known db x" for x by (simp add: known_def)
  have fields: "fk_head db' = blk_Previous c" "fk_detachedLink db' = fk_detachedLink db" "fk_start db' = fk_start db"
    "fk_list db' = fk_list db" "fk_branches db' = tbl_del ?h (fk_branches db)" by (simp_all add: db'_def)
  have away: "blk_Previous b \<noteq> ?h" if "fetchBlock db x = Some b" for x b using leaf that by (auto simp: leaf_def)
  have "fork_tree root db'"
  proof (rule fork_treeI)
    fix x b
    assume "fetchBlock db' x = Some b"
    then have x: "fetchBlock db x = Some b" by (auto simp: get split: if_splits)
    show "blk_Id b = x \<and> numbered b \<and> level root \<le> level x \<and> level x - level root < slots \<and>
      x \<in> set (fk_list db' ! (level x - level root)) \<and> (x = root \<or> level root < level x \<and> known db' (blk_Previous b))"
      unfolding fields kn using fork_tree_block [OF tree x] away [OF x] by blast
  next
    show "known db' (fk_head db')" unfolding fields kn
      using away [OF c] fork_tree_block(7) [OF tree c] lo by auto
    show "known db' root" unfolding kn using t(4) lo by auto
  qed (use t fork_tree_slot [OF tree] fork_tree_waiting [OF tree] in \<open>simp_all add: fields tbl_ok_del\<close>)
  moreover have "waiting_but None db'" using wait by (simp add: waiting_but_def kn fields)
  ultimately show thesis using that [OF pop] get c fields by metis
qed

lemma fork_tree_same:
  assumes "fork_tree root db" and "fk_branches db' = fk_branches db" and "fk_detachedLink db' = fk_detachedLink db"
    and "fk_list db' = fk_list db" and "fk_start db' = fk_start db" and "known db (fk_head db')"
  shows "fork_tree root db'"
proof -
  have get: "fetchBlock db' = fetchBlock db" by (simp add: fetchBlock_def assms(2) fun_eq_iff)
  then have kn: "known db' = known db" by (simp add: known_def fun_eq_iff)
  from assms(1,6) show ?thesis unfolding fork_tree_def assms(2-5) get kn by blast
qed

lemma tbl_get_filter_key: "tbl_get (filter (\<lambda>(k, v). P k) t) x = (if P x then tbl_get t x else None)"
  by (induction t) (auto simp: tbl_get_Cons)

lemma Purge_tree:
  assumes tree: "fork_tree root db"
  shows "fork_tree root (PurgeBranch db)" and "waiting_but None (PurgeBranch db)"
    and "fetchBlock (PurgeBranch db) x = (if level x \<le> level (fk_head db) then fetchBlock db x else None)"
proof -
  note t = fork_treeD [OF tree]
  define db' where "db' = PurgeBranch db"
  define l where "l = map (\<lambda>(i, l). if unat (BlockNum (fk_head db) + 1 - fk_start db) \<le> i \<and> i < unat defaultSize then [] else l)
      (enumerate 0 (fk_list db))"
  have fields: "fk_head db' = fk_head db" "fk_detachedLink db' = []" "fk_start db' = fk_start db" "fk_list db' = l"
    "fk_branches db' = filter (\<lambda>(k, v). \<not> BlockNum k > BlockNum (fk_head db)) (fk_branches db)"
    by (simp_all add: db'_def PurgeBranch_def Let_def l_def)
  have get: "fetchBlock db' x = (if level x \<le> level (fk_head db) then fetchBlock db x else None)" for x
    by (simp add: fetchBlock_def fields tbl_get_filter_key word_less_nat_alt not_less)
  then have kn: "known db' x \<longleftrightarrow> level x \<le> level (fk_head db) \<and> known db x" for x by (simp add: known_def)
  obtain hb where hb: "fetchBlock db (fk_head db) = Some hb" using t(6) by (auto simp: known_def)
  note h = fork_tree_block(3,4) [OF tree hb]
  have sub: "unat (BlockNum (fk_head db) - fk_start db) = level (fk_head db) - level root"
    using level_sub [OF h(1)] t(5) by simp
  have "unat (BlockNum (fk_head db) - fk_start db + 1) = unat (BlockNum (fk_head db) - fk_start db) + unat (1 :: u64)"
    by (rule unat_add_no_wrap) (use h(2) in \<open>simp add: sub\<close>)
  then have "unat (BlockNum (fk_head db) + 1 - fk_start db) = Suc (level (fk_head db) - level root)"
    unfolding sub add_diff_eq [symmetric] diff_add_eq by simp
  then have l: "l ! i = (if Suc (level (fk_head db) - level root) \<le> i \<and> i < 2048 then [] else fk_list db ! i)" if "i < slots" for i
    using that t(3) by (simp add: l_def nth_enumerate_eq)
  have "fork_tree root db'"
  proof (rule fork_treeI)
    fix x b
    assume "fetchBlock db' x = Some b"
    then have x: "fetchBlock db x = Some b" and le: "level x \<le> level (fk_head db)" by (auto simp: get split: if_splits)
    note o = fork_tree_block [OF tree x]
    have "x \<in> set (l ! (level x - level root))" using o(4,5) le l [OF o(4)] by auto
    moreover have "level (blk_Previous b) \<le> level (fk_head db)" if "x \<noteq> root"
      using parent_level(2) [OF tree _ that] x le by (simp add: known_def parent_def)
    ultimately show "blk_Id b = x \<and> numbered b \<and> level root \<le> level x \<and> level x - level root < slots \<and>
      x \<in> set (fk_list db' ! (level x - level root)) \<and> (x = root \<or> level root < level x \<and> known db' (blk_Previous b))"
      using o by (auto simp: fields kn)
  next
    fix i x
    assume "i < slots" "x \<in> set (fk_list db' ! i)"
    then show "level x = level root + i" using fork_tree_slot [OF tree] l by (auto simp: fields split: if_splits)
  next
    show "tbl_ok (fk_branches db')" using t(1) by (simp add: fields tbl_ok_filter)
    show "length (fk_list db') = slots" using t(3) by (simp add: fields l_def)
  qed (use t h(1) in \<open>simp_all add: fields kn tbl_ok_def\<close>)
  then show "fork_tree root (PurgeBranch db)" by (simp add: db'_def)
  show "waiting_but None (PurgeBranch db)" using fields(2) by (simp add: waiting_but_def db'_def)
  show "fetchBlock (PurgeBranch db) x = (if level x \<le> level (fk_head db) then fetchBlock db x else None)"
    using get by (simp add: db'_def)
qed

section \<open>The runs of the fork database\<close>

text \<open>The oldest block after a start: the last one of the block log, or the first of the snapshot.\<close>

definition loaded_root :: "'b ISignedBlock_scheme option \<Rightarrow> 'b ISignedBlock_scheme list option \<Rightarrow> hash" where
  "loaded_root lastCommittedBlock snapshot =
     (case lastCommittedBlock of
        Some b \<Rightarrow> blk_Id b
      | None \<Rightarrow> (case snapshot of Some (b # _) \<Rightarrow> blk_Id b | _ \<Rightarrow> zero_id))"

inductive fork_run :: "(hash \<Rightarrow> 'b ISignedBlock_scheme) \<Rightarrow> hash \<Rightarrow> 'b forkdb \<Rightarrow> bool" for block_of where
  first: "good block_of b \<Longrightarrow> pushBlock_db b NewDB = Inr (db, rc) \<Longrightarrow> fork_run block_of (blk_Id b) db"
| load: "(\<And>b. lastCommittedBlock = Some b \<Longrightarrow> good block_of b) \<Longrightarrow>
    (\<And>bs b. snapshot = Some bs \<Longrightarrow> b \<in> set bs \<Longrightarrow> good block_of b) \<Longrightarrow>
    LoadSnapshot lastCommittedBlock snapshot old = Inr db \<Longrightarrow> fk_branches db \<noteq> [] \<Longrightarrow>
    fork_run block_of (loaded_root lastCommittedBlock snapshot) db"
| push: "fork_run block_of root db \<Longrightarrow> good block_of b \<Longrightarrow> pushBlock_db b db = Inr (db', rc) \<Longrightarrow>
    fork_run block_of root db'"
| refuse: "fork_run block_of root db \<Longrightarrow> good block_of b \<Longrightarrow> pushBlock_db b db = Inr (db1, RTPushedOnMain) \<Longrightarrow>
    Pop db1 = Inr (db', c) \<Longrightarrow> fork_run block_of root db'"
| rewind: "fork_run block_of root db \<Longrightarrow> known db to \<Longrightarrow> fork_run block_of root (fst (RewindBranch to db))"
| apply_block: "fork_run block_of root db \<Longrightarrow> known db bid \<Longrightarrow> fork_run block_of root (rw_ApplyBlock bid db)"
| undo: "fork_run block_of root db \<Longrightarrow> known db (rw_from r) \<Longrightarrow> fork_run block_of root (rw_Undo r db)"
| purge: "fork_run block_of root db \<Longrightarrow> fork_run block_of root (PurgeBranch db)"
| commit: "fork_run block_of root db \<Longrightarrow> level (fk_head db) + 2048 < 2 ^ 64 \<Longrightarrow> known db c \<Longrightarrow>
    is_anc db c (fk_head db) \<Longrightarrow> forkdb_Commit c db = Inr db' \<Longrightarrow> fork_run block_of c db'"

definition run_inv :: "(hash \<Rightarrow> 'b ISignedBlock_scheme) \<Rightarrow> hash \<Rightarrow> 'b forkdb \<Rightarrow> bool" where
  "run_inv block_of root db = (fork_tree root db \<and> waiting_but None db \<and> ids_of block_of db)"

lemma run_inv_fewer:
  assumes "run_inv block_of root db" and "fork_tree root' db'" and "waiting_but None db'"
    and "\<And>x b. fetchBlock db' x = Some b \<Longrightarrow> fetchBlock db x = Some b"
    and "\<And>p b. tbl_get (fk_detachedLink db') p = Some b \<Longrightarrow> tbl_get (fk_detachedLink db) p = Some b"
  shows "run_inv block_of root' db'"
  using assms unfolding run_inv_def ids_of_def by metis

lemma run_inv_head: "run_inv block_of root db \<Longrightarrow> known db x \<Longrightarrow> run_inv block_of root (db\<lparr>fk_head := x\<rparr>)"
  by (rule run_inv_fewer) (auto simp: run_inv_def waiting_but_def intro: fork_tree_same)

lemma run_inv_push:
  assumes "run_inv block_of root db" and "good block_of b" and "pushBlock_db b db = Inr (db', rc)"
  shows "run_inv block_of root db'"
proof -
  have r: "fork_tree root db" "waiting_but None db" "ids_of block_of db" and b: "numbered b" "block_of (blk_Id b) = b"
    using assms(1,2) by (auto simp: run_inv_def good_def)
  from pushBlock_tree [OF r(1,2) b(1)] assms(3) have "fork_tree root db'" "waiting_but None db'" by auto
  moreover have "ids_of block_of db'" by (rule pushBlock_ids [OF assms(3) fork_treeD(2) [OF r(1)] r(3) b(2)])
  ultimately show ?thesis by (simp add: run_inv_def)
qed

lemma run_inv_first:
  assumes "good block_of b" and "pushBlock_db b NewDB = Inr (db, rc)"
  shows "run_inv block_of (blk_Id b) db"
proof -
  have b: "numbered b" "block_of (blk_Id b) = b" using assms(1) by (auto simp: good_def)
  from pushBlock_first [OF b(1)] assms(2) have "fork_tree (blk_Id b) db" "waiting_but None db" by auto
  moreover have "ids_of block_of db"
    by (rule pushBlock_ids [OF assms(2)]) (simp_all add: NewDB_def ids_of_def tbl_ok_def fetchBlock_def b(2))
  ultimately show ?thesis by (simp add: run_inv_def)
qed

lemma run_inv_push_all:
  "run_inv block_of root db \<Longrightarrow> (\<And>b. b \<in> set bs \<Longrightarrow> good block_of b) \<Longrightarrow> push_all bs db = Inr db' \<Longrightarrow> run_inv block_of root db'"
proof (induction bs arbitrary: db)
  case (Cons b bs)
  from Cons.prems(3) obtain db1 rc where "pushBlock_db b db = Inr (db1, rc)" "push_all bs db1 = Inr db'"
    by (auto simp: res_inv)
  with Cons run_inv_push [OF Cons.prems(1) _ this(1)] show ?case by simp
qed simp

lemma run_inv_committed: "run_inv block_of root db \<Longrightarrow> run_inv block_of root (db\<lparr>fk_lastCommitted := c\<rparr>)"
  by (rule run_inv_fewer) (auto simp: run_inv_def waiting_but_def intro!: fork_tree_same [of root db] fork_treeD(6))

lemma Reset_New: "forkdb_Reset db = NewDB"
  by (simp add: forkdb_Reset_def NewDB_def)

lemma run_inv_load:
  assumes lc: "\<And>b. lastCommittedBlock = Some b \<Longrightarrow> good block_of b"
    and snap: "\<And>bs b. snapshot = Some bs \<Longrightarrow> b \<in> set bs \<Longrightarrow> good block_of b"
    and run: "LoadSnapshot lastCommittedBlock snapshot old = Inr db" and nonempty: "fk_branches db \<noteq> []"
  shows "run_inv block_of (loaded_root lastCommittedBlock snapshot) db"
proof -
  have restored: "run_inv block_of (blk_Id b) db"
    if "lastCommittedBlock = Some b" "pushBlock_db b NewDB = Inr (db1, rc)" "db = db1\<lparr>fk_lastCommitted := blk_Id b\<rparr>" for b db1 rc
    using run_inv_committed [OF run_inv_first [OF lc [OF that(1)] that(2)]] that(3) by simp
  have new: "fk_branches NewDB = []" by (simp add: NewDB_def)
  consider "snapshot = None \<or> snapshot = Some []" | b0 bs where "snapshot = Some (b0 # bs)"
    by (metis list.exhaust option.exhaust)
  then show ?thesis
  proof cases
    case 1
    then obtain b db1 rc where "lastCommittedBlock = Some b" "pushBlock_db b NewDB = Inr (db1, rc)"
      "db = db1\<lparr>fk_lastCommitted := blk_Id b\<rparr>"
      using run nonempty new by (cases lastCommittedBlock) (auto simp: LoadSnapshot_def Let_def Reset_New res_inv)
    with restored show ?thesis by (simp add: loaded_root_def)
  next
    case 2
    obtain db0 rc0 db1 where p: "pushBlock_db b0 NewDB = Inr (db0, rc0)" "push_all bs db0 = Inr db1"
      and rest: "(case lastCommittedBlock of
            Some b \<Rightarrow> (if blk_Id b \<noteq> blk_Id b0
              then rbind (pushBlock_db b NewDB) (\<lambda>(db1, rc). Inr (db1\<lparr>fk_lastCommitted := blk_Id b\<rparr>))
              else Inr (db1\<lparr>fk_lastCommitted := blk_Id b\<rparr>))
          | None \<Rightarrow> (if BlockNum (blk_Id b0) \<noteq> 1 then Inr NewDB else Inr db1)) = Inr db"
      using run 2 unfolding LoadSnapshot_def Reset_New Let_def by (auto simp: res_inv)
    have "run_inv block_of (blk_Id b0) db0" by (rule run_inv_first [OF snap [OF 2] p(1)]) simp
    then have inv: "run_inv block_of (blk_Id b0) db1" by (rule run_inv_push_all [OF _ snap [OF 2] p(2)]) simp
    show ?thesis
    proof (cases lastCommittedBlock)
      case None
      then show ?thesis using rest inv nonempty new 2 by (auto simp: loaded_root_def split: if_splits)
    next
      case (Some b)
      then show ?thesis using rest inv restored [OF Some] run_inv_committed [OF inv]
        by (auto simp: loaded_root_def res_inv split: if_splits)
    qed
  qed
qed

lemma run_inv: "fork_run block_of root db \<Longrightarrow> run_inv block_of root db"
proof (induction rule: fork_run.induct)
  case (first b db rc)
  then show ?case by (rule run_inv_first)
next
  case (load lastCommittedBlock snapshot old db)
  then show ?case by (rule run_inv_load)
next
  case (push root db b db' rc)
  from run_inv_push [OF push(4,2,3)] show ?case .
next
  case (refuse root db b db1 db' c)
  note inv = run_inv_push [OF refuse(5,2,3)]
  have i: "fork_tree root db1" "waiting_but None db1" using inv by (simp_all add: run_inv_def)
  have j: "fork_tree root db" "waiting_but None db" "ids_of block_of db" using refuse(5) by (simp_all add: run_inv_def)
  obtain d e where d: "Pop db1 = Inr (d, e)" "fork_tree root d" "waiting_but None d"
    "\<And>x. fetchBlock d x = (if x = fk_head db1 then None else fetchBlock db1 x)" "fk_detachedLink d = fk_detachedLink db1"
    by (rule Pop_tree [OF i push_main_leaf(1,2) [OF j refuse(2,3)]]) blast
  have "run_inv block_of root d" by (rule run_inv_fewer [OF inv d(2,3)]) (auto simp: d(4,5) split: if_splits)
  with d(1) refuse(4) show ?case by simp
next
  case (rewind root db to)
  then show ?case by (simp add: RewindBranch_def Let_def run_inv_head)
next
  case (apply_block root db bid)
  then show ?case by (simp add: rw_ApplyBlock_def run_inv_head)
next
  case (undo root db r)
  then show ?case by (simp add: rw_Undo_def run_inv_head)
next
  case (purge root db)
  then have tree: "fork_tree root db" by (simp add: run_inv_def)
  show ?case
    by (rule run_inv_fewer [OF purge(2) Purge_tree(1,2) [OF tree]])
      (auto simp: Purge_tree(3) [OF tree] split: if_splits, simp add: PurgeBranch_def Let_def)
next
  case (commit root db c db')
  then have i: "fork_tree root db" "waiting_but None db" by (simp_all add: run_inv_def)
  obtain d where d: "forkdb_Commit c db = Inr d" "fork_tree c d" "waiting_but None d"
    "\<And>x. fetchBlock d x = (if is_anc db c x \<and> level x \<le> level (fk_head db) then fetchBlock db x else None)"
    by (rule Commit_tree [OF i commit(3,4,2)]) blast
  have "tbl_get (fk_detachedLink d) p = Some b \<Longrightarrow> tbl_get (fk_detachedLink db) p = Some b" for p b
    using d(1) tbl_get_filterD [OF fork_treeD(2) [OF i(1)]]
    by (fastforce simp: forkdb_Commit_def Let_def res_inv purgeDetached_def split: option.splits)
  then have "run_inv block_of c d" by (intro run_inv_fewer [OF commit(6) d(2,3)]) (auto simp: d(4) split: if_splits)
  with d(1) commit(5) show ?case by simp
qed

lemmas run_facts = conjunct1 [OF run_inv [unfolded run_inv_def]]
  conjunct1 [OF conjunct2 [OF run_inv [unfolded run_inv_def]]] conjunct2 [OF conjunct2 [OF run_inv [unfolded run_inv_def]]]


section \<open>An example: a block that waits, and a rewound head\<close>

text \<open>
  The blocks 1 and 2a with 2a as the head; block 3, whose parent 2b is missing, waits; the head is
  rewound to 1 and stays there; then 2b arrives.
\<close>

definition ex_block_of :: "hash \<Rightarrow> ISignedBlock" where
  "ex_block_of x = ex_fblock (x ! 0) (x ! 8) (if x ! 0 = 3 then 1 else 0)"

definition ex_fork4 :: "unit forkdb" where
  "ex_fork4 = ex_fork2\<lparr>fk_detachedLink := [(ex_fid 2 1, ex_fblock 3 0 1)]\<rparr>"

definition ex_fork5 :: "unit forkdb" where
  "ex_fork5 = ex_fork4\<lparr>fk_head := ex_fid 1 0\<rparr>"


lemma ex_good: "good ex_block_of (ex_fblock 1 0 0)" "good ex_block_of (ex_fblock 2 0 0)"
  "good ex_block_of (ex_fblock 2 1 0)" "good ex_block_of (ex_fblock 3 0 1)"
  by (simp_all add: good_def numbered_def ex_block_of_def ex_fblock_def) (simp_all add: ex_fid_def)

lemma ex_wait: "pushBlock_db (ex_fblock 3 0 1) ex_fork2 = Inr (ex_fork4, RTDetached)"
  by (simp add: ex_push_simps ex_fork4_def nth_list_update word_le_nat_alt)


lemma ex_known2: "known ex_fork4 x \<longleftrightarrow> x \<in> {ex_fid 1 0, ex_fid 2 0}"
  by (auto simp: known_def fetchBlock_def ex_fork_defs ex_fork4_def tbl_get_Cons)

lemma ex_run5: "fork_run ex_block_of (ex_fid 1 0) ex_fork5"
proof -
  have "fork_run ex_block_of (ex_fid 1 0) ex_fork1"
    using fork_run.first [OF ex_good(1) ex_push1] by (simp add: ex_fblock_def)
  then have "fork_run ex_block_of (ex_fid 1 0) ex_fork2" by (rule fork_run.push [OF _ ex_good(2) ex_push2])
  then have "fork_run ex_block_of (ex_fid 1 0) ex_fork4" by (rule fork_run.push [OF _ ex_good(4) ex_wait])
  from fork_run.rewind [OF this, of "ex_fid 1 0"] show ?thesis
    by (simp add: ex_known2 RewindBranch_def ex_fork5_def)
qed

section \<open>Properties\<close>

text \<open>
  C33. In every state the fork database gets into by loading a snapshot, pushing blocks, popping a
  refused block, rewinding, moving and undoing the head, purging and committing, each block leads,
  parent by parent and one number at a time, over known blocks to the oldest one, at most 2048 numbers
  below; the head is one of the blocks; and no block waits for a parent that is there. It is assumed
  that ids determine blocks and that a block's number is one above its parent's.
\<close>

theorem every_block_leads_to_the_root:
  assumes "fork_run block_of root db" and "known db x"
  shows "up db (level x - level root) x = root \<and>
    (\<forall>n \<le> level x - level root. known db (up db n x) \<and> level (up db n x) = level x - n) \<and>
    level root \<le> level x \<and> level x \<le> level root + 2048 \<and> known db (fk_head db) \<and>
    tbl_get (fk_detachedLink db) x = None"
proof (intro conjI)
  note r = run_facts [OF assms(1)]
  obtain b where b: "fetchBlock db x = Some b" using assms(2) by (auto simp: known_def)
  show "up db (level x - level root) x = root" by (rule up_root [OF r(1) assms(2)])
  show "\<forall>n \<le> level x - level root. known db (up db n x) \<and> level (up db n x) = level x - n"
    using up_level [OF r(1) assms(2)] by (metis add_diff_cancel_right')
  show "level root \<le> level x" and "level x \<le> level root + 2048"
    using fork_tree_block(3,4) [OF r(1) b] by simp_all
  show "known db (fk_head db)" by (rule fork_treeD(6) [OF r(1)])
  show "tbl_get (fk_detachedLink db) x = None"
    using r(2) assms(2) by (cases "tbl_get (fk_detachedLink db) x") (auto simp: waiting_but_def)
qed

theorem every_block_leads_to_the_root_witness:
  "known ex_fork5 (ex_fid 2 0) \<and> level (fk_head ex_fork5) < level (ex_fid 2 0) \<and>
   up ex_fork5 1 (ex_fid 2 0) = ex_fid 1 0 \<and> tbl_get (fk_detachedLink ex_fork5) (ex_fid 2 0) = None"
proof -
  have k: "known ex_fork5 (ex_fid 2 0)" using ex_known2 by (simp add: ex_fork5_def)
  from every_block_leads_to_the_root [OF ex_run5 k] k show ?thesis by (simp add: ex_fork5_def)
qed



end
