(* ===== verification/Dynasty.thy ===== *)
theory Dynasty
  imports TrxMgr
begin

text \<open>
  Dynasties of validators (\<open>consensus/dynasty.go\<close>, \<open>consensus/validators.go\<close>) and the check of the
  signatures of a commit (\<open>verifyCommitSig\<close> of \<open>consensus/sabft.go\<close>). A commit and the votes in it are
  messages of the agreement library gobft: a record has the fields the source reads, and one field for
  the rest of the content. The methods of the library on them (digests, encoding, height, basic
  checks), recovering a public key from a signature and the text form of a key are parameters, the
  fields of \<open>bft_env\<close>. The private key of the node is not kept with a dynasty. The theory shows that
  two accepted commits share more than a third of the validators, provided no validator is counted
  twice, and that nothing in the check rules out the latter.
\<close>

section \<open>Messages of the agreement library\<close>

record vote =
  vt_Address :: bytes
  vt_Signature :: bytes
  vt_rest :: bytes

record bft_commit =
  cm_ProposedData :: hash
  cm_Prev :: hash
  cm_Precommits :: "vote list"
  cm_Address :: bytes
  cm_Signature :: bytes
  cm_rest :: bytes

definition ExtractBlockID :: "bft_commit \<Rightarrow> hash" where
  "ExtractBlockID c = cm_ProposedData c"

section \<open>Validators and dynasties\<close>

text \<open>
  What the code calls of libraries: \<open>be_recover\<close> gives the compressed public key a signature of a
  digest was made with; the methods of votes and commits, and the decoder, are gobft's.
\<close>

record bft_env =
  be_recover :: "bytes \<Rightarrow> bytes \<Rightarrow> pubkey option"
  be_ToWIF :: "pubkey \<Rightarrow> bytes"
  be_voteDigest :: "vote \<Rightarrow> bytes"
  be_commitDigest :: "bft_commit \<Rightarrow> bytes"
  be_Height :: "bft_commit \<Rightarrow> int"
  be_Bytes :: "bft_commit \<Rightarrow> bytes"
  be_ValidateBasic :: "bft_commit \<Rightarrow> bool"
  be_decode :: "bytes \<Rightarrow> bft_commit option"

record publicValidator =
  pv_accountName :: name
  pv_pubKey :: pubkey
  pv_bftPubKey :: bytes

definition newPubValidator :: "bft_env \<Rightarrow> pubkey \<Rightarrow> name \<Rightarrow> publicValidator" where
  "newPubValidator env pk n = \<lparr>pv_accountName = n, pv_pubKey = pk, pv_bftPubKey = be_ToWIF env pk\<rparr>"

definition VerifySig :: "bft_env \<Rightarrow> bytes \<Rightarrow> bytes \<Rightarrow> publicValidator \<Rightarrow> bool" where
  "VerifySig env digest signature pv =
     (if Signature_Validate signature \<noteq> None then False
      else case be_recover env digest signature of None \<Rightarrow> False | Some key \<Rightarrow> pv_pubKey pv = key)"

record dynasty =
  dy_Seq :: u64
  dy_validators :: "publicValidator list"

definition GetValidatorNum :: "dynasty \<Rightarrow> nat" where
  "GetValidatorNum d = length (dy_validators d)"

definition GetValidatorByPubKey :: "bytes \<Rightarrow> dynasty \<Rightarrow> publicValidator option" where
  "GetValidatorByPubKey k d = find (\<lambda>v. pv_bftPubKey v = k) (dy_validators d)"

definition makeDynasty :: "bft_env \<Rightarrow> u64 \<Rightarrow> name list \<Rightarrow> pubkey list \<Rightarrow> dynasty" where
  "makeDynasty env sq prods keys =
     \<lparr>dy_Seq = sq, dy_validators = map2 (\<lambda>k n. newPubValidator env k n) keys prods\<rparr>"

text \<open>The dynasties, oldest first. Reading the front of an empty list is a nil dereference.\<close>

type_synonym dynasties = "dynasty list"

definition Front :: "dynasties \<Rightarrow> dynasty res" where
  "Front ds = (case ds of [] \<Rightarrow> Inl NilDeref | d # _ \<Rightarrow> Inr d)"

definition Back :: "dynasties \<Rightarrow> dynasty res" where
  "Back ds = (if ds = [] then Inl NilDeref else Inr (last ds))"

fun PopBefore :: "u64 \<Rightarrow> dynasty option \<Rightarrow> dynasties \<Rightarrow> dynasty option \<times> dynasties" where
  "PopBefore sq res [] = (res, [])"
| "PopBefore sq res (d # ds) = (if dy_Seq d > sq then (res, d # ds) else PopBefore sq (Some d) ds)"

definition Purge :: "u64 \<Rightarrow> dynasties \<Rightarrow> dynasties" where
  "Purge sq ds =
     (case PopBefore sq None ds of (None, ds') \<Rightarrow> ds' | (Some last_popped, ds') \<Rightarrow> last_popped # ds')"

definition PopAfter :: "u64 \<Rightarrow> dynasties \<Rightarrow> dynasties" where
  "PopAfter sq ds = rev (dropWhile (\<lambda>d. \<not> dy_Seq d < sq) (rev ds))"

definition isValidatorName :: "name \<Rightarrow> dynasties \<Rightarrow> bool res" where
  "isValidatorName name ds =
     (if ds = [] then Inl (Assert ''empty dynasty'')
      else rbind (Front ds) (\<lambda>d. Inr (list_ex (\<lambda>v. pv_accountName v = name) (dy_validators d))))"

definition isValidator :: "bytes \<Rightarrow> dynasties \<Rightarrow> bool res" where
  "isValidator key ds =
     (if ds = [] then Inl (Assert ''empty dynasty'')
      else rbind (Front ds) (\<lambda>d. Inr (list_ex (\<lambda>v. pv_bftPubKey v = key) (dy_validators d))))"

definition getValidator :: "bytes \<Rightarrow> dynasties \<Rightarrow> publicValidator option res" where
  "getValidator key ds =
     (if ds = [] then Inl (Assert ''empty dynasty'')
      else rbind (Front ds) (\<lambda>d. Inr (find (\<lambda>v. pv_bftPubKey v = key) (dy_validators d))))"

definition TotalVotingPower :: "dynasties \<Rightarrow> int res" where
  "TotalVotingPower ds =
     (if ds = [] then Inl (Assert ''empty dynasty'') else rbind (Front ds) (\<lambda>d. Inr (int (GetValidatorNum d))))"

definition GetCurrentProposer :: "nat \<Rightarrow> dynasties \<Rightarrow> bytes res" where
  "GetCurrentProposer round ds =
     (if ds = [] then Inl (Assert ''empty dynasty'')
      else rbind (Front ds) (\<lambda>d.
        if GetValidatorNum d = 0 then Inl (Assert ''integer divide by zero'')
        else Inr (pv_bftPubKey (dy_validators d ! (round mod GetValidatorNum d)))))"

section \<open>Verifying a commit\<close>

definition signed_by_validator :: "bft_env \<Rightarrow> dynasty \<Rightarrow> bytes \<Rightarrow> bytes \<Rightarrow> bytes \<Rightarrow> bool" where
  "signed_by_validator env d address digest signature =
     (case GetValidatorByPubKey address d of None \<Rightarrow> False | Some val \<Rightarrow> VerifySig env digest signature val)"

definition verifyCommitSig :: "bft_env \<Rightarrow> bft_commit \<Rightarrow> dynasties \<Rightarrow> bool res" where
  "verifyCommitSig env records ds =
     (if ds = [] then Inl (Assert ''empty dynasty'')
      else rbind (Front ds) (\<lambda>d.
        let valNum = GetValidatorNum d; precommitNum = length (cm_Precommits records) in
        Inr (if precommitNum \<le> valNum * 2 div 3 then False
             else list_all (\<lambda>v. signed_by_validator env d (vt_Address v) (be_voteDigest env v) (vt_Signature v))
                    (cm_Precommits records) \<and>
                  signed_by_validator env d (cm_Address records) (be_commitDigest env records) (cm_Signature records))))"

section \<open>Quorums\<close>

locale quorum =
  fixes members :: "'v set" and n :: nat and is_quorum :: "'v set \<Rightarrow> bool"
  assumes finite_members: "finite members" and few: "card members \<le> n"
    and inside: "is_quorum A \<Longrightarrow> A \<subseteq> members" and big: "is_quorum A \<Longrightarrow> 2 * n < 3 * card A"
begin

lemma overlap:
  assumes "is_quorum A" and "is_quorum B"
  shows "n < 3 * card (A \<inter> B)"
proof -
  have fin: "finite A" "finite B" using assms inside finite_members finite_subset by blast+
  have "card (A \<union> B) \<le> card members"
    using assms inside finite_members by (intro card_mono) auto
  moreover have "card A + card B = card (A \<union> B) + card (A \<inter> B)" by (rule card_Un_Int [OF fin])
  ultimately show ?thesis using big [OF assms(1)] big [OF assms(2)] few by linarith
qed

lemma common_honest:
  assumes "is_quorum A" and "is_quorum B" and "finite F" and "3 * card F \<le> n"
  shows "\<exists>v \<in> A \<inter> B. v \<notin> F"
proof (rule ccontr)
  assume "\<not> (\<exists>v \<in> A \<inter> B. v \<notin> F)"
  then have "card (A \<inter> B) \<le> card F" using assms(3) by (intro card_mono) auto
  with overlap [OF assms(1,2)] assms(4) show False by simp
qed

end

definition keys_of :: "dynasty \<Rightarrow> bytes set" where
  "keys_of d = pv_bftPubKey ` set (dy_validators d)"

text \<open>The validators whose signature a commit shows.\<close>

definition signers :: "bft_commit \<Rightarrow> bytes set" where
  "signers c = vt_Address ` set (cm_Precommits c)"

definition dynasty_quorum :: "bft_env \<Rightarrow> dynasty \<Rightarrow> bytes set \<Rightarrow> bool" where
  "dynasty_quorum env d A =
     (\<exists>c ds. verifyCommitSig env c (d # ds) = Inr True \<and> distinct (map vt_Address (cm_Precommits c)) \<and> A = signers c)"

lemma verified:
  assumes "verifyCommitSig env c (d # ds) = Inr True"
  shows "GetValidatorNum d * 2 div 3 < length (cm_Precommits c)"
    and "\<And>v. v \<in> set (cm_Precommits c) \<Longrightarrow> signed_by_validator env d (vt_Address v) (be_voteDigest env v) (vt_Signature v)"
  using assms by (auto simp: verifyCommitSig_def Front_def Let_def list_all_iff not_le split: if_splits)

lemma signed_by_validator_key: "signed_by_validator env d k g s \<Longrightarrow> k \<in> keys_of d"
  by (auto simp: signed_by_validator_def GetValidatorByPubKey_def keys_of_def find_Some_iff split: option.splits)

interpretation dq: quorum "keys_of d" "GetValidatorNum d" "dynasty_quorum env d" for env d
proof
  show "finite (keys_of d)" by (simp add: keys_of_def)
  show "card (keys_of d) \<le> GetValidatorNum d"
    unfolding keys_of_def GetValidatorNum_def by (meson card_image_le card_length finite_set le_trans)
next
  fix A
  assume "dynasty_quorum env d A"
  then obtain c ds where c: "verifyCommitSig env c (d # ds) = Inr True" "distinct (map vt_Address (cm_Precommits c))"
    "A = signers c" by (auto simp: dynasty_quorum_def)
  show "A \<subseteq> keys_of d"
    using verified(2) [OF c(1)] signed_by_validator_key unfolding c(3) signers_def by blast
  have "card A = length (cm_Precommits c)"
    using distinct_card [OF c(2)] by (simp add: c(3) signers_def)
  then show "2 * GetValidatorNum d < 3 * card A" using verified(1) [OF c(1)] by linarith
qed

section \<open>Dynasties over time\<close>

lemma PopBefore_eq:
  "PopBefore sq res ds =
     (let p = takeWhile (\<lambda>d. \<not> dy_Seq d > sq) ds in
      (if p = [] then res else Some (last p), dropWhile (\<lambda>d. \<not> dy_Seq d > sq) ds))"
  by (induction sq res ds rule: PopBefore.induct) (auto simp: Let_def)

lemma sorted_last: "sorted (map f xs) \<Longrightarrow> x \<in> set xs \<Longrightarrow> f x \<le> f (last xs)"
  by (induction xs) auto

text \<open>
  With dynasties in the order of their numbers, purging leaves the one in force at the given number
  in front, and popping keeps those before it.
\<close>

lemma Purge_front:
  assumes "sorted (map dy_Seq ds)" and "d \<in> set ds" and "dy_Seq d \<le> sq"
  shows "\<exists>f rest. Purge sq ds = f # rest \<and> f \<in> set ds \<and> dy_Seq f \<le> sq \<and>
    (\<forall>d' \<in> set ds. dy_Seq d' \<le> sq \<longrightarrow> dy_Seq d' \<le> dy_Seq f) \<and> (\<forall>d' \<in> set rest. dy_Seq d' > sq)"
proof -
  let ?P = "\<lambda>d. \<not> dy_Seq d > sq"
  let ?p = "takeWhile ?P ds" and ?r = "dropWhile ?P ds"
  have split: "ds = ?p @ ?r" by simp
  have s: "sorted (map dy_Seq ?p @ map dy_Seq ?r)" using assms(1) split by (metis map_append)
  have late: "dy_Seq x > sq" if "x \<in> set ?r" for x
  proof -
    from that obtain y ys where r: "?r = y # ys" by (cases ?r) auto
    then have "\<not> ?P y" using hd_dropWhile [of ?P ds] by auto
    moreover have "dy_Seq y \<le> dy_Seq x" using s that r by (auto simp: sorted_append)
    ultimately show ?thesis by auto
  qed
  have ne: "?p \<noteq> []"
  proof
    assume "?p = []"
    then have "d \<in> set ?r" using assms(2) split by (metis append_Nil)
    from late [OF this] assms(3) show False by simp
  qed
  have "sorted (map dy_Seq ?p)" using s by (simp add: sorted_append)
  note max = sorted_last [OF this]
  have "last ?p \<in> set ?p" using ne by simp
  then have "last ?p \<in> set ds" "\<not> dy_Seq (last ?p) > sq" using set_takeWhileD by fastforce+
  moreover have "dy_Seq d' \<le> dy_Seq (last ?p)" if "d' \<in> set ds" "dy_Seq d' \<le> sq" for d'
  proof -
    have "d' \<in> set (?p @ ?r)" using that(1) by simp
    then consider "d' \<in> set ?p" | "d' \<in> set ?r" unfolding set_append by blast
    then show ?thesis
    proof cases
      case 1
      then show ?thesis by (rule max)
    next
      case 2
      from late [OF this] that(2) show ?thesis by simp
    qed
  qed
  moreover have "Purge sq ds = last ?p # ?r" using ne by (simp add: Purge_def PopBefore_eq Let_def)
  ultimately show ?thesis using late unfolding not_less by blast
qed

lemma PopAfter_sorted:
  assumes "sorted (map dy_Seq ds)"
  shows "PopAfter sq ds = filter (\<lambda>d. dy_Seq d < sq) ds"
  using assms
proof (induction ds rule: rev_induct)
  case (snoc d ds)
  show ?case
  proof (cases "dy_Seq d < sq")
    case True
    then have "filter (\<lambda>d. dy_Seq d < sq) ds = ds"
      using snoc.prems by (auto simp: sorted_append filter_id_conv)
    then show ?thesis using True by (simp add: PopAfter_def)
  next
    case False
    then show ?thesis using snoc by (simp add: PopAfter_def sorted_append)
  qed
qed (simp add: PopAfter_def)

section \<open>Properties\<close>

text \<open>An example: three validators whose keys and signatures are short byte strings.\<close>

definition ex_vote :: "u8 \<Rightarrow> vote" where
  "ex_vote k = \<lparr>vt_Address = [k], vt_Signature = k # replicate 64 0, vt_rest = []\<rparr>"

definition ex_commit :: "u8 list \<Rightarrow> hash \<Rightarrow> bft_commit" where
  "ex_commit ks b = \<lparr>cm_ProposedData = b, cm_Prev = zero_id, cm_Precommits = map ex_vote ks,
     cm_Address = [hd ks], cm_Signature = hd ks # replicate 64 0, cm_rest = []\<rparr>"

definition ex_bft :: bft_env where
  "ex_bft = \<lparr>be_recover = (\<lambda>digest sig. Some [hd sig]), be_ToWIF = (\<lambda>k. k),
     be_voteDigest = (\<lambda>v. vt_Address v @ vt_rest v), be_commitDigest = cm_ProposedData,
     be_Height = (\<lambda>c. 1), be_Bytes = (\<lambda>c. 0 # cm_ProposedData c), be_ValidateBasic = (\<lambda>c. True),
     be_decode = (\<lambda>bs. Some (ex_commit [1] (tl bs)))\<rparr>"

definition ex_dynasty :: dynasty where
  "ex_dynasty = makeDynasty ex_bft 0 [''ann'', ''bob'', ''eve''] [[1], [2], [3]]"

lemma be_nat_zeros: "be_nat (replicate n 0) = 0"
  unfolding be_nat_def by (induction n) auto

lemma ex_signature_valid: "Signature_Validate (k # replicate 64 0) = None"
  by (simp add: Signature_Validate_def be_nat_zeros)

lemma ex_validators: "GetValidatorNum ex_dynasty = 3"
  by (simp add: GetValidatorNum_def ex_dynasty_def makeDynasty_def)

lemma ex_signed: "k \<in> {1, 2, 3} \<Longrightarrow> signed_by_validator ex_bft ex_dynasty [k] g (k # replicate 64 0)"
  by (auto simp: signed_by_validator_def GetValidatorByPubKey_def ex_dynasty_def makeDynasty_def newPubValidator_def
      VerifySig_def ex_signature_valid ex_bft_def)

lemma ex_verified:
  "ks \<noteq> [] \<Longrightarrow> set ks \<subseteq> {1, 2, 3} \<Longrightarrow> 2 < length ks \<Longrightarrow> verifyCommitSig ex_bft (ex_commit ks b) [ex_dynasty] = Inr True"
  using ex_signed ex_signed [OF subsetD [OF _ hd_in_set, of ks]]
  by (auto simp: verifyCommitSig_def Front_def Let_def ex_commit_def ex_vote_def list_all_iff ex_validators)

text \<open>
  C27. Two commits that the same dynasty accepts, neither of them with two votes of one validator,
  carry valid signatures of a common set of more than a third of the validators. What the common
  validators signed is the digest of their vote in either commit.
\<close>

theorem commits_share_validators:
  assumes "verifyCommitSig env c1 (d # ds1) = Inr True" and "distinct (map vt_Address (cm_Precommits c1))"
    and "verifyCommitSig env c2 (d # ds2) = Inr True" and "distinct (map vt_Address (cm_Precommits c2))"
  shows "\<exists>K \<subseteq> pv_bftPubKey ` set (dy_validators d). GetValidatorNum d < 3 * card K \<and>
    (\<forall>k \<in> K. \<exists>v1 \<in> set (cm_Precommits c1). \<exists>v2 \<in> set (cm_Precommits c2). vt_Address v1 = k \<and> vt_Address v2 = k \<and>
       signed_by_validator env d k (be_voteDigest env v1) (vt_Signature v1) \<and>
       signed_by_validator env d k (be_voteDigest env v2) (vt_Signature v2))"
proof -
  have q: "dynasty_quorum env d (signers c1)" "dynasty_quorum env d (signers c2)"
    using assms unfolding dynasty_quorum_def by metis+
  let ?K = "signers c1 \<inter> signers c2"
  have sub: "?K \<subseteq> pv_bftPubKey ` set (dy_validators d)"
    using dq.inside [OF q(1)] unfolding keys_of_def by (rule subset_trans [OF Int_lower1])
  have both: "\<exists>v1 \<in> set (cm_Precommits c1). \<exists>v2 \<in> set (cm_Precommits c2). vt_Address v1 = k \<and> vt_Address v2 = k \<and>
       signed_by_validator env d k (be_voteDigest env v1) (vt_Signature v1) \<and>
       signed_by_validator env d k (be_voteDigest env v2) (vt_Signature v2)" if "k \<in> ?K" for k
  proof -
    obtain v1 v2 where "v1 \<in> set (cm_Precommits c1)" "vt_Address v1 = k" "v2 \<in> set (cm_Precommits c2)" "vt_Address v2 = k"
      using \<open>k \<in> ?K\<close> by (auto simp: signers_def)
    with verified(2) [OF assms(1), of v1] verified(2) [OF assms(3), of v2] show ?thesis by metis
  qed
  show ?thesis
    by (intro exI [of _ ?K] conjI ballI sub dq.overlap [OF q] both)
qed

theorem commits_share_validators_witness:
  "verifyCommitSig ex_bft (ex_commit [1, 2, 3] [7]) [ex_dynasty] = Inr True \<and>
   verifyCommitSig ex_bft (ex_commit [3, 2, 1] [8]) [ex_dynasty] = Inr True \<and>
   (\<exists>K \<subseteq> pv_bftPubKey ` set (dy_validators ex_dynasty). GetValidatorNum ex_dynasty < 3 * card K \<and>
    (\<forall>k \<in> K. \<exists>v1 \<in> set (cm_Precommits (ex_commit [1, 2, 3] [7])). \<exists>v2 \<in> set (cm_Precommits (ex_commit [3, 2, 1] [8])).
       vt_Address v1 = k \<and> vt_Address v2 = k \<and>
       signed_by_validator ex_bft ex_dynasty k (be_voteDigest ex_bft v1) (vt_Signature v1) \<and>
       signed_by_validator ex_bft ex_dynasty k (be_voteDigest ex_bft v2) (vt_Signature v2)))"
proof -
  have run: "verifyCommitSig ex_bft (ex_commit [1, 2, 3] [7]) [ex_dynasty] = Inr True"
    "verifyCommitSig ex_bft (ex_commit [3, 2, 1] [8]) [ex_dynasty] = Inr True"
    by (rule ex_verified; simp)+
  have once: "distinct (map vt_Address (cm_Precommits (ex_commit [1, 2, 3] [7])))"
    "distinct (map vt_Address (cm_Precommits (ex_commit [3, 2, 1] [8])))"
    by (simp_all add: ex_commit_def ex_vote_def)
  show ?thesis
    by (intro conjI run commits_share_validators [OF run(1) once(1) run(2) once(2)])
qed

text \<open>
  C31. The check counts votes, not validators. A single validator of the dynasty, able to sign
  whatever it likes with its own key, can put together a commit of any block after any other that the
  check accepts and in which every vote is its own. Of the agreement library this takes only that a
  digest does not cover the signature made of it.
\<close>

theorem one_validator_can_pass:
  assumes own_key: "\<And>g. signed_by_validator env d k g (sign g)"
    and vote_digest: "\<And>v x. be_voteDigest env (v\<lparr>vt_Signature := x\<rparr>) = be_voteDigest env v"
    and commit_digest: "\<And>c x. be_commitDigest env (c\<lparr>cm_Signature := x\<rparr>) = be_commitDigest env c"
  shows "\<exists>c. verifyCommitSig env c (d # ds) = Inr True \<and> ExtractBlockID c = block \<and> cm_Prev c = prev \<and>
    cm_rest c = content \<and> (\<forall>v \<in> set (cm_Precommits c). vt_Address v = k \<and> vt_rest v = ballot) \<and> cm_Address c = k"
proof -
  define v0 where "v0 = \<lparr>vt_Address = k, vt_Signature = [], vt_rest = ballot\<rparr>"
  define v where "v = v0\<lparr>vt_Signature := sign (be_voteDigest env v0)\<rparr>"
  define c0 where "c0 = \<lparr>cm_ProposedData = block, cm_Prev = prev,
    cm_Precommits = replicate (Suc (GetValidatorNum d)) v, cm_Address = k, cm_Signature = [], cm_rest = content\<rparr>"
  define c where "c = c0\<lparr>cm_Signature := sign (be_commitDigest env c0)\<rparr>"
  have "signed_by_validator env d k (be_voteDigest env v) (vt_Signature v)"
    unfolding v_def vote_digest by (simp add: own_key)
  moreover have "signed_by_validator env d k (be_commitDigest env c) (cm_Signature c)"
    unfolding c_def commit_digest by (simp add: own_key)
  moreover have parts: "cm_Precommits c = replicate (Suc (GetValidatorNum d)) v" "cm_Address c = k" "vt_Address v = k"
    "vt_rest v = ballot" "cm_ProposedData c = block" "cm_Prev c = prev" "cm_rest c = content"
    by (simp_all add: c_def c0_def v_def v0_def)
  ultimately have "verifyCommitSig env c (d # ds) = Inr True"
    by (simp add: verifyCommitSig_def Front_def Let_def list_all_iff del: replicate_Suc)
  then show ?thesis using parts by (intro exI [of _ c]) (simp add: ExtractBlockID_def)
qed

theorem one_validator_can_pass_witness:
  "GetValidatorNum ex_dynasty = 3 \<and>
   (\<exists>c. verifyCommitSig ex_bft c [ex_dynasty] = Inr True \<and> ExtractBlockID c = [7] \<and> cm_Prev c = zero_id \<and>
     cm_rest c = [] \<and> (\<forall>v \<in> set (cm_Precommits c). vt_Address v = [1] \<and> vt_rest v = []) \<and> cm_Address c = [1])"
proof -
  have "signed_by_validator ex_bft ex_dynasty [1] g (1 # replicate 64 0)" for g by (rule ex_signed) simp
  then have "\<exists>c. verifyCommitSig ex_bft c [ex_dynasty] = Inr True \<and> ExtractBlockID c = [7] \<and> cm_Prev c = zero_id \<and>
     cm_rest c = [] \<and> (\<forall>v \<in> set (cm_Precommits c). vt_Address v = [1] \<and> vt_rest v = []) \<and> cm_Address c = [1]"
    by (rule one_validator_can_pass) (simp_all add: ex_bft_def)
  with ex_validators show ?thesis by blast
qed

end
