(* ===== verification/Slots.thy ===== *)
theory Slots
  imports ForkDB TrxPool
begin

text \<open>
  Time slots and the turns of the block producers (\<open>consensus/sabft.go\<close>): every second is a slot, and
  the producers of the current list take turns of \<open>BlockProdRepetition\<close> slots each. Times are Unix
  seconds; \<open>now\<close> is the clock, rounded as the source rounds it. The list of producers and the fork
  database are arguments. The theory shows that who produces at a time depends on the time alone, and
  that every producer has a turn within one round.
\<close>

definition MaxUncommittedBlockNum :: u64 where "MaxUncommittedBlockNum = 600"

definition getSlotTime :: "u64 \<Rightarrow> 'b forkdb \<Rightarrow> u64" where
  "getSlotTime sl db =
     (if sl = 0 then 0
      else case forkdb_Head db of
             None \<Rightarrow> ucast GenesisTime + sl * BlockInterval
           | Some head \<Rightarrow>
               (let headSlotTime = blk_Timestamp head div BlockInterval * BlockInterval in
                headSlotTime + sl * BlockInterval))"

definition getSlotAtTime :: "u64 \<Rightarrow> 'b forkdb \<Rightarrow> u64" where
  "getSlotAtTime t db =
     (let nextSlotTime = getSlotTime 1 db in
      if t < nextSlotTime then 0 else (t - nextSlotTime) div BlockInterval + 1)"

definition nth_producer :: "name list \<Rightarrow> u64 \<Rightarrow> name res" where
  "nth_producer producers i =
     (if unat i < length producers then Inr (producers ! unat i) else Inl (Assert ''index out of range''))"

definition getScheduledProducer :: "name list \<Rightarrow> u64 \<Rightarrow> 'b forkdb \<Rightarrow> name res" where
  "getScheduledProducer producers sl db =
     (if forkdb_Empty db then nth_producer producers 0
      else case forkdb_Head db of
             None \<Rightarrow> Inl NilDeref
           | Some head \<Rightarrow>
               (let absSlot = (blk_Timestamp head - ucast GenesisTime) div BlockInterval in
                if producers = [] then Inl (Assert ''integer divide by zero'')
                else nth_producer producers ((absSlot + sl) div BlockProdRepetition mod of_nat (length producers))))"

definition CurrentProducer :: "name list \<Rightarrow> u64 \<Rightarrow> 'b forkdb \<Rightarrow> name res" where
  "CurrentProducer producers now db = getScheduledProducer producers (getSlotAtTime now db) db"

definition checkSync :: "u64 \<Rightarrow> 'b forkdb \<Rightarrow> bool" where
  "checkSync now db = (\<not> getSlotTime 1 db < now)"

text \<open>The slot the node would produce in, and whether there is one.\<close>

definition checkProducingTiming :: "u64 \<Rightarrow> 'b forkdb \<Rightarrow> u64 \<times> bool" where
  "checkProducingTiming now db = (let sl = getSlotAtTime now db in (sl, sl \<noteq> 0))"

definition checkOurTurn :: "name \<Rightarrow> name list \<Rightarrow> u64 \<Rightarrow> 'b forkdb \<Rightarrow> bool res" where
  "checkOurTurn ours producers sl db =
     rbind (getScheduledProducer producers sl db) (\<lambda>producer. Inr (ours = producer))"

definition tooManyUncommittedBlocks :: "'b forkdb \<Rightarrow> bool res" where
  "tooManyUncommittedBlocks db =
     (if forkdb_Empty db then Inr False
      else case forkdb_Head db of
             None \<Rightarrow> Inl NilDeref
           | Some head \<Rightarrow>
               Inr (BlockNum (blk_Id head) - BlockNum (fk_lastCommitted db) > MaxUncommittedBlockNum))"

text \<open>\<open>ValidateAddress\<close> of the controller, and the check of a received block against its slot.\<close>

definition ValidateAddress :: "name \<Rightarrow> pubkey \<Rightarrow> db \<Rightarrow> bool" where
  "ValidateAddress name key s =
     (case tbl_get (db_producers s) name of None \<Rightarrow> False | Some bp \<Rightarrow> key = bp_SigningKey bp)"

definition validateProducer ::
  "bool \<Rightarrow> u64 \<Rightarrow> name list \<Rightarrow> db \<Rightarrow> pubkey option \<Rightarrow> 'b ISignedBlock_scheme \<Rightarrow> 'b forkdb \<Rightarrow> bool res" where
  "validateProducer readyToProduce now producers s signee b db =
     (if \<not> readyToProduce then Inr True
      else case forkdb_Head db of
             None \<Rightarrow> Inl NilDeref
           | Some head \<Rightarrow>
               (let slotTime = getSlotTime (getSlotAtTime now db) db in
                if blk_Timestamp head \<ge> blk_Timestamp b \<or> blk_Timestamp b > slotTime then Inr False
                else
                  rbind (getScheduledProducer producers (getSlotAtTime (blk_Timestamp b) db) db) (\<lambda>validProducer.
                  case signee of
                    None \<Rightarrow> Inr False
                  | Some pubKey \<Rightarrow> Inr (ValidateAddress validProducer pubKey s))))"

section \<open>Turns\<close>

lemma BlockInterval_1 [simp]: "BlockInterval = 1"
  by (simp add: BlockInterval_def)

lemma slot_of_time:
  assumes "forkdb_Head db = Some head" and "blk_Timestamp head < t"
  shows "getSlotAtTime t db = t - blk_Timestamp head" and "getSlotAtTime t db \<noteq> 0"
    and "getSlotTime (getSlotAtTime t db) db = t"
proof -
  let ?ts = "blk_Timestamp head"
  have "?ts + 1 \<le> t" using assms(2) by (simp add: inc_le)
  then have "\<not> t < ?ts + 1" by simp
  then show sl: "getSlotAtTime t db = t - ?ts"
    by (simp add: getSlotAtTime_def getSlotTime_def assms(1) Let_def)
  show "getSlotAtTime t db \<noteq> 0" using sl assms(2) by auto
  with sl show "getSlotTime (getSlotAtTime t db) db = t" by (simp add: getSlotTime_def assms(1))
qed

text \<open>The producer of a time does not depend on the head the node has.\<close>

lemma producer_of_time:
  assumes "forkdb_Head db = Some head" and "\<not> forkdb_Empty db" and "producers \<noteq> []"
    and "blk_Timestamp head < t" and "length producers < 2 ^ 64"
  shows "getScheduledProducer producers (getSlotAtTime t db) db =
    Inr (producers ! ((unat t - 1) div 5 mod length producers))"
proof -
  have pos: "0 < t" using assms(4) by (rule order.strict_trans1 [OF word_zero_le])
  let ?i = "(t - 1) div BlockProdRepetition mod of_nat (length producers) :: u64"
  have "blk_Timestamp head - 1 + (t - blk_Timestamp head) = t - 1" by simp
  then have run: "getScheduledProducer producers (getSlotAtTime t db) db = nth_producer producers ?i"
    using assms(1-3) slot_of_time(1) [OF assms(1,4)]
    by (simp add: getScheduledProducer_def GenesisTime_def Let_def)
  have "unat ?i = (unat t - 1) div 5 mod length producers"
    using pos assms(5) by (simp add: unat_mod unat_div BlockProdRepetition_def unat_of_nat unat_minus_one)
  moreover have "(unat t - 1) div 5 mod length producers < length producers" using assms(3) by simp
  ultimately show ?thesis unfolding run by (simp add: nth_producer_def)
qed

lemma next_turn:
  fixes t n i :: nat
  assumes "i < n"
  shows "\<exists>t'. t < t' \<and> t' \<le> t + 5 * n \<and> (t' - 1) div 5 mod n = i"
proof -
  let ?q = "t div 5"
  have n: "0 < n" using assms by simp
  obtain d where d: "d < n" "(?q + 1 + d) mod n = i"
  proof
    let ?d = "(i + n - (?q + 1) mod n) mod n"
    show "?d < n" using n by simp
    have "(?q + 1) mod n \<le> i + n" using mod_less_divisor [OF n, of "?q + 1"] by linarith
    then have "(?q + 1) mod n + (i + n - (?q + 1) mod n) = i + n" by simp
    then have "((?q + 1) + (i + n - (?q + 1) mod n)) mod n = i"
      by (metis assms mod_add_left_eq mod_add_self2 mod_less)
    then show "(?q + 1 + ?d) mod n = i" by (metis mod_add_right_eq)
  qed
  show ?thesis
  proof (cases "d = n - 1")
    case False
    then have "d + 2 \<le> n" using d(1) by linarith
    then show ?thesis using d by (intro exI [of _ "5 * (?q + 1 + d) + 1"]) auto
  next
    case True
    then have "?q mod n = i" using d n by (metis Suc_diff_1 Suc_eq_plus1 add.assoc mod_add_self2 plus_1_eq_Suc)
    show ?thesis
    proof (cases "t mod 5 = 0")
      case True
      then have "(Suc t - 1) div 5 = ?q" by simp
      then show ?thesis using \<open>?q mod n = i\<close> n by (intro exI [of _ "Suc t"]) simp
    next
      case False
      then show ?thesis using \<open>?q mod n = i\<close> n by (intro exI [of _ "Suc t"]) simp
    qed
  qed
qed

section \<open>Properties\<close>

definition ex_slot_db :: "unit forkdb" where
  "ex_slot_db = NewDB\<lparr>fk_head := [1], fk_branches := [([1], \<lparr>blk_Id = [1], blk_Previous = zero_id, blk_Timestamp = 7\<rparr>)]\<rparr>"

lemma ex_slot_head: "forkdb_Head ex_slot_db = Some \<lparr>blk_Id = [1], blk_Previous = zero_id, blk_Timestamp = 7\<rparr>"
  and ex_slot_nonempty: "\<not> forkdb_Empty ex_slot_db"
proof -
  have "[1] \<noteq> zero_id" by (metis One_nat_def length_Cons length_replicate list.size(3) numeral_eq_one_iff semiring_norm(85) zero_id_def)
  then show "\<not> forkdb_Empty ex_slot_db" by (simp add: ex_slot_db_def forkdb_Empty_def)
qed (simp add: ex_slot_db_def forkdb_Head_def tbl_get_Cons)

text \<open>
  C28. From any time on, every producer of the list gets a slot within one round of the schedule: a
  time at which the node, whatever its head, is neither too early nor out of turn for it.
\<close>

theorem every_producer_has_a_turn:
  assumes "forkdb_Head db = Some head" and "\<not> forkdb_Empty db" and "p \<in> set producers"
    and "blk_Timestamp head \<le> t" and "unat t + 5 * length producers < 2 ^ 64"
  shows "\<exists>t'. t < t' \<and> unat t' \<le> unat t + 5 * length producers \<and>
    checkProducingTiming t' db = (getSlotAtTime t' db, True) \<and>
    getSlotTime (getSlotAtTime t' db) db = t' \<and>
    checkOurTurn p producers (getSlotAtTime t' db) db = Inr True"
proof -
  obtain i where i: "i < length producers" "producers ! i = p" using assms(3) by (auto simp: in_set_conv_nth)
  obtain n where n: "unat t < n" "n \<le> unat t + 5 * length producers" "(n - 1) div 5 mod length producers = i"
    using next_turn [OF i(1)] by blast
  have un: "unat (of_nat n :: u64) = n" using n(2) assms(5) by (simp add: unat_of_nat)
  have nonempty: "producers \<noteq> []" and len: "length producers < 2 ^ 64" using i(1) assms(5) by auto
  have lt: "t < of_nat n" using n(1) un by (simp add: word_less_nat_alt)
  then have late: "blk_Timestamp head < of_nat n" using assms(4) by simp
  have "getScheduledProducer producers (getSlotAtTime (of_nat n) db) db = Inr p"
    using producer_of_time [OF assms(1,2) nonempty late len] unfolding un n(3) i(2) .
  then have "checkOurTurn p producers (getSlotAtTime (of_nat n) db) db = Inr True"
    by (simp add: checkOurTurn_def)
  moreover have "checkProducingTiming (of_nat n) db = (getSlotAtTime (of_nat n) db, True)"
    using slot_of_time(2) [OF assms(1) late] unfolding checkProducingTiming_def Let_def by blast
  ultimately show ?thesis using lt n(2) slot_of_time(3) [OF assms(1) late] un by metis
qed

theorem every_producer_has_a_turn_witness:
  "\<exists>t'. 9 < t' \<and> unat t' \<le> 19 \<and> checkOurTurn ''bob'' [''ann'', ''bob''] (getSlotAtTime t' ex_slot_db) ex_slot_db = Inr True"
  using every_producer_has_a_turn [OF ex_slot_head ex_slot_nonempty, of "''bob''" "[''ann'', ''bob'']" 9]
  by (auto simp: word_le_nat_alt)

text \<open>
  C29. What the check of a received block's producer accepts. A node that is not ready to produce
  accepts every block. A node that is ready accepts exactly the blocks whose time is after the head's
  and not after the clock and that are signed with the signing key of the producer whose turn that
  time is; whose turn it is depends on the time and the list of producers alone.
\<close>

theorem accepted_block_is_in_turn:
  assumes "forkdb_Head db = Some head" and "\<not> forkdb_Empty db"
    and "producers \<noteq> []" and "length producers < 2 ^ 64"
  shows "validateProducer ready now producers s signee b db = Inr True \<longleftrightarrow>
    (ready \<longrightarrow> blk_Timestamp head < blk_Timestamp b \<and> blk_Timestamp b \<le> now \<and>
      (\<exists>bp. tbl_get (db_producers s) (producers ! ((unat (blk_Timestamp b) - 1) div 5 mod length producers)) = Some bp \<and>
         signee = Some (bp_SigningKey bp)))"
proof (cases "ready \<and> blk_Timestamp head < blk_Timestamp b")
  case True
  let ?t = "blk_Timestamp b"
  have late: "\<not> ?t \<le> blk_Timestamp head" using conjunct2 [OF True] by (simp only: not_le)
  have clock: "?t \<le> getSlotTime (getSlotAtTime now db) db \<longleftrightarrow> ?t \<le> now"
  proof (cases "blk_Timestamp head < now")
    case True
    then show ?thesis using slot_of_time(3) [OF assms(1)] by simp
  next
    case False
    have "unat (blk_Timestamp head + 1) = Suc (unat (blk_Timestamp head))"
      using True unat_64_less [of ?t] unat_add_no_wrap [of "blk_Timestamp head" 1] by (simp add: word_less_nat_alt)
    with False have "now < blk_Timestamp head + 1" by (simp add: word_less_nat_alt)
    then have "getSlotAtTime now db = 0" using assms(1) by (simp add: getSlotAtTime_def getSlotTime_def Let_def)
    then have "\<not> ?t \<le> getSlotTime (getSlotAtTime now db) db" using True by (auto simp: getSlotTime_def)
    moreover have "\<not> ?t \<le> now" using True False by (meson not_less order_less_le_trans)
    ultimately show ?thesis by blast
  qed
  have "validateProducer ready now producers s signee b db =
      (if \<not> ?t \<le> now then Inr False
       else case signee of None \<Rightarrow> Inr False | Some k \<Rightarrow>
         Inr (ValidateAddress (producers ! ((unat ?t - 1) div 5 mod length producers)) k s))"
    using True late clock producer_of_time [OF assms(1,2,3) _ assms(4), of ?t]
    by (simp add: validateProducer_def assms(1) Let_def not_le [symmetric] del: One_nat_def)
  then show ?thesis using True by (auto simp: ValidateAddress_def split: option.splits)
next
  case False
  then show ?thesis using assms(1) by (auto simp: validateProducer_def Let_def)
qed

theorem accepted_block_is_in_turn_witness:
  "validateProducer True 10 [COSInitMiner] (initGenesis [1]) (Some [1]) \<lparr>blk_Id = [2], blk_Previous = [1], blk_Timestamp = 9\<rparr> ex_slot_db = Inr True \<and>
   validateProducer True 8 [COSInitMiner] (initGenesis [1]) (Some [1]) \<lparr>blk_Id = [2], blk_Previous = [1], blk_Timestamp = 9\<rparr> ex_slot_db \<noteq> Inr True \<and>
   validateProducer True 10 [COSInitMiner] (initGenesis [1]) (Some [2]) \<lparr>blk_Id = [2], blk_Previous = [1], blk_Timestamp = 9\<rparr> ex_slot_db \<noteq> Inr True \<and>
   validateProducer False 8 [COSInitMiner] (initGenesis [1]) None \<lparr>blk_Id = [2], blk_Previous = [1], blk_Timestamp = 9\<rparr> ex_slot_db = Inr True"
proof -
  have bp: "tbl_get (db_producers (initGenesis [1])) COSInitMiner = Some (genesis_producer [1])"
    by (simp add: initGenesis_def tbl_get_Cons)
  have key: "bp_SigningKey (genesis_producer [1]) = [1]" by (simp add: genesis_producer_def)
  have "([COSInitMiner] :: name list) \<noteq> []" "length ([COSInitMiner] :: name list) < 2 ^ 64" by simp_all
  note accepted = accepted_block_is_in_turn [OF ex_slot_head ex_slot_nonempty this]
  show ?thesis unfolding accepted by (simp add: bp key)
qed

end
