(* ===== verification/CheckPoint.thy ===== *)
theory CheckPoint
  imports Dynasty Store Slots
begin

text \<open>
  Check points (\<open>consensus/checkpoint.go\<close>): the commits the node has received, kept by the block they
  follow until that block is committed, and the file of those that were flushed, by block number and
  by height. Errors of the file are not modelled; what the agreement library does with a
  commit is the parameter \<open>env\<close>. A fatal log
  message ends the process and is a panic here. The theory shows that the id of the next check point
  always belongs to the commit that follows the last committed block, and that a flushed commit is
  found again both ways.
\<close>

record BFTCheckPoint =
  cp_db :: "bytes store"
  cp_lastCommitted :: hash
  cp_nextCP :: hash
  cp_cache :: "(hash, bft_commit) tbl"

datatype cp_error = ErrInvalidCheckPoint | ErrCheckPointOutOfRange | ErrCheckPointExists

definition NewBFTCheckPoint :: "bytes store \<Rightarrow> 'b forkdb \<Rightarrow> BFTCheckPoint" where
  "NewBFTCheckPoint db fork =
     \<lparr>cp_db = db, cp_lastCommitted = fk_lastCommitted fork, cp_nextCP = zero_id, cp_cache = []\<rparr>"

definition indexPrefix :: bytes where
  "indexPrefix = replicate 8 0xff"

definition num_key :: "u64 \<Rightarrow> bytes" where
  "num_key n = be_bytes 8 (unat n)"

definition getIdxKey :: "u64 \<Rightarrow> bytes" where
  "getIdxKey idx = indexPrefix @ num_key idx"

definition nextOf :: "hash \<Rightarrow> (hash, bft_commit) tbl \<Rightarrow> hash" where
  "nextOf lc cache = (case tbl_get cache lc of None \<Rightarrow> zero_id | Some v \<Rightarrow> cm_ProposedData v)"

text \<open>One round of the loop of \<open>Flush\<close>; a missing commit is a panic.\<close>

definition flush_one :: "bft_env \<Rightarrow> BFTCheckPoint \<Rightarrow> BFTCheckPoint res" where
  "flush_one env cp =
     (case tbl_get (cp_cache cp) (cp_lastCommitted cp) of
        None \<Rightarrow> Inl (Assert ''BFT-Flush without a check point'')
      | Some c \<Rightarrow>
          (let key = num_key (BlockNum (cp_nextCP cp));
               db1 = db_Put (getIdxKey (of_int (be_Height env c))) key (db_Put key (be_Bytes env c) (cp_db cp));
               cache1 = tbl_del (cp_lastCommitted cp) (cp_cache cp);
               lc = cp_nextCP cp in
           Inr \<lparr>cp_db = db1, cp_lastCommitted = lc, cp_nextCP = nextOf lc cache1, cp_cache = cache1\<rparr>))"

lemma flush_one_cache: "flush_one env cp = Inr cp' \<Longrightarrow> length (cp_cache cp') < length (cp_cache cp)"
  by (auto simp: flush_one_def Let_def split: option.splits intro: length_tbl_del)

function Flush :: "bft_env \<Rightarrow> hash \<Rightarrow> BFTCheckPoint \<Rightarrow> BFTCheckPoint res" where
  "Flush env bid cp =
     (case flush_one env cp of
        Inl e \<Rightarrow> Inl e
      | Inr cp1 \<Rightarrow>
          (if cp_lastCommitted cp1 = bid then Inr cp1
           else if cp_nextCP cp1 = zero_id then Inr cp1
           else Flush env bid cp1))"
  by pat_completeness auto

termination
  by (relation "measure (\<lambda>(env, bid, cp). length (cp_cache cp))") (auto dest: flush_one_cache)

declare Flush.simps [simp del]

definition cp_Add :: "bft_env \<Rightarrow> bft_commit \<Rightarrow> BFTCheckPoint \<Rightarrow> BFTCheckPoint \<times> cp_error option" where
  "cp_Add env commit cp =
     (if \<not> be_ValidateBasic env commit then (cp, Some ErrInvalidCheckPoint)
      else
        let blockID = ExtractBlockID commit; blockNum = BlockNum blockID; libNum = BlockNum (cp_lastCommitted cp) in
        if blockNum > libNum + MaxUncommittedBlockNum \<or> blockNum \<le> libNum then (cp, Some ErrCheckPointOutOfRange)
        else
          let prev = cm_Prev commit in
          if tbl_get (cp_cache cp) prev \<noteq> None then (cp, Some ErrCheckPointExists)
          else (cp\<lparr>cp_cache := tbl_put prev commit (cp_cache cp),
                   cp_nextCP := (if cp_lastCommitted cp = prev then blockID else cp_nextCP cp)\<rparr>, None))"

definition cp_Remove :: "bft_commit \<Rightarrow> BFTCheckPoint \<Rightarrow> BFTCheckPoint res" where
  "cp_Remove commit cp =
     (if cp_lastCommitted cp \<noteq> cm_Prev commit then Inl (Assert ''removing a invalid checkpoint'')
      else Inr (cp\<lparr>cp_cache := tbl_del (cp_lastCommitted cp) (cp_cache cp), cp_nextCP := zero_id\<rparr>))"

definition NextUncommitted :: "BFTCheckPoint \<Rightarrow> bft_commit option" where
  "NextUncommitted cp = tbl_get (cp_cache cp) (cp_lastCommitted cp)"

definition HasDanglingCheckPoint :: "BFTCheckPoint \<Rightarrow> bool" where
  "HasDanglingCheckPoint cp = (NextUncommitted cp = None \<and> cp_cache cp \<noteq> [])"

text \<open>Any commit of the cache will do for the upper end; the walk over the map picks the first.\<close>

definition MissingRange :: "BFTCheckPoint \<Rightarrow> (u64 \<times> u64) res" where
  "MissingRange cp =
     (case cp_cache cp of
        [] \<Rightarrow> Inl NilDeref
      | (_, v) # _ \<Rightarrow> Inr (BlockNum (cp_lastCommitted cp), BlockNum (ExtractBlockID v)))"

definition RemoveNextUncommitted :: "BFTCheckPoint \<Rightarrow> BFTCheckPoint" where
  "RemoveNextUncommitted cp =
     cp\<lparr>cp_cache := tbl_del (cp_lastCommitted cp) (cp_cache cp), cp_nextCP := zero_id\<rparr>"

definition IsNextCheckPoint :: "bft_commit \<Rightarrow> BFTCheckPoint \<Rightarrow> bool res" where
  "IsNextCheckPoint commit cp =
     (let bid = ExtractBlockID commit in
      if bid = zero_id then Inl (Assert ''checkpoint on an empty block'')
      else if tbl_get (cp_cache cp) (cp_lastCommitted cp) = None then Inr False
      else Inr (cp_nextCP cp = bid))"

definition cp_Validate :: "bft_env \<Rightarrow> bft_commit \<Rightarrow> dynasties \<Rightarrow> bool res" where
  "cp_Validate env commit ds = verifyCommitSig env commit ds"

text \<open>Reading the file.\<close>

definition GetNext :: "bft_env \<Rightarrow> u64 \<Rightarrow> BFTCheckPoint \<Rightarrow> bft_commit option" where
  "GetNext env blockNum cp =
     (case db_Iterate (Some (num_key (blockNum + 1))) (Some indexPrefix) False (cp_db cp) of
        [] \<Rightarrow> None
      | (_, val) # _ \<Rightarrow>
          (if val = [] then None
           else case be_decode env val of None \<Rightarrow> None | Some c \<Rightarrow> if be_ValidateBasic env c then Some c else None))"

definition GetIth :: "bft_env \<Rightarrow> u64 \<Rightarrow> BFTCheckPoint \<Rightarrow> bft_commit option" where
  "GetIth env i cp =
     (case db_Get (cp_db cp) (getIdxKey i) of
        None \<Rightarrow> None
      | Some num \<Rightarrow> (case db_Get (cp_db cp) num of None \<Rightarrow> None | Some c \<Rightarrow> be_decode env c))"

section \<open>The next check point\<close>

definition cp_ok :: "BFTCheckPoint \<Rightarrow> bool" where
  "cp_ok cp = (tbl_ok (cp_cache cp) \<and> tbl_ok (cp_db cp) \<and> cp_nextCP cp = nextOf (cp_lastCommitted cp) (cp_cache cp))"

lemma New_ok: "tbl_ok db \<Longrightarrow> cp_ok (NewBFTCheckPoint db fork)"
  by (simp add: cp_ok_def NewBFTCheckPoint_def nextOf_def tbl_ok_def)

lemma Add_ok: "cp_ok cp \<Longrightarrow> cp_ok (fst (cp_Add env commit cp))"
  by (auto simp: cp_ok_def cp_Add_def Let_def nextOf_def ExtractBlockID_def tbl_ok_put tbl_get_put)

lemma Remove_ok: "cp_ok cp \<Longrightarrow> cp_Remove commit cp = Inr cp' \<Longrightarrow> cp_ok cp'"
  by (auto simp: cp_ok_def cp_Remove_def nextOf_def tbl_ok_del tbl_get_del split: if_splits)

lemma RemoveNext_ok: "cp_ok cp \<Longrightarrow> cp_ok (RemoveNextUncommitted cp)"
  by (auto simp: cp_ok_def RemoveNextUncommitted_def nextOf_def tbl_ok_del tbl_get_del)

lemma flush_one_ok: "cp_ok cp \<Longrightarrow> flush_one env cp = Inr cp' \<Longrightarrow> cp_ok cp'"
  by (auto simp: cp_ok_def flush_one_def Let_def tbl_ok_del split: option.splits)

lemma Flush_ok: "cp_ok cp \<Longrightarrow> Flush env bid cp = Inr cp' \<Longrightarrow> cp_ok cp'"
proof (induction env bid cp rule: Flush.induct)
  case (1 env bid cp)
  show ?case
  proof (cases "flush_one env cp")
    case (Inl e)
    with 1(3) show ?thesis by (simp add: Flush.simps [of env bid cp])
  next
    case (Inr cp1)
    note ok = flush_one_ok [OF 1(2) Inr]
    show ?thesis
    proof (cases "cp_lastCommitted cp1 = bid \<or> cp_nextCP cp1 = zero_id")
      case True
      then have "cp' = cp1" using 1(3) Inr by (auto simp: Flush.simps [of env bid cp] split: if_splits)
      with ok show ?thesis by simp
    next
      case False
      then have "Flush env bid cp1 = Inr cp'" using 1(3) Inr by (simp add: Flush.simps [of env bid cp])
      with 1(1) [OF Inr] False ok show ?thesis by blast
    qed
  qed
qed

section \<open>Finding flushed commits\<close>

lemma num_key_less: "num_key m < num_key n \<longleftrightarrow> m < n"
  using be_bytes_mono_iff [of "unat m" 8 "unat n"] unat_64_less [of m] unat_64_less [of n]
  by (simp add: num_key_def word_less_nat_alt)

lemma be_bytes_max: "be_bytes n (256 ^ n - 1) = replicate n 255"
proof (induction n)
  case (Suc n)
  have digits: "(q * m + r) div m = q" "(q * m + r) mod m = r" if "r < m" for q m r :: nat using that by simp_all
  have p: "(256::nat) ^ n - 1 < 256 ^ n" by simp
  have eq: "(256::nat) ^ Suc n - 1 = 255 * 256 ^ n + (256 ^ n - 1)"
    using one_le_power [of "256::nat" n] by (simp del: one_le_power)
  have "((256::nat) ^ Suc n - 1) div 256 ^ n = 255" "((256::nat) ^ Suc n - 1) mod 256 ^ n = 256 ^ n - 1"
    unfolding eq by (rule digits [OF p])+
  with Suc show ?case by simp
qed simp

lemma indexPrefix_key: "indexPrefix = num_key (-1)"
proof -
  have "unat (-1 :: u64) = 256 ^ 8 - 1" by (simp add: unsigned_minus_1_eq_mask mask_eq_exp_minus_1)
  then show ?thesis unfolding indexPrefix_def num_key_def by (simp only: be_bytes_max)
qed

lemma num_key_not_idx: "num_key m \<noteq> getIdxKey i"
  using length_be_bytes by (metis (no_types) add_cancel_right_left getIdxKey_def indexPrefix_key length_append num_key_def zero_neq_numeral)

lemma hd_sort_key:
  assumes "x \<in> set xs" and "\<And>y. y \<in> set xs \<Longrightarrow> f x \<le> f y" and "inj_on f (set xs)"
  shows "\<exists>ys. sort_key f xs = x # ys"
proof -
  have "sort_key f xs \<noteq> []" using assms(1) by (metis length_pos_if_in_set length_sort list.size(3) less_numeral_extra(3))
  then obtain y ys where y: "sort_key f xs = y # ys" by (cases "sort_key f xs") auto
  then have "y \<in> set xs" by (metis list.set_intros(1) set_sort)
  moreover have "f y \<le> f x"
    using sorted_sort_key [of f xs] assms(1) set_sort [of f xs] unfolding y by auto
  ultimately have "y = x" using assms by (metis antisym inj_onD)
  with y show ?thesis by blast
qed

lemma first_in_range:
  assumes "tbl_ok st" and "db_Get st k = Some v" and "k < hi"
  shows "\<exists>rest. db_Iterate (Some k) (Some hi) False st = (k, v) # rest"
proof -
  let ?rows = "filter (\<lambda>(j, v). in_range (Some k) (Some hi) j) st"
  have "(k, v) \<in> set ?rows" using assms(2,3) by (auto simp: db_Get_def in_range_def dest: tbl_get_set)
  moreover have "fst (k, v) \<le> fst y" if "y \<in> set ?rows" for y using that by (auto simp: in_range_def)
  moreover have "inj_on fst (set ?rows)"
    using assms(1) by (auto simp: tbl_ok_def distinct_map intro: inj_on_subset)
  ultimately obtain ys where "sort_key fst ?rows = (k, v) # ys" using hd_sort_key by metis
  then show ?thesis by (simp add: db_Iterate_def Let_def)
qed

section \<open>Properties\<close>

text \<open>
  C30. Flushing up to the commit that follows the last committed block always succeeds, makes its
  block the last committed one, and stores the commit so that it is found again by the number of its
  block and by its height. The decoder of the agreement library is assumed to read back what the
  commit was encoded to.
\<close>

theorem flushed_commit_is_found:
  assumes "cp_ok cp" and "NextUncommitted cp = Some c" and "be_decode env (be_Bytes env c) = Some c" and "be_Bytes env c \<noteq> []"
    and "be_ValidateBasic env c" and "BlockNum (cm_ProposedData c) \<noteq> -1"
  shows "\<exists>cp'. Flush env (cm_ProposedData c) cp = Inr cp' \<and> cp_ok cp' \<and> cp_lastCommitted cp' = cm_ProposedData c \<and>
    GetNext env (BlockNum (cm_ProposedData c) - 1) cp' = Some c \<and>
    GetIth env (of_int (be_Height env c)) cp' = Some c"
proof -
  have c: "tbl_get (cp_cache cp) (cp_lastCommitted cp) = Some c" using assms(2) by (simp add: NextUncommitted_def)
  then have nxt: "cp_nextCP cp = cm_ProposedData c" using assms(1) by (simp add: cp_ok_def nextOf_def)
  obtain cp' where one: "flush_one env cp = Inr cp'" using c by (simp add: flush_one_def Let_def)
  let ?n = "BlockNum (cm_ProposedData c)"
  have lc: "cp_lastCommitted cp' = cm_ProposedData c"
    and db: "cp_db cp' = db_Put (getIdxKey (of_int (be_Height env c))) (num_key ?n) (db_Put (num_key ?n) (be_Bytes env c) (cp_db cp))"
    using one c nxt by (auto simp: flush_one_def Let_def)
  have run: "Flush env (cm_ProposedData c) cp = Inr cp'" using one lc by (simp add: Flush.simps [of env _ cp])
  have get: "db_Get (cp_db cp') (num_key ?n) = Some (be_Bytes env c)"
    using num_key_not_idx [of ?n] by (simp add: db db_Get_Put)
  have "?n < -1" using assms(6) by (simp add: order_less_le)
  then have "num_key ?n < indexPrefix" by (simp add: indexPrefix_key num_key_less)
  moreover have ok: "tbl_ok (cp_db cp')" using flush_one_ok [OF assms(1) one] by (simp add: cp_ok_def)
  ultimately obtain rest where "db_Iterate (Some (num_key ?n)) (Some indexPrefix) False (cp_db cp') = (num_key ?n, be_Bytes env c) # rest"
    using first_in_range [OF _ get] by blast
  then have "GetNext env (?n - 1) cp' = Some c" using assms(3-5) by (simp add: GetNext_def)
  moreover have "GetIth env (of_int (be_Height env c)) cp' = Some c"
    using get assms(3) by (simp add: GetIth_def db db_Get_Put)
  ultimately show ?thesis using run lc flush_one_ok [OF assms(1) one] by blast
qed

theorem flushed_commit_is_found_witness:
  "\<exists>cp'. Flush ex_bft [7] \<lparr>cp_db = [], cp_lastCommitted = zero_id, cp_nextCP = [7], cp_cache = [(zero_id, ex_commit [1] [7])]\<rparr> = Inr cp' \<and>
    cp_lastCommitted cp' = [7] \<and> GetNext ex_bft 6 cp' = Some (ex_commit [1] [7]) \<and> GetIth ex_bft 1 cp' = Some (ex_commit [1] [7])"
  using flushed_commit_is_found [of "\<lparr>cp_db = [], cp_lastCommitted = zero_id, cp_nextCP = [7], cp_cache = [(zero_id, ex_commit [1] [7])]\<rparr>"
      "ex_commit [1] [7]" ex_bft]
  by (auto simp: cp_ok_def NextUncommitted_def nextOf_def tbl_ok_def tbl_get_Cons ex_commit_def ex_bft_def BlockNum_def le_Uint64_def)

end
