(* ===== verification/Ledger.thy ===== *)
theory Ledger
  imports Contracts
begin

text \<open>
  The ledger: where the two currencies are held and how the totals of the dynamic properties
  follow them.
\<close>

definition held_cos :: "db \<Rightarrow> int" where
  "held_cos s = isum (\<lambda>_ a. unat (acc_Balance a)) (db_accounts s) +
     isum (\<lambda>_ c. unat (ct_Balance c)) (db_contracts s)"

definition held_vest :: "db \<Rightarrow> int" where
  "held_vest s =
     isum (\<lambda>_ a. unat (acc_Vest a) + unat (acc_StakeVestForMe a) + unat (acc_DeliveringVest a))
       (db_accounts s) +
     uint (dp_PoolPostRewards (db_props s)) + uint (dp_PoolReplyRewards (db_props s)) +
     uint (dp_PoolVoteRewards (db_props s)) + uint (dp_PoolDappRewards (db_props s)) +
     uint (dp_TicketsBpBonus (db_props s))"

definition totalSupply :: "db \<Rightarrow> int" where
  "totalSupply s = uint (dp_TotalCos (db_props s)) + uint (dp_TotalVest (db_props s)) +
     uint (dp_TicketsIncome (db_props s))"

text \<open>
  Vests that the total counts and nobody holds: none at genesis, and only the recovered panics of
  \<open>ShareTicketBonus\<close> can leave some behind. The books are the two quantities nothing else changes.
\<close>

definition vest_lost :: "db \<Rightarrow> int" where
  "vest_lost s = uint (dp_TotalVest (db_props s)) - held_vest s"

definition books :: "db \<Rightarrow> int \<times> int" where
  "books s = (totalSupply s, vest_lost s)"

definition ledger_ok :: "db \<Rightarrow> bool" where
  "ledger_ok s =
     (uint (dp_TotalCos (db_props s)) = held_cos s \<and>
      held_vest s \<le> uint (dp_TotalVest (db_props s)) \<and>
      uint (dp_StakeVest (db_props s)) = isum (\<lambda>_ a. unat (acc_StakeVestForMe a)) (db_accounts s))"

definition conserves :: "(db \<Rightarrow> db res) \<Rightarrow> bool" where
  "conserves f = (\<forall>s s'. f s = Inr s' \<longrightarrow> ledger_ok s \<longrightarrow> ledger_ok s' \<and> books s' = books s)"

lemmas ledger_defs =
  ledger_ok_def held_cos_def held_vest_def totalSupply_def vest_lost_def books_def

lemma Transfer_conserves: "conserves (Transfer_Apply hf op)"
  by (auto simp: conserves_def Transfer_Apply_def sub_Balance_def add_Balance_def res_inv amount_uint
      ledger_defs tbl_simps split: if_splits)

lemma updateBpVoteValue_frame:
  "updateBpVoteValue voter old new s = Inr s' \<Longrightarrow> \<exists>t. s' = s\<lparr>db_producers := t\<rparr>"
  by (auto simp: updateBpVoteValue_def res_inv split: option.splits if_splits prod.splits)
     (metis db.surjective db.update_convs(2))+

lemma voteCashout_append_frame:
  "voteCashout_append h v s = Inr s' \<Longrightarrow> \<exists>t. s' = s\<lparr>db_voteCashouts := t\<rparr>"
  by (auto simp: voteCashout_append_def res_inv split: if_splits)

lemma stake_record_add_frame:
  "stake_record_add k v s = Inr s' \<Longrightarrow> \<exists>t. s' = s\<lparr>db_stakes := t\<rparr>"
  by (auto simp: stake_record_add_def Let_def res_inv split: if_splits)

lemma AccountCreate_conserves: "conserves (AccountCreate_Apply op)"
  by (auto simp: conserves_def AccountCreate_Apply_def sub_Balance_def TransferToVest_def
      new_account_def res_inv amount_uint ledger_defs tbl_simps split: if_splits)

lemma TransferToVest_conserves: "conserves (TransferToVest_Apply hf op)"
  by (auto simp: conserves_def TransferToVest_Apply_def sub_Balance_def add_Vest_def
      TransferToVest_def Let_def
      res_inv amount_uint ledger_defs tbl_simps dest!: updateBpVoteValue_frame split: if_splits)

lemma AccountUpdate_conserves: "conserves (AccountUpdate_Apply op)"
  by (auto simp: conserves_def AccountUpdate_Apply_def res_inv ledger_defs tbl_simps)

lemma Post_conserves: "conserves (Post_Apply op)"
  by (auto simp: conserves_def Post_Apply_def Let_def res_inv ledger_defs tbl_simps
      split: if_splits)

lemma Reply_conserves: "conserves (Reply_Apply op)"
  by (auto simp: conserves_def Reply_Apply_def Let_def res_inv ledger_defs tbl_simps
      split: if_splits)

lemma Vote_conserves: "conserves (Vote_Apply hf op)"
  by (auto simp: conserves_def Vote_Apply_def Let_def res_inv ledger_defs tbl_simps
      dest!: voteCashout_append_frame)

lemma BpRegister_conserves: "conserves (BpRegister_Apply op)"
  by (auto simp: conserves_def BpRegister_Apply_def res_inv ledger_defs)

lemma BpEnable_conserves: "conserves (BpEnable_Apply op)"
  by (auto simp: conserves_def BpEnable_Apply_def res_inv ledger_defs split: if_splits)

lemma BpVote_conserves: "conserves (BpVote_Apply op)"
  by (auto simp: conserves_def BpVote_Apply_def Let_def res_inv ledger_defs tbl_simps
      split: if_splits)

lemma BpUpdate_conserves: "conserves (BpUpdate_Apply op)"
  by (auto simp: conserves_def BpUpdate_Apply_def res_inv ledger_defs)

lemma Follow_conserves: "conserves (Follow_Apply op)"
  by (auto simp: conserves_def Follow_Apply_def res_inv)

lemma ConvertVest_conserves: "conserves (ConvertVest_Apply hf op)"
  by (auto simp: conserves_def ConvertVest_Apply_def Let_def res_inv ledger_defs tbl_simps)

lemma Stake_conserves: "conserves (Stake_Apply hf op)"
  by (auto simp: conserves_def Stake_Apply_def Let_def TransferToVest_def TransferToStakeVest_def
      res_inv amount_uint ledger_defs tbl_simps dest!: stake_record_add_frame split: if_splits)

lemma UnStake_conserves: "conserves (UnStake_Apply op)"
  by (auto simp: conserves_def UnStake_Apply_def Let_def TransferFromVest_def
      TransferFromStakeVest_def res_inv amount_uint ledger_defs tbl_simps split: if_splits)

lemma AcquireTicket_conserves: "conserves (AcquireTicket_Apply op)"
  by (auto simp: conserves_def AcquireTicket_Apply_def Let_def UpdateTicketIncomeAndNum_def
      sub_Balance_def res_inv amount_uint ledger_defs tbl_simps split: if_splits)

lemma VoteByTicket_spend_frame:
  "VoteByTicket_spend op s = Inr (cnt, s') \<Longrightarrow>
     \<exists>a n p t. tbl_get (db_accounts s) (vb_Account op) = Some a \<and>
       s' = s\<lparr>db_accounts := tbl_put (vb_Account op) (a\<lparr>acc_ChargedTicket := n\<rparr>) (db_accounts s),
              db_posts := p, db_tickets := t\<rparr>"
  by (cases "CheckExist (db_tickets s) \<lparr>gk_Type = 0, gk_From = COSSysAccount, gk_To = vb_Account op,
                    gk_CreateBlock = dp_CurrentEpochStartBlock (db_props s)\<rparr>")
     (auto simp: VoteByTicket_spend_def Let_def res_inv, blast+)

lemma VoteByTicket_bonusE:
  assumes "VoteByTicket_bonus cnt s = Inr s'"
  obtains v income where "vest_Sub (dp_TicketsIncome (db_props s)) v = Inr income"
    and "v > 0 \<Longrightarrow> \<exists>bonus total n. vest_Add (dp_TicketsBpBonus (db_props s)) v = Inr bonus \<and>
           vest_Add (dp_TotalVest (db_props s)) v = Inr total \<and>
           s' = s\<lparr>db_props := (db_props s)\<lparr>dp_TicketsIncome := income, dp_ChargedTicketsNum := n,
                  dp_TicketsBpBonus := bonus, dp_TotalVest := total\<rparr>\<rparr>"
    and "\<not> v > 0 \<Longrightarrow> \<exists>n. s' = s\<lparr>db_props := (db_props s)\<lparr>dp_TicketsIncome := income,
                  dp_ChargedTicketsNum := n\<rparr>\<rparr>"
proof -
  obtain v income where "vest_Sub (dp_TicketsIncome (db_props s)) v = Inr income"
    and rest: "rbind (UpdateTicketIncomeAndNum income (dp_ChargedTicketsNum (db_props s) - cnt) s) (\<lambda>s5.
     if v > 0 then
       ModifyProps (\<lambda>prop.
         rbind (vest_Add (dp_TicketsBpBonus prop) v) (\<lambda>bonus.
         rbind (vest_Add (dp_TotalVest prop) v) (\<lambda>total.
         Inr (prop\<lparr>dp_TicketsBpBonus := bonus, dp_TotalVest := total\<rparr>)))) s5
     else Inr s5) = Inr s'"
    using assms unfolding VoteByTicket_bonus_def Let_def by (simp only: rbind_Inr_iff) blast
  show thesis
  proof (rule that)
    show "vest_Sub (dp_TicketsIncome (db_props s)) v = Inr income" by fact
  qed (use rest in \<open>auto simp: UpdateTicketIncomeAndNum_def res_inv simp del: word_gt_0\<close>)
qed

lemma VoteByTicket_bonus_conserves: "conserves (VoteByTicket_bonus cnt)"
  unfolding conserves_def
proof (intro allI impI)
  fix s s'
  assume "VoteByTicket_bonus cnt s = Inr s'" and ok: "ledger_ok s"
  then show "ledger_ok s' \<and> books s' = books s"
  proof (cases rule: VoteByTicket_bonusE)
    case (1 v income)
    show ?thesis
    proof (cases "v > 0")
      case True
      with 1 ok show ?thesis by (auto simp: amount_uint ledger_defs)
    next
      case False
      then have "v = 0" by (simp add: word_gt_0)
      with 1 ok show ?thesis by (auto simp: amount_uint ledger_defs)
    qed
  qed
qed

lemma VoteByTicket_conserves: "conserves (VoteByTicket_Apply op)"
  using VoteByTicket_bonus_conserves
  by (fastforce simp: conserves_def VoteByTicket_Apply_def res_inv ledger_defs tbl_simps
      dest!: VoteByTicket_spend_frame)

lemma DelegateVest_conserves: "conserves (DelegateVest_Apply hf op)"
  by (auto simp: conserves_def DelegateVest_Apply_def Let_def NewRecordID_def
      res_inv amount_uint ledger_defs tbl_simps dest!: updateBpVoteValue_frame split: if_splits)

lemma UnDelegateVest_conserves: "conserves (UnDelegateVest_Apply op)"
  by (auto simp: conserves_def UnDelegateVest_Apply_def Let_def
      res_inv amount_uint ledger_defs tbl_simps dest!: updateBpVoteValue_frame split: if_splits)

section \<open>Transfers of the virtual machine\<close>

text \<open>
  The machine's transfers add with Go's wrapping \<open>+\<close>. On a ledger that adds up the sum of two
  balances is at most the total, so nothing wraps.
\<close>

lemma uint_64_bounds: "0 \<le> uint (x :: u64)" "uint (x :: u64) < 2 ^ 64"
  using uint_lt2p [of x] by simp_all

lemma isum_ge: "tbl_get t k = Some v \<Longrightarrow> int (w k v) \<le> isum w t"
  by (simp add: isum_def tbl_sum_ge)

lemma isum_ge2:
  assumes "tbl_get t k = Some v" and "tbl_get t j = Some u" and "k \<noteq> j"
  shows "int (w k v) + int (w j u) \<le> isum w t"
  using tbl_sum_ge2 [OF assms, of w] by (simp add: isum_def)

lemma uint_plus: "uint a + uint b < 2 ^ 64 \<Longrightarrow> uint (a + b :: u64) = uint a + uint b"
  by (simp add: uint_word_ariths)

lemma uint_minus: "b \<le> a \<Longrightarrow> uint (a - b :: u64) = uint a - uint b"
  by (simp add: uint_sub_lem word_le_def)

lemma account_contract_no_wrap:
  assumes "ledger_ok s" and "tbl_get (db_accounts s) k = Some a"
    and "tbl_get (db_contracts s) j = Some c"
  shows "uint (acc_Balance a) + uint (ct_Balance c) < 2 ^ 64"
proof -
  have "uint (acc_Balance a) + uint (ct_Balance c) \<le> held_cos s"
    using isum_ge [OF assms(2), of "\<lambda>_ a. unat (acc_Balance a)"]
      isum_ge [OF assms(3), of "\<lambda>_ c. unat (ct_Balance c)"] by (simp add: held_cos_def)
  also have "\<dots> = uint (dp_TotalCos (db_props s))"
    using assms(1) by (simp add: ledger_ok_def)
  finally show ?thesis using uint_64_bounds(2) [of "dp_TotalCos (db_props s)"] by simp
qed

lemma ContractToUser_conserves: "conserves (TransferFromContractToUser ct ow to amount)"
  unfolding conserves_def
proof (intro allI impI)
  fix s s'
  assume run: "TransferFromContractToUser ct ow to amount s = Inr s'" and ok: "ledger_ok s"
  then obtain c a where c: "tbl_get (db_contracts s) (ow, ct) = Some c" and
    a: "tbl_get (db_accounts s) to = Some a" and le: "amount \<le> ct_Balance c" and
    s': "s' = s\<lparr>db_contracts := tbl_put (ow, ct) (c\<lparr>ct_Balance := ct_Balance c - amount\<rparr>) (db_contracts s),
               db_accounts := tbl_put to (a\<lparr>acc_Balance := acc_Balance a + amount\<rparr>) (db_accounts s)\<rparr>"
    by (auto simp: TransferFromContractToUser_def set_ct_Balance_def set_acc_Balance_def res_inv
        split: if_splits)
  have "uint (acc_Balance a) + uint amount < 2 ^ 64"
    using account_contract_no_wrap [OF ok a c] le by (simp add: word_le_def)
  then show "ledger_ok s' \<and> books s' = books s"
    using ok a c le by (simp add: s' ledger_defs tbl_simps uint_plus uint_minus)
qed

lemma ContractToUserVest_conserves: "conserves (TransferFromContractToUserVest ct ow to amount)"
  by (auto simp: conserves_def TransferFromContractToUserVest_def set_ct_Balance_def
      TransferToVest_def res_inv amount_uint ledger_defs tbl_simps split: if_splits)

lemma UserToContract_conserves:
  assumes "TransferFromUserToContract from ct ow amount c = Inr s'" and "ledger_ok (tc_db c)"
  shows "ledger_ok s' \<and> books s' = books (tc_db c)"
proof -
  obtain a k where a: "tbl_get (db_accounts (tc_db c)) from = Some a" and
    k: "tbl_get (db_contracts (tc_db c)) (ow, ct) = Some k" and le: "amount \<le> acc_Balance a" and
    s': "s' = (tc_db c)\<lparr>
      db_contracts := tbl_put (ow, ct) (k\<lparr>ct_Balance := ct_Balance k + amount\<rparr>) (db_contracts (tc_db c)),
      db_accounts := tbl_put from (a\<lparr>acc_Balance := acc_Balance a - amount\<rparr>) (db_accounts (tc_db c))\<rparr>"
    using assms(1)
    by (auto simp: TransferFromUserToContract_def set_ct_Balance_def set_acc_Balance_def res_inv Let_def
        split: if_splits option.splits)
  have "uint (ct_Balance k) + uint amount < 2 ^ 64"
    using account_contract_no_wrap [OF assms(2) a k] le by (simp add: word_le_def)
  then show ?thesis
    using assms(2) a k le by (simp add: s' ledger_defs tbl_simps uint_plus uint_minus)
qed

lemma ContractToContract_conserves: "conserves (TransferFromContractToContract fc fo tc' to' amount)"
  unfolding conserves_def
proof (intro allI impI)
  fix s s'
  assume run: "TransferFromContractToContract fc fo tc' to' amount s = Inr s'" and ok: "ledger_ok s"
  show "ledger_ok s' \<and> books s' = books s"
  proof (cases "fc = tc' \<and> fo = to'")
    case True
    with run ok show ?thesis by (simp add: TransferFromContractToContract_def)
  next
    case False
    then have ne: "(fo, fc) \<noteq> (to', tc')" by auto
    from run False obtain f t where f: "tbl_get (db_contracts s) (fo, fc) = Some f" and
      t: "tbl_get (db_contracts s) (to', tc') = Some t" and le: "amount \<le> ct_Balance f" and
      s': "s' = s\<lparr>db_contracts := tbl_put (to', tc') (t\<lparr>ct_Balance := ct_Balance t + amount\<rparr>)
                (tbl_put (fo, fc) (f\<lparr>ct_Balance := ct_Balance f - amount\<rparr>) (db_contracts s))\<rparr>"
      by (auto simp: TransferFromContractToContract_def set_ct_Balance_def res_inv tbl_simps
          split: if_splits)
    have "uint (ct_Balance f) + uint (ct_Balance t) \<le> held_cos s"
      using isum_ge2 [OF f t ne, of "\<lambda>_ c. unat (ct_Balance c)"]
      by (simp add: held_cos_def isum_def)
    then have "uint (ct_Balance t) + uint amount < 2 ^ 64"
      using ok le uint_64_bounds(2) [of "dp_TotalCos (db_props s)"]
      by (simp add: ledger_ok_def word_le_def)
    moreover have "tbl_get (tbl_put (fo, fc) f' (db_contracts s)) (to', tc') = Some t" for f'
      using t ne by (simp only: tbl_get_put if_False) auto
    ultimately show ?thesis
      using ok f le by (simp add: s' ledger_defs isum_put uint_plus uint_minus)
  qed
qed

section \<open>Native functions and contract calls\<close>

lemma conserves_for_each: "(\<And>x. conserves (f x)) \<Longrightarrow> conserves (for_each f xs)"
  unfolding conserves_def
proof (intro allI impI)
  fix s s'
  assume f: "\<And>x. \<forall>s s'. f x s = Inr s' \<longrightarrow> ledger_ok s \<longrightarrow> ledger_ok s' \<and> books s' = books s"
    and run: "for_each f xs s = Inr s'" and ok: "ledger_ok s"
  show "ledger_ok s' \<and> books s' = books s"
    by (rule for_each_invariant [OF run, where P = "\<lambda>u. ledger_ok u \<and> books u = books s"])
       (use f ok in \<open>auto\<close>)
qed

lemma SetUserCopyright_conserves: "conserves (SetUserCopyright x)"
  by (auto simp: conserves_def SetUserCopyright_def res_inv ledger_defs split: prod.splits)

lemma SetUserFreeze_conserves: "conserves (SetUserFreeze v x)"
  by (auto simp: conserves_def SetUserFreeze_def res_inv ledger_defs tbl_simps split: prod.splits)

lemma disable_producer_frame:
  "disable_producer name s = Inr s' \<Longrightarrow> \<exists>t. s' = s\<lparr>db_producers := t\<rparr>"
  by (auto simp: disable_producer_def res_inv split: option.splits if_splits)
     (metis db.surjective db.update_convs(2))+

lemma SetUserReputation_conserves: "conserves (SetUserReputation x)"
  by (auto simp: conserves_def SetUserReputation_def res_inv ledger_defs tbl_simps
      dest!: disable_producer_frame split: prod.splits if_splits)

lemma ContractDeploy_conserves: "conserves (ContractDeploy_Apply env hf op)"
  by (auto simp: conserves_def ContractDeploy_Apply_def Let_def res_inv ledger_defs tbl_simps
      split: option.splits if_splits)

lemma lift_db_conserves:
  assumes "conserves f" and "lift_db f st = Inr st'" and "ledger_ok (vs_db st)"
  shows "ledger_ok (vs_db st') \<and> books (vs_db st') = books (vs_db st)"
  using assms by (auto simp: lift_db_def conserves_def res_inv)

text \<open>
  The administrator setters store the properties the machine started with. They keep the ledger
  only while those are still the properties of the database: \<open>admin_safe\<close> says that a run has
  not moved coins into vests and has not called another contract before such a setter.
  \<open>env_admin_safe\<close> asks this of the interpreter in every context and state, so also of runs in which
  the setter would be denied.
\<close>

fun admin_safe :: "bool \<Rightarrow> (nat \<times> native_call) list \<Rightarrow> bool" where
  "admin_safe stale [] = True"
| "admin_safe stale ((g, f) # evs) =
     (case f of
        SetReputationAdmin _ \<Rightarrow> \<not> stale \<and> admin_safe stale evs
      | SetCopyrightAdmin _ \<Rightarrow> \<not> stale \<and> admin_safe stale evs
      | ContractTransferToUserVest _ _ \<Rightarrow> admin_safe True evs
      | ContractCall _ _ _ _ _ \<Rightarrow> admin_safe True evs
      | _ \<Rightarrow> admin_safe stale evs)"

definition env_admin_safe :: "vm_env \<Rightarrow> bool" where
  "env_admin_safe env = (\<forall>ctx s. admin_safe False (fst (env_Exec env ctx s)))"

lemma for_each_props:
  assumes "for_each f xs s = Inr s'"
    and "\<And>x u u'. f x u = Inr u' \<Longrightarrow> db_props u' = db_props u"
  shows "db_props s' = db_props s"
  by (rule for_each_invariant [OF assms(1), where P = "\<lambda>u. db_props u = db_props s"])
     (use assms(2) in auto)

lemma native_props_frame:
  "SetUserCopyright x s = Inr s' \<Longrightarrow> db_props s' = db_props s"
  "SetUserReputation y s = Inr s' \<Longrightarrow> db_props s' = db_props s"
  "SetUserFreeze v z s = Inr s' \<Longrightarrow> db_props s' = db_props s"
  "TransferFromContractToUser ct ow to amount s = Inr s' \<Longrightarrow> db_props s' = db_props s"
  "TransferFromContractToContract ct ow ct2 ow2 amount s = Inr s' \<Longrightarrow> db_props s' = db_props s"
  by (auto simp: SetUserCopyright_def SetUserReputation_def SetUserFreeze_def
      TransferFromContractToUser_def TransferFromContractToContract_def res_inv
      dest!: disable_producer_frame split: prod.splits if_splits)

lemma native_apply_conserves:
  assumes run: "native_apply signer ctx f st = Inr st'" and ok: "ledger_ok (vs_db st)"
    and safe: "admin_safe stale ((g, f) # evs)"
    and fresh: "\<not> stale \<longrightarrow> db_props (vs_db st) = vs_props st"
    and no_call: "\<not> (\<exists>a b c d e. f = ContractCall a b c d e)"
  shows "ledger_ok (vs_db st') \<and> books (vs_db st') = books (vs_db st) \<and>
         (\<exists>stale'. admin_safe stale' evs \<and> (\<not> stale' \<longrightarrow> db_props (vs_db st') = vs_props st'))"
proof (cases f)
  case (ContractTransferToUserVest to amount)
  with run safe show ?thesis
    using lift_db_conserves [OF ContractToUserVest_conserves _ ok]
    by (auto simp: native_apply_def)
next
  case (ContractTransferToUser to amount)
  with run safe fresh show ?thesis
    using lift_db_conserves [OF ContractToUser_conserves _ ok]
    by (fastforce simp: native_apply_def lift_db_def res_inv dest: native_props_frame)
next
  case (ContractTransferToContract ow ct amount)
  with run safe fresh show ?thesis
    using lift_db_conserves [OF ContractToContract_conserves _ ok]
    by (fastforce simp: native_apply_def lift_db_def res_inv dest: native_props_frame)
next
  case (SetCopyright posts)
  with run safe fresh show ?thesis
    using lift_db_conserves [OF conserves_for_each [OF SetUserCopyright_conserves] _ ok]
    by (fastforce simp: native_apply_def lift_db_def res_inv dest: for_each_props native_props_frame)
next
  case (SetReputation posts)
  with run safe fresh show ?thesis
    using lift_db_conserves [OF conserves_for_each [OF SetUserReputation_conserves] _ ok]
    by (fastforce simp: native_apply_def lift_db_def res_inv dest: for_each_props native_props_frame)
next
  case (SetFreeze op posts)
  with run safe fresh show ?thesis
    using lift_db_conserves [OF conserves_for_each [OF SetUserFreeze_conserves] _ ok]
    by (fastforce simp: native_apply_def lift_db_def res_inv dest: for_each_props native_props_frame)
next
  case (SetReputationAdmin name)
  with run safe fresh ok have "\<not> stale" and "db_props (vs_db st) = vs_props st"
    and "st' = native_SetReputationAdmin name st" and "admin_safe stale evs"
    by (auto simp: native_apply_def res_inv)
  with ok show ?thesis by (auto simp: native_SetReputationAdmin_def Let_def ledger_defs)
next
  case (SetCopyrightAdmin name)
  with run safe fresh ok have "\<not> stale" and "db_props (vs_db st) = vs_props st"
    and "st' = native_SetCopyrightAdmin name st" and "admin_safe stale evs"
    by (auto simp: native_apply_def res_inv)
  with ok show ?thesis by (auto simp: native_SetCopyrightAdmin_def Let_def ledger_defs)
qed (use run safe fresh ok no_call in \<open>auto simp: native_apply_def res_inv\<close>)

lemma InternalContractApply_prepare_conserves:
  assumes "InternalContractApply_prepare env op g s = Inr (ctx, s')" and "ledger_ok s"
  shows "ledger_ok s' \<and> books s' = books s"
  using assms ContractToContract_conserves
  by (auto simp: InternalContractApply_prepare_def conserves_def res_inv split: if_splits option.splits)

lemma run_events_conserves:
  assumes env: "env_admin_safe env" and run: "run_events env signer ctx evs r st = (st', gas, err)"
    and ok: "ledger_ok (vs_db st)" and safe: "admin_safe False evs"
    and fresh: "db_props (vs_db st) = vs_props st"
  shows "ledger_ok (vs_db st') \<and> books (vs_db st') = books (vs_db st)"
proof (rule run_events_invariant [OF _ _ _ _ run, where
      I = "\<lambda>evs u. ledger_ok (vs_db u) \<and> books (vs_db u) = books (vs_db st) \<and>
             (\<exists>stale. admin_safe stale evs \<and> (\<not> stale \<longrightarrow> db_props (vs_db u) = vs_props u))" and
      Q = "\<lambda>s. ledger_ok s \<and> books s = books (vs_db st)"], goal_cases)
  case (2 ctx g f evs u u2)
  then obtain stale where ok: "ledger_ok (vs_db u)" "books (vs_db u) = books (vs_db st)"
    and safe: "admin_safe stale ((g, f) # evs)" "\<not> stale \<longrightarrow> db_props (vs_db u) = vs_props u"
    by blast
  from native_apply_conserves [OF 2(3) ok(1) safe] 2(2) ok(2) show ?case
    by (simp add: contract_call_of_None)
next
  case (3 op g f evs u gas ctx' s1 evs' r')
  from env have "admin_safe False (fst (env_Exec env ctx' s1))"
    by (simp add: env_admin_safe_def)
  then have "admin_safe False evs'" by (simp add: 3(3))
  with InternalContractApply_prepare_conserves [OF 3(2)] 3(1) show ?case by auto
next
  case (4 g f evs u s2 n)
  then show ?case by (auto simp: contract_call_of_def split: native_call.splits)
qed (use ok safe fresh in auto)

section \<open>Every operation\<close>

lemma tc_db_RecordStaminaFee [simp]:
  "tc_db (RecordStaminaFee n g c) = tc_db c" "tc_signer (RecordStaminaFee n g c) = tc_signer c"
  by (simp_all add: RecordStaminaFee_def split: option.splits)

lemma tc_db_RecordOperationStaminaFee [simp]:
  "tc_db (RecordOperationStaminaFee c) = tc_db c"
  "tc_signer (RecordOperationStaminaFee c) = tc_signer c"
  by (simp_all add: RecordOperationStaminaFee_def)

lemma on_db_Inr [res_inv]:
  "on_db f c = (c', Inr u) \<longleftrightarrow> (\<exists>s. f (tc_db c) = Inr s \<and> c' = c\<lparr>tc_db := s\<rparr>)"
  by (auto simp: on_db_def split: sum.splits)

lemma on_db_conserves:
  assumes "conserves f" and "on_db f c = (c', Inr u)" and "ledger_ok (tc_db c)"
  shows "ledger_ok (tc_db c') \<and> books (tc_db c') = books (tc_db c)"
  using assms by (auto simp: on_db_Inr conserves_def)

lemma ContractApply_prepare_conserves:
  assumes "ContractApply_prepare env hf op c = Inr (ctx, s')" and "ledger_ok (tc_db c)"
  shows "ledger_ok s' \<and> books s' = books (tc_db c)"
proof -
  from assms(1) have "s' = tc_db c \<or>
    TransferFromUserToContract (ca_Caller op) (ca_Contract op) (ca_Owner op) (GetValue (ca_Amount op)) c = Inr s'"
    by (auto simp: ContractApply_prepare_def Let_def rbind_Inr_iff split: if_splits)
  then show ?thesis
    using UserToContract_conserves [OF _ assms(2)] assms(2) by auto
qed

lemma count_conserves:
  "conserves (contract_Modify k (\<lambda>t. Inr (t\<lparr>ct_ApplyCount := ct_ApplyCount t + 1\<rparr>)))"
  by (auto simp: conserves_def res_inv ledger_defs tbl_simps)

lemma ContractApply_conserves:
  assumes env: "env_admin_safe env" and run: "ContractApply_Apply env hf op c = (c', Inr u)"
    and ok: "ledger_ok (tc_db c)"
  shows "ledger_ok (tc_db c') \<and> books (tc_db c') = books (tc_db c)"
proof -
  from run obtain ctx s1 where prep: "ContractApply_prepare env hf op c = Inr (ctx, s1)"
    by (cases "ContractApply_prepare env hf op c") (auto simp: ContractApply_Apply_def)
  obtain evs r where ex: "env_Exec env ctx s1 = (evs, r)" by (cases "env_Exec env ctx s1")
  obtain st gas err where ev: "run_events env (tc_signer c) ctx evs r
      \<lparr>vs_db = s1, vs_props = db_props s1, vs_extra = 0\<rparr> = (st, gas, err)"
    by (cases "run_events env (tc_signer c) ctx evs r
      \<lparr>vs_db = s1, vs_props = db_props s1, vs_extra = 0\<rparr>")
  have "admin_safe False (fst (env_Exec env ctx s1))" using env by (simp add: env_admin_safe_def)
  then have safe: "admin_safe False evs" by (simp add: ex)
  note ok1 = ContractApply_prepare_conserves [OF prep ok]
  have ok2: "ledger_ok (vs_db st) \<and> books (vs_db st) = books s1"
    using run_events_conserves [OF env ev _ safe] ok1 by simp
  from run prep ex ev have "err = None" and
    "on_db (contract_Modify (ca_Owner op, ca_Contract op)
       (\<lambda>t. Inr (t\<lparr>ct_ApplyCount := ct_ApplyCount t + 1\<rparr>)))
       (RecordStaminaFee (ca_Caller op) (of_nat gas) (c\<lparr>tc_db := vs_db st\<rparr>)) = (c', Inr u)"
    by (auto simp: ContractApply_Apply_def Let_def split: option.splits)
  from on_db_conserves [OF count_conserves this(2)] ok1 ok2 show ?thesis by simp
qed

lemmas operation_conserves =
  AccountCreate_conserves Transfer_conserves BpRegister_conserves BpEnable_conserves
  BpVote_conserves Post_conserves Reply_conserves Follow_conserves Vote_conserves
  TransferToVest_conserves ContractDeploy_conserves ConvertVest_conserves Stake_conserves
  UnStake_conserves BpUpdate_conserves AccountUpdate_conserves AcquireTicket_conserves
  VoteByTicket_conserves DelegateVest_conserves UnDelegateVest_conserves

lemma evaluator_conserves:
  assumes "env_admin_safe env" and "evaluator_Apply env hf op c = (c', Inr u)"
    and "ledger_ok (tc_db c)"
  shows "ledger_ok (tc_db c') \<and> books (tc_db c') = books (tc_db c)"
  using assms(2) ContractApply_conserves [OF assms(1) _ assms(3)]
  by (cases op)
     (auto simp: evaluator_Apply_def dest!: operation_conserves [THEN on_db_conserves, OF _ assms(3)])

lemma applyOperation_ledger:
  assumes "env_admin_safe env" and "applyOperation env hf op c = (c', Inr u)"
    and "ledger_ok (tc_db c)"
  shows "ledger_ok (tc_db c') \<and> books (tc_db c') = books (tc_db c)"
  using assms evaluator_conserves [OF assms(1), of hf op "RecordOperationStaminaFee c" c']
  by (auto simp: applyOperation_def split: if_splits)

end
