(* ===== verification/TrxInvariant.thy ===== *)
theory TrxInvariant
  imports TrxPool Ledger
begin

text \<open>
  From operations to blocks of transactions. The locale \<open>trx_contract\<close> is what the application of
  transactions needs to know of its parts: a preorder on database states that every operation and
  every payment of stamina respects. Its lemmas carry the preorder through a transaction, with its
  success and its two ways to fail, through the groups of a batch and through the batches of a
  block. The contract is met by the ledger: transactions neither create nor destroy value.
\<close>

section \<open>Payment of stamina\<close>

text \<open>A row whose four stamina columns may have changed.\<close>

definition stamina_step :: "db \<Rightarrow> db \<Rightarrow> bool" where
  "stamina_step s s' \<longleftrightarrow>
     (\<exists>n a w x y z. tbl_get (db_accounts s) n = Some a \<and>
        s' = s\<lparr>db_accounts := tbl_put n (a\<lparr>acc_Stamina := w, acc_StaminaUseBlock := x,
                acc_StaminaFree := y, acc_StaminaFreeUseBlock := z\<rparr>) (db_accounts s)\<rparr>)"

lemma stamina_stepI:
  assumes "account_Modify n (\<lambda>t. Inr (t\<lparr>acc_StaminaFree := v\<rparr>)) s = Inr s' \<or>
    account_Modify n (\<lambda>t. Inr (t\<lparr>acc_StaminaFreeUseBlock := v\<rparr>)) s = Inr s' \<or>
    account_Modify n (\<lambda>t. Inr (t\<lparr>acc_Stamina := v\<rparr>)) s = Inr s' \<or>
    account_Modify n (\<lambda>t. Inr (t\<lparr>acc_StaminaUseBlock := v\<rparr>)) s = Inr s'"
  shows "stamina_step s s'"
proof -
  have id: "\<exists>w x y z. a\<lparr>acc_Stamina := w, acc_StaminaUseBlock := x, acc_StaminaFree := y,
      acc_StaminaFreeUseBlock := z\<rparr> = b"
    if "b = a\<lparr>acc_StaminaFree := v\<rparr> \<or> b = a\<lparr>acc_StaminaFreeUseBlock := v\<rparr> \<or>
        b = a\<lparr>acc_Stamina := v\<rparr> \<or> b = a\<lparr>acc_StaminaUseBlock := v\<rparr>" for a b :: account
    by (rule exI [of _ "acc_Stamina b"], rule exI [of _ "acc_StaminaUseBlock b"],
        rule exI [of _ "acc_StaminaFree b"], rule exI [of _ "acc_StaminaFreeUseBlock b"])
       (use that in \<open>cases a; cases b; auto\<close>)
  show ?thesis
    using assms id unfolding stamina_step_def by (auto simp: res_inv) metis+
qed

lemma stamina_writes:
  "account_Modify n (\<lambda>t. Inr (t\<lparr>acc_StaminaFree := v\<rparr>)) s = Inr s' \<Longrightarrow> stamina_step s s'"
  "account_Modify n (\<lambda>t. Inr (t\<lparr>acc_StaminaFreeUseBlock := v\<rparr>)) s = Inr s' \<Longrightarrow> stamina_step s s'"
  "account_Modify n (\<lambda>t. Inr (t\<lparr>acc_Stamina := v\<rparr>)) s = Inr s' \<Longrightarrow> stamina_step s s'"
  "account_Modify n (\<lambda>t. Inr (t\<lparr>acc_StaminaUseBlock := v\<rparr>)) s = Inr s' \<Longrightarrow> stamina_step s s'"
  using stamina_stepI by blast+

lemma deduct_stake_steps:
  assumes "deduct_stake now left paid caller s = Inr (s', r)"
  shows "stamina_step\<^sup>*\<^sup>* s s'"
proof -
  from assms obtain m ok st where "calculateUserMaxStamina caller s = Inr m"
    and "Consume (stamina_of acc_Stamina caller s) left (stamina_of acc_StaminaUseBlock caller s)
           now m = (ok, st)"
    by (auto simp: deduct_stake_def rbind_Inr_iff) fastforce
  with assms obtain s1 where "stamina_step s s1" "stamina_step s1 s'"
    by (cases ok) (auto simp: deduct_stake_def Let_def rbind_Inr_iff dest!: stamina_writes)
  then show ?thesis by (meson rtranclp.simps)
qed

lemma deduct_one_steps:
  assumes "deduct_one use caller s = Inr (s', paid)"
  shows "stamina_step\<^sup>*\<^sup>* s s'"
proof -
  obtain ok free where "ConsumeFree (dp_StaminaFree (db_props s))
      (stamina_of acc_StaminaFree caller s) use
      (stamina_of acc_StaminaFreeUseBlock caller s) (dp_HeadBlockNumber (db_props s)) = (ok, free)"
    by fastforce
  with assms obtain s1 s2 where "stamina_step s s1" "stamina_step s1 s2" "stamina_step\<^sup>*\<^sup>* s2 s'"
    by (cases ok)
       (auto simp: deduct_one_def Let_def rbind_Inr_iff
          dest!: stamina_writes(1,2) deduct_stake_steps)
  then show ?thesis by (meson converse_rtranclp_into_rtranclp)
qed

lemma deductStamina_steps:
  "deductStamina isNet m s = Inr (s', m') \<Longrightarrow> stamina_step\<^sup>*\<^sup>* s s'"
proof (induction isNet m s arbitrary: m' rule: deductStamina.induct)
  case (2 isNet caller spent m s)
  then show ?case
    by (auto simp: rbind_Inr_iff split: if_splits) (meson deduct_one_steps rtranclp_trans)
qed simp

lemma PayGas_steps: "PayGas s c = Inr (s', c') \<Longrightarrow> stamina_step\<^sup>*\<^sup>* s s'"
  by (auto simp: PayGas_def rbind_Inr_iff dest!: deductStamina_steps)

text \<open>The payment never panics: it only touches accounts that exist.\<close>

lemma account_Modify_ok:
  assumes "tbl_get (db_accounts s) n = Some a" and "acc_PubKey (f a) = acc_PubKey a"
  shows "account_Modify n (\<lambda>t. Inr (f t)) s = Inr (s\<lparr>db_accounts := tbl_put n (f a) (db_accounts s)\<rparr>)"
  using assms by (simp add: account_Modify_Inr)

lemma deduct_stake_total:
  assumes "tbl_get (db_accounts s) n = Some a"
  shows "\<exists>s' p. deduct_stake now left paid n s = Inr (s', p)"
proof -
  obtain m where m: "calculateUserMaxStamina n s = Inr m"
    using assms
    by (cases "dp_StakeVest (db_props s) = 0")
       (auto simp: calculateUserMaxStamina_def account_Get_def tbl_Get_def Let_def)
  obtain ok st where "Consume (stamina_of acc_Stamina n s) left (stamina_of acc_StaminaUseBlock n s) now m = (ok, st)"
    by fastforce
  with m assms show ?thesis
    by (cases ok) (simp_all add: deduct_stake_def account_Modify_ok tbl_get_put Let_def)
qed

lemma deduct_one_total:
  assumes "tbl_get (db_accounts s) n = Some a"
  shows "\<exists>s' p. deduct_one use n s = Inr (s', p)"
proof -
  obtain ok free where "ConsumeFree (dp_StaminaFree (db_props s)) (stamina_of acc_StaminaFree n s) use
      (stamina_of acc_StaminaFreeUseBlock n s) (dp_HeadBlockNumber (db_props s)) = (ok, free)"
    by fastforce
  with assms show ?thesis
    by (cases ok) (auto simp: deduct_one_def account_Modify_ok tbl_get_put Let_def intro!: deduct_stake_total)
qed

lemma deductStamina_total: "\<exists>s' m'. deductStamina isNet m s = Inr (s', m')"
proof (induction isNet m s rule: deductStamina.induct)
  case (2 isNet caller spent m s)
  show ?case
  proof (cases "CheckExist (db_accounts s) caller")
    case True
    then obtain a where "tbl_get (db_accounts s) caller = Some a" by (auto simp: CheckExist_def)
    from deduct_one_total [OF this] 2(2) True show ?thesis by fastforce
  qed (use 2(1) in fastforce)
qed simp

lemma PayGas_total: "\<exists>s' c'. PayGas s c = Inr (s', c')"
proof -
  obtain s1 gas where "deductStamina False (tc_gasMap c) s = Inr (s1, gas)"
    using deductStamina_total by blast
  moreover obtain s2 net where "deductStamina True (tc_netMap c) s1 = Inr (s2, net)"
    using deductStamina_total by blast
  ultimately show ?thesis by (simp add: PayGas_def)
qed

lemma tc_db_CheckNet_one: "tc_db (fst (CheckNet_one sz name c)) = tc_db c"
proof -
  have rec: "tc_db (RecordStaminaFee n g c') = tc_db c'" for n g c' by simp
  show ?thesis
    by (cases "calculateUserMaxStamina name (tc_db c)";
        cases "free_left name (tc_db c)";
        cases "stake_left name (projr (calculateUserMaxStamina name (tc_db c))) (tc_db c)")
       (simp_all add: CheckNet_one_def Let_def rec)
qed

lemma tc_db_CheckNet: "tc_db (fst (CheckNet sz names c)) = tc_db c"
proof (induction names arbitrary: c)
  case (Cons name names)
  obtain c1 r1 where one: "CheckNet_one sz name c = (c1, r1)" by fastforce
  with tc_db_CheckNet_one [of sz name c] have "tc_db c1 = tc_db c" by simp
  with one Cons show ?case by (cases r1) (simp_all add: obind_def)
qed simp

section \<open>The contract\<close>

locale trx_contract =
  fixes good_env :: "vm_env \<Rightarrow> bool"
    and R :: "db \<Rightarrow> db \<Rightarrow> bool"
  assumes R_refl: "R s s"
    and R_trans: "R s s1 \<Longrightarrow> R s1 s2 \<Longrightarrow> R s s2"
    and R_operation: "good_env env \<Longrightarrow> applyOperation env hf op c = (c', Inr u) \<Longrightarrow>
          R (tc_db c) (tc_db c')"
    and R_stamina: "stamina_step s s' \<Longrightarrow> R s s'"
begin

lemma R_steps: "stamina_step\<^sup>*\<^sup>* s s' \<Longrightarrow> R s s'"
  by (induction rule: rtranclp_induct) (auto intro: R_refl R_trans R_stamina)

lemma R_PayGas: "PayGas s c = Inr (s', c') \<Longrightarrow> R s s'"
  by (rule R_steps [OF PayGas_steps])

lemma R_apply_ops:
  "good_env env \<Longrightarrow> apply_ops env hf ops c = (c', Inr u) \<Longrightarrow> R (tc_db c) (tc_db c')"
proof (induction ops arbitrary: c)
  case Nil
  then show ?case by (simp add: R_refl)
next
  case (Cons op ops)
  from Cons.prems(2) obtain c1 v where "applyOperation env hf op c = (c1, Inr v)"
    and "apply_ops env hf ops c1 = (c', Inr u)"
    by (auto simp: obind_def split: prod.splits sum.splits)
  with Cons R_operation R_trans show ?case by metis
qed

lemma R_trx_body:
  assumes "good_env (pe_vm env)" and "trx_body env entry s = (c, Inr u)"
  shows "R s (tc_db c)"
proof -
  from assms(2) obtain c1 v where "CheckNet (pe_TrxSize env (te_SigTrx entry))
      (GetOpCreatorsMap (sg_Trx (te_SigTrx entry))) (NewTrxContext s (te_signer entry)) = (c1, Inr v)"
    and "apply_ops (pe_vm env) (HardFork env) (tx_Operations (sg_Trx (te_SigTrx entry))) c1 = (c, Inr u)"
    by (auto simp: trx_body_def obind_def Let_def split: prod.splits sum.splits)
  moreover have "tc_db c1 = s"
    using tc_db_CheckNet [of "pe_TrxSize env (te_SigTrx entry)"
        "GetOpCreatorsMap (sg_Trx (te_SigTrx entry))" "NewTrxContext s (te_signer entry)"] calculation(1)
    by (simp add: NewTrxContext_def)
  ultimately show ?thesis using R_apply_ops [OF assms(1)] by blast
qed

lemma R_applyTransactionOnDb:
  assumes "good_env (pe_vm env)" and "applyTransactionOnDb env entry s = (r, Some s')"
  shows "R s s'"
proof (cases "trx_body env entry s")
  case (Pair c res)
  have "R s (tc_db c)" if "res = Inr ()" using R_trx_body [OF assms(1)] Pair that by simp
  moreover obtain base c' where "PayGas base c = Inr (s', c')"
    "base = s \<or> (base = tc_db c \<and> res = Inr ())"
    using assms(2) Pair
    by (auto simp: applyTransactionOnDb_def Let_def split: sum.splits prod.splits if_splits)
  ultimately show ?thesis using R_PayGas R_trans by blast
qed

lemma R_applySingle:
  "good_env (pe_vm env) \<Longrightarrow> applySingle env i (es, s) = (es', s') \<Longrightarrow> R s s'"
  by (auto simp: applySingle_def Let_def R_refl dest: R_applyTransactionOnDb
      split: prod.splits option.splits)

lemma R_applyGroup:
  "good_env (pe_vm env) \<Longrightarrow> applyGroup env g (es, s) = (es', s') \<Longrightarrow> R s s'"
proof (induction g arbitrary: es s)
  case (Cons i g)
  obtain es1 s1 where "applySingle env i (es, s) = (es1, s1)" by fastforce
  with Cons R_applySingle R_trans show ?case by (fastforce simp: applyGroup_def)
qed (simp add: applyGroup_def R_refl)

lemma R_MultiTrxs_Apply:
  assumes "good_env (pe_vm env)" and "MultiTrxs_Apply env es s = (es', s')"
  shows "R s s'"
proof -
  have "fold (applyGroup env) gs (es, s) = (es', s') \<Longrightarrow> R s s'" for gs es s
  proof (induction gs arbitrary: es s)
    case (Cons g gs)
    obtain es1 s1 where "applyGroup env g (es, s) = (es1, s1)" by fastforce
    with Cons R_applyGroup [OF assms(1)] R_trans show ?case by fastforce
  qed (simp add: R_refl)
  with assms(2) show ?thesis by (simp add: MultiTrxs_Apply_def)
qed

lemma R_apply_batches:
  "good_env (pe_vm env) \<Longrightarrow> apply_batches env expect es s = Inr s' \<Longrightarrow> R s s'"
proof (induction env expect es s rule: apply_batches.induct)
  case (2 env expect e es s)
  obtain es1 s1 where m: "MultiTrxs_Apply env (e # take (batchCount - 1) es) s = (es1, s1)"
    by fastforce
  with 2 have "R s1 s'" by (auto simp: rbind_Inr_iff)
  with R_MultiTrxs_Apply [OF 2(2) m] R_trans show ?case by blast
qed (simp add: R_refl)

end

section \<open>The ledger meets the contract\<close>

definition ledger_kept :: "db \<Rightarrow> db \<Rightarrow> bool" where
  "ledger_kept s s' \<longleftrightarrow> (ledger_ok s \<longrightarrow> ledger_ok s' \<and> books s' = books s)"

interpretation ledger: trx_contract env_admin_safe ledger_kept
proof (unfold_locales, goal_cases)
  case (4 s s')
  then show ?case
    by (auto simp: stamina_step_def ledger_kept_def ledger_defs tbl_simps)
qed (auto simp: ledger_kept_def dest: applyOperation_ledger)

end
