(* ===== verification/OpFrame.thy ===== *)
theory OpFrame
  imports TrxInvariant
begin

text \<open>
  What transactions leave alone. An operation changes only ten of the dynamic properties, so the
  clock, the head block, the mint schedule and the reward pools stay as they are; it keeps every
  table a function of its keys, never deletes an account, a producer, a post or a vote, leaves the
  schedule and the block bookkeeping alone and keeps the recorded vote weights non-negative. The
  relation \<open>op_rel\<close> says so; it meets the contract of \<open>trx_contract\<close>, so it holds for whole
  transactions and batches.
\<close>

section \<open>The relation\<close>

text \<open>The properties with the ten columns blanked that operations write.\<close>

definition fixed_props :: "dynamic_properties \<Rightarrow> dynamic_properties" where
  "fixed_props p = p\<lparr>dp_TotalCos := 0, dp_TotalVest := 0, dp_StakeVest := 0, dp_TicketsIncome := 0,
     dp_ChargedTicketsNum := 0, dp_TicketsBpBonus := 0, dp_TotalUserCnt := 0, dp_TotalPostCnt := 0,
     dp_ReputationAdmin := None, dp_CopyrightAdmin := None\<rparr>"

definition natural :: "string \<Rightarrow> bool" where
  "natural str = (case big_of_string str of None \<Rightarrow> False | Some v \<Rightarrow> 0 \<le> v)"

definition weights_ok :: "db \<Rightarrow> bool" where
  "weights_ok s \<longleftrightarrow> tbl_all (\<lambda>p. natural (po_WeightedVp p)) (db_posts s) \<and>
     tbl_all (\<lambda>v. natural (vo_WeightedVp v)) (db_votes s)"

definition tables_ok :: "db \<Rightarrow> bool" where
  "tables_ok s \<longleftrightarrow> tbl_ok (db_accounts s) \<and> tbl_ok (db_producers s) \<and> tbl_ok (db_bpVotes s) \<and>
     tbl_ok (db_posts s) \<and> tbl_ok (db_votes s) \<and> tbl_ok (db_voteCashouts s) \<and>
     tbl_ok (db_stakes s) \<and> tbl_ok (db_tickets s) \<and> tbl_ok (db_delegations s) \<and>
     tbl_ok (db_contracts s)"

definition keeps_rows :: "('k, 'v) tbl \<Rightarrow> ('k, 'v) tbl \<Rightarrow> bool" where
  "keeps_rows t t' \<longleftrightarrow> (\<forall>k. tbl_get t k \<noteq> None \<longrightarrow> tbl_get t' k \<noteq> None)"

definition rows_rel :: "db \<Rightarrow> db \<Rightarrow> bool" where
  "rows_rel s s' \<longleftrightarrow>
     (weights_ok s \<longrightarrow> weights_ok s') \<and> (tables_ok s \<longrightarrow> tables_ok s') \<and>
     keeps_rows (db_accounts s) (db_accounts s') \<and> keeps_rows (db_producers s) (db_producers s') \<and>
     keeps_rows (db_posts s) (db_posts s') \<and> keeps_rows (db_votes s) (db_votes s') \<and>
     db_schedule s' = db_schedule s \<and> db_blockSummary s' = db_blockSummary s \<and>
     db_blocktrxs s' = db_blocktrxs s"

definition op_rel :: "db \<Rightarrow> db \<Rightarrow> bool" where
  "op_rel s s' \<longleftrightarrow> fixed_props (db_props s') = fixed_props (db_props s) \<and> rows_rel s s'"

lemmas op_rel_defs = op_rel_def rows_rel_def

lemma rows_rel_refl [simp]: "rows_rel s s"
  by (simp add: rows_rel_def keeps_rows_def)

lemma rows_rel_trans: "rows_rel s s1 \<Longrightarrow> rows_rel s1 s2 \<Longrightarrow> rows_rel s s2"
  by (auto simp: rows_rel_def keeps_rows_def)

lemma rows_rel_props [simp]:
  "rows_rel s (s1\<lparr>db_props := p\<rparr>) \<longleftrightarrow> rows_rel s s1" "rows_rel (s\<lparr>db_props := p\<rparr>) s1 \<longleftrightarrow> rows_rel s s1"
  by (simp_all add: rows_rel_def weights_ok_def tables_ok_def)

lemma op_rel_rows: "op_rel s s' \<Longrightarrow> rows_rel s s'"
  by (simp add: op_rel_def)

lemma keeps_rows_refl [simp]: "keeps_rows t t"
  by (simp add: keeps_rows_def)

lemma keeps_rows_put [simp]: "keeps_rows t (tbl_put k v t)"
  by (simp add: keeps_rows_def tbl_get_put)

lemma op_rel_refl [simp]: "op_rel s s"
  by (simp add: op_rel_defs)

lemma op_rel_trans: "op_rel s s1 \<Longrightarrow> op_rel s1 s2 \<Longrightarrow> op_rel s s2"
  by (auto simp: op_rel_defs keeps_rows_def)

lemma natural_string_of_big [simp]: "natural (string_of_big x) \<longleftrightarrow> 0 \<le> x"
  by (simp add: natural_def)

lemma natural_zero [simp]: "natural ''0''"
  by code_simp

text \<open>The columns of the properties that the economy and the block bookkeeping read.\<close>

lemma fixed_props_fields [simp]:
  "dp_HeadBlockId (fixed_props p) = dp_HeadBlockId p"
  "dp_HeadBlockNumber (fixed_props p) = dp_HeadBlockNumber p"
  "dp_Time (fixed_props p) = dp_Time p"
  "dp_CurrentBlockProducer (fixed_props p) = dp_CurrentBlockProducer p"
  "dp_IthYear (fixed_props p) = dp_IthYear p"
  "dp_AnnualBudget (fixed_props p) = dp_AnnualBudget p"
  "dp_AnnualMinted (fixed_props p) = dp_AnnualMinted p"
  "dp_WeightedVpsPost (fixed_props p) = dp_WeightedVpsPost p"
  "dp_WeightedVpsReply (fixed_props p) = dp_WeightedVpsReply p"
  "dp_WeightedVpsVote (fixed_props p) = dp_WeightedVpsVote p"
  "dp_WeightedVpsDapp (fixed_props p) = dp_WeightedVpsDapp p"
  "dp_BlockProducerBootCompleted (fixed_props p) = dp_BlockProducerBootCompleted p"
  by (simp_all add: fixed_props_def)

section \<open>Single writes\<close>

lemma op_rel_accounts:
  "account_Modify k f s = Inr s' \<Longrightarrow> op_rel s s'"
  "account_Create k a s = Inr s' \<Longrightarrow> op_rel s s'"
  by (auto simp: op_rel_defs res_inv weights_ok_def tables_ok_def tbl_ok_put)

lemma op_rel_producers:
  "producer_Modify k g s = Inr s' \<Longrightarrow> op_rel s s'"
  "producer_Create k b s = Inr s' \<Longrightarrow> op_rel s s'"
  "updateBpVoteValue n old new s = Inr s' \<Longrightarrow> op_rel s s'"
  by (auto simp: op_rel_defs res_inv weights_ok_def tables_ok_def tbl_ok_put updateBpVoteValue_def
      split: option.splits prod.splits if_splits)

lemma op_rel_bpVotes:
  "bpVote_Create i v s = Inr s' \<Longrightarrow> op_rel s s'"
  "bpVote_Remove i s = Inr s' \<Longrightarrow> op_rel s s'"
  by (auto simp: op_rel_defs res_inv weights_ok_def tables_ok_def tbl_ok_put tbl_ok_del)

lemma op_rel_side_tables:
  "stake_record_add sk x s = Inr s' \<Longrightarrow> op_rel s s'"
  "stake_Modify sk h s = Inr s' \<Longrightarrow> op_rel s s'"
  "ticket_Create tk t s = Inr s' \<Longrightarrow> op_rel s s'"
  "ticket_Remove tk s = Inr s' \<Longrightarrow> op_rel s s'"
  "delegation_Create d r s = Inr s' \<Longrightarrow> op_rel s s'"
  "delegation_Modify d q s = Inr s' \<Longrightarrow> op_rel s s'"
  "contract_Create ck c s = Inr s' \<Longrightarrow> op_rel s s'"
  "contract_Modify ck p s = Inr s' \<Longrightarrow> op_rel s s'"
  "voteCashout_append n i s = Inr s' \<Longrightarrow> op_rel s s'"
  by (auto simp: op_rel_defs res_inv weights_ok_def tables_ok_def tbl_ok_put tbl_ok_del Let_def
      stake_record_add_def voteCashout_append_def split: if_splits)

lemma op_rel_post_Modify:
  assumes "post_Modify k (\<lambda>t. Inr (f t)) s = Inr s'"
    and "\<And>t. tbl_get (db_posts s) k = Some t \<Longrightarrow> weights_ok s \<Longrightarrow> natural (po_WeightedVp (f t))"
  shows "op_rel s s'"
  using assms
  by (auto simp: op_rel_defs res_inv weights_ok_def tables_ok_def tbl_ok_put tbl_all_put)

lemma weights_ok_post: "weights_ok s \<Longrightarrow> tbl_get (db_posts s) k = Some t \<Longrightarrow> natural (po_WeightedVp t)"
  by (auto simp: weights_ok_def dest: tbl_all_get [where P = "\<lambda>p. natural (po_WeightedVp p)"])

lemma op_rel_posts:
  "post_Create k p s = Inr s' \<Longrightarrow> natural (po_WeightedVp p) \<Longrightarrow> op_rel s s'"
  "vote_Create vk v s = Inr s' \<Longrightarrow> natural (vo_WeightedVp v) \<Longrightarrow> op_rel s s'"
  "post_Modify k (\<lambda>t. Inr (f t)) s = Inr s' \<Longrightarrow> (\<And>t. po_WeightedVp (f t) = po_WeightedVp t) \<Longrightarrow>
     op_rel s s'"
  by (auto simp: op_rel_defs res_inv weights_ok_def tables_ok_def tbl_ok_put tbl_all_put)
     (auto simp: weights_ok_post weights_ok_def intro!: tbl_all_put)

lemma op_rel_props:
  "ModifyProps f s = Inr s' \<Longrightarrow> (\<And>p p'. f p = Inr p' \<Longrightarrow> fixed_props p' = fixed_props p) \<Longrightarrow> op_rel s s'"
  by (auto simp: op_rel_defs res_inv weights_ok_def tables_ok_def)

lemma op_rel_totals:
  "TransferToVest c s = Inr s' \<Longrightarrow> op_rel s s'"
  "TransferFromVest v s = Inr s' \<Longrightarrow> op_rel s s'"
  "TransferToStakeVest c s = Inr s' \<Longrightarrow> op_rel s s'"
  "TransferFromStakeVest v s = Inr s' \<Longrightarrow> op_rel s s'"
  "UpdateTicketIncomeAndNum i n s = Inr s' \<Longrightarrow> op_rel s s'"
  by (auto simp: TransferToVest_def TransferFromVest_def TransferToStakeVest_def
      TransferFromStakeVest_def UpdateTicketIncomeAndNum_def rbind_Inr_iff fixed_props_def
      elim!: op_rel_props)

lemma op_rel_incId [simp]: "op_rel s s1 \<Longrightarrow> op_rel s (s1\<lparr>db_incId := i\<rparr>)"
  by (auto simp: op_rel_defs weights_ok_def tables_ok_def)

lemma op_rel_incId_left: "op_rel (s\<lparr>db_incId := i\<rparr>) s1 \<Longrightarrow> op_rel s s1"
  by (auto simp: op_rel_defs weights_ok_def tables_ok_def)

lemmas op_rel_writes =
  op_rel_accounts op_rel_producers op_rel_bpVotes op_rel_side_tables op_rel_totals

section \<open>The operations\<close>

text \<open>A function that respects the relation, and the proof scheme of its instances: the writes
  of a successful run, one after the other.\<close>

definition framed :: "(db \<Rightarrow> db res) \<Rightarrow> bool" where
  "framed f \<longleftrightarrow> (\<forall>s s'. f s = Inr s' \<longrightarrow> op_rel s s')"

lemma AccountCreate_framed: "framed (AccountCreate_Apply op)"
  by (auto simp: framed_def AccountCreate_Apply_def rbind_Inr_iff fixed_props_def
      dest!: op_rel_writes op_rel_props) (blast intro: op_rel_trans)+

lemma AccountUpdate_framed: "framed (AccountUpdate_Apply op)"
  by (auto simp: framed_def AccountUpdate_Apply_def rbind_Inr_iff dest!: op_rel_writes)

lemma Transfer_framed: "framed (Transfer_Apply hf op)"
  by (auto simp: framed_def Transfer_Apply_def rbind_Inr_iff dest!: op_rel_writes)
     (blast intro: op_rel_trans)+

lemma Post_framed: "framed (Post_Apply op)"
  by (auto simp: framed_def Post_Apply_def Let_def rbind_Inr_iff fixed_props_def
      dest!: op_rel_writes op_rel_posts op_rel_props) (blast intro: op_rel_trans)+

lemma Reply_framed: "framed (Reply_Apply op)"
  by (auto simp: framed_def Reply_Apply_def Let_def rbind_Inr_iff
      dest!: op_rel_writes op_rel_posts) (blast intro: op_rel_trans)+

lemma BpRegister_framed: "framed (BpRegister_Apply op)"
  by (auto simp: framed_def BpRegister_Apply_def rbind_Inr_iff dest!: op_rel_writes)

lemma BpEnable_framed: "framed (BpEnable_Apply op)"
  by (auto simp: framed_def BpEnable_Apply_def rbind_Inr_iff dest!: op_rel_writes split: if_splits)

lemma BpVote_framed: "framed (BpVote_Apply op)"
  by (auto simp: framed_def BpVote_Apply_def Let_def rbind_Inr_iff dest!: op_rel_writes
      split: if_splits) (blast intro: op_rel_trans)+

lemma BpUpdate_framed: "framed (BpUpdate_Apply op)"
  by (auto simp: framed_def BpUpdate_Apply_def rbind_Inr_iff dest!: op_rel_writes)

lemma Follow_framed: "framed (Follow_Apply op)"
  by (auto simp: framed_def Follow_Apply_def rbind_Inr_iff)

lemma TransferToVest_framed: "framed (TransferToVest_Apply hf op)"
  by (auto simp: framed_def TransferToVest_Apply_def Let_def rbind_Inr_iff dest!: op_rel_writes)
     (blast intro: op_rel_trans)+

lemma ConvertVest_framed: "framed (ConvertVest_Apply hf op)"
  by (auto simp: framed_def ConvertVest_Apply_def Let_def rbind_Inr_iff dest!: op_rel_writes)

lemma Stake_framed: "framed (Stake_Apply hf op)"
  by (auto simp: framed_def Stake_Apply_def Let_def rbind_Inr_iff dest!: op_rel_writes)
     (blast intro: op_rel_trans)+

lemma UnStake_framed: "framed (UnStake_Apply op)"
  by (auto simp: framed_def UnStake_Apply_def Let_def rbind_Inr_iff dest!: op_rel_writes)
     (blast intro: op_rel_trans)+

lemma AcquireTicket_framed: "framed (AcquireTicket_Apply op)"
  by (auto simp: framed_def AcquireTicket_Apply_def Let_def rbind_Inr_iff fixed_props_def
      dest!: op_rel_writes op_rel_props) (blast intro: op_rel_trans)+

lemma VoteByTicket_spend_framed: "VoteByTicket_spend op s = Inr (n, s') \<Longrightarrow> op_rel s s'"
  by (auto simp: VoteByTicket_spend_def Let_def rbind_Inr_iff
      dest!: op_rel_writes op_rel_posts split: if_splits) (blast intro: op_rel_trans)+

lemma VoteByTicket_bonus_framed: "VoteByTicket_bonus n s = Inr s' \<Longrightarrow> op_rel s s'"
  by (auto simp: VoteByTicket_bonus_def Let_def rbind_Inr_iff fixed_props_def
      dest!: op_rel_writes op_rel_props split: if_splits) (blast intro: op_rel_trans)+

lemma VoteByTicket_framed: "framed (VoteByTicket_Apply op)"
  by (auto simp: framed_def VoteByTicket_Apply_def rbind_Inr_iff
      dest!: VoteByTicket_spend_framed VoteByTicket_bonus_framed intro: op_rel_trans)

lemma DelegateVest_framed: "framed (DelegateVest_Apply hf op)"
  by (auto simp: framed_def DelegateVest_Apply_def NewRecordID_def Let_def rbind_Inr_iff
      dest!: op_rel_writes op_rel_incId_left) (blast intro: op_rel_trans)+

lemma UnDelegateVest_framed: "framed (UnDelegateVest_Apply op)"
  by (auto simp: framed_def UnDelegateVest_Apply_def Let_def rbind_Inr_iff dest!: op_rel_writes)
     (blast intro: op_rel_trans)+

lemma natural_SetString: "natural str \<Longrightarrow> 0 \<le> big_SetString str"
  by (simp add: natural_def big_SetString_def split: option.splits)

lemma vote_weightedVp_nonneg: "0 \<le> vote_weightedVp hf voter"
  by (simp add: vote_weightedVp_def Let_def big_Sqrt_def)

lemma vote_post_Modify:
  assumes "post_Modify k (\<lambda>t. Inr (t\<lparr>po_WeightedVp := string_of_big (w + big_SetString (po_WeightedVp p)),
      po_VoteCnt := po_VoteCnt t + 1\<rparr>)) s = Inr s'" and "tbl_get (db_posts s) k = Some p" and "0 \<le> w"
  shows "op_rel s s'"
proof (rule op_rel_post_Modify [OF assms(1)])
  assume "weights_ok s"
  from weights_ok_post [OF this assms(2)] assms(3) show "natural (po_WeightedVp (t\<lparr>po_WeightedVp :=
      string_of_big (w + big_SetString (po_WeightedVp p)), po_VoteCnt := po_VoteCnt t + 1\<rparr>))" for t
    by (simp add: natural_SetString)
qed

lemma Vote_framed: "framed (Vote_Apply hf op)"
  by (auto simp: framed_def Vote_Apply_def Let_def rbind_Inr_iff post_Get_Inr vote_weightedVp_nonneg
      dest!: op_rel_writes vote_post_Modify [OF _ _ vote_weightedVp_nonneg] op_rel_posts(2))
     (blast intro: op_rel_trans)+

section \<open>Contracts\<close>

lemma framed_for_each:
  assumes "\<And>x. framed (f x)"
  shows "framed (for_each f xs)"
  unfolding framed_def
proof (intro allI impI)
  fix s s' assume "for_each f xs s = Inr s'"
  then show "op_rel s s'"
    by (rule for_each_invariant [where P = "op_rel s"])
       (use assms in \<open>auto simp: framed_def intro: op_rel_trans\<close>)
qed

lemma disable_producer_framed: "disable_producer n s = Inr s' \<Longrightarrow> op_rel s s'"
  by (auto simp: disable_producer_def dest!: op_rel_writes split: option.splits if_splits)

lemma native_framed:
  "framed (SetUserCopyright x)" "framed (SetUserReputation y)" "framed (SetUserFreeze v z)"
  "framed (TransferFromContractToUser ct ow to amount)"
  "framed (TransferFromContractToUserVest ct ow to amount)"
  "framed (TransferFromContractToContract ct ow ct2 ow2 amount)"
  by (auto simp: framed_def SetUserCopyright_def SetUserReputation_def SetUserFreeze_def
      TransferFromContractToUser_def TransferFromContractToUserVest_def
      TransferFromContractToContract_def Let_def rbind_Inr_iff
      dest!: op_rel_writes op_rel_posts disable_producer_framed split: prod.splits if_splits)
     (blast intro: op_rel_trans)+

lemma UserToContract_framed:
  "TransferFromUserToContract from ct ow amount c = Inr s' \<Longrightarrow> op_rel (tc_db c) s'"
  by (auto simp: TransferFromUserToContract_def Let_def rbind_Inr_iff dest!: op_rel_writes
      split: option.splits if_splits) (blast intro: op_rel_trans)+

lemma InternalContractApply_prepare_framed:
  "InternalContractApply_prepare env op g s = Inr (ctx, s') \<Longrightarrow> op_rel s s'"
  using native_framed(6)
  by (auto simp: InternalContractApply_prepare_def framed_def rbind_Inr_iff
      split: if_splits option.splits)

text \<open>
  A machine keeps its own copy of the properties, which may be old, and the two setters of
  administrators store it; but the columns of the relation are the same in every copy.
\<close>

definition vm_rel :: "db \<Rightarrow> vm_state \<Rightarrow> bool" where
  "vm_rel s st \<longleftrightarrow> op_rel s (vs_db st) \<and> fixed_props (vs_props st) = fixed_props (db_props s)"

lemma vm_rel_lift:
  "framed f \<Longrightarrow> vm_rel s st \<Longrightarrow> lift_db f st = Inr st' \<Longrightarrow> vm_rel s st'"
  by (auto simp: vm_rel_def lift_db_def rbind_Inr_iff framed_def intro: op_rel_trans)

lemma vm_rel_admin:
  assumes "vm_rel s st"
  shows "vm_rel s (native_SetReputationAdmin n st)" "vm_rel s (native_SetCopyrightAdmin n st)"
  using assms
  by (auto simp: vm_rel_def op_rel_defs native_SetReputationAdmin_def native_SetCopyrightAdmin_def
      Let_def fixed_props_def weights_ok_def tables_ok_def)

lemma native_apply_framed:
  assumes "native_apply signer ctx f st = Inr st'" and "vm_rel s st"
  shows "vm_rel s st'"
  using assms vm_rel_admin [OF assms(2)]
  by (cases f)
     (auto simp: native_apply_def rbind_Inr_iff
       intro: vm_rel_lift [OF native_framed(4)] vm_rel_lift [OF native_framed(5)]
         vm_rel_lift [OF native_framed(6)] vm_rel_lift [OF framed_for_each [OF native_framed(1)]]
         vm_rel_lift [OF framed_for_each [OF native_framed(2)]]
         vm_rel_lift [OF framed_for_each [OF native_framed(3)]])

lemma run_events_framed:
  assumes run: "run_events env signer ctx evs r st = (st', gas, err)" and st: "vm_rel s st"
  shows "op_rel s (vs_db st')"
proof (rule run_events_invariant [OF _ _ _ _ run, where
      I = "\<lambda>_ u. vm_rel s u" and Q = "op_rel s"], goal_cases)
  case (2 ctx g f evs u u2)
  then show ?case by (blast intro: native_apply_framed)
next
  case (3 op g f evs u gas ctx' s1 evs' r')
  then have "op_rel s s1"
    by (blast intro: op_rel_trans InternalContractApply_prepare_framed dest: vm_rel_def [THEN iffD1])
  then show ?case by (simp add: vm_rel_def op_rel_defs)
qed (use st in \<open>auto simp: vm_rel_def\<close>)

lemma ContractDeploy_framed: "framed (ContractDeploy_Apply env hf op)"
  by (auto simp: framed_def ContractDeploy_Apply_def Let_def rbind_Inr_iff dest!: op_rel_writes
      split: option.splits if_splits)

lemma ContractApply_framed:
  assumes run: "ContractApply_Apply env hf op c = (c', Inr u)"
  shows "op_rel (tc_db c) (tc_db c')"
proof -
  from run obtain ctx s1 where prep: "ContractApply_prepare env hf op c = Inr (ctx, s1)"
    by (cases "ContractApply_prepare env hf op c") (auto simp: ContractApply_Apply_def)
  then have "op_rel (tc_db c) s1"
    by (auto simp: ContractApply_prepare_def Let_def rbind_Inr_iff
        dest!: UserToContract_framed split: if_splits)
  moreover obtain evs r where ex: "env_Exec env ctx s1 = (evs, r)" by (cases "env_Exec env ctx s1")
  moreover obtain st gas err where ev: "run_events env (tc_signer c) ctx evs r
      \<lparr>vs_db = s1, vs_props = db_props s1, vs_extra = 0\<rparr> = (st, gas, err)"
    by (cases "run_events env (tc_signer c) ctx evs r
      \<lparr>vs_db = s1, vs_props = db_props s1, vs_extra = 0\<rparr>")
  moreover have "op_rel s1 (vs_db st)"
    by (rule run_events_framed [OF ev]) (simp add: vm_rel_def)
  moreover have "op_rel (vs_db st) (tc_db c')"
    using run prep ex ev
    by (auto simp: ContractApply_Apply_def Let_def on_db_Inr dest!: op_rel_writes split: option.splits)
  ultimately show ?thesis by (blast intro: op_rel_trans)
qed

section \<open>The relation meets the contract of transactions\<close>

lemmas operation_framed =
  AccountCreate_framed Transfer_framed BpRegister_framed BpEnable_framed BpVote_framed Post_framed
  Reply_framed Follow_framed Vote_framed TransferToVest_framed ContractDeploy_framed
  ConvertVest_framed Stake_framed UnStake_framed BpUpdate_framed AccountUpdate_framed
  AcquireTicket_framed VoteByTicket_framed DelegateVest_framed UnDelegateVest_framed

lemma on_db_framed: "framed f \<Longrightarrow> on_db f c = (c', Inr u) \<Longrightarrow> op_rel (tc_db c) (tc_db c')"
  by (auto simp: on_db_Inr framed_def)

lemma evaluator_framed: "evaluator_Apply env hf op c = (c', Inr u) \<Longrightarrow> op_rel (tc_db c) (tc_db c')"
  by (cases op) (auto simp: evaluator_Apply_def dest!: operation_framed [THEN on_db_framed] ContractApply_framed)

lemma applyOperation_framed:
  assumes "applyOperation env hf op c = (c', Inr u)"
  shows "op_rel (tc_db c) (tc_db c')"
  using assms evaluator_framed [of env hf op "RecordOperationStaminaFee c" c']
  by (auto simp: applyOperation_def split: if_splits)

interpretation ops: trx_contract "\<lambda>_. True" op_rel
proof (unfold_locales, goal_cases)
  case (2 s s1 s2)
  then show ?case by (rule op_rel_trans)
next
  case (4 s s')
  then show ?case
    by (auto simp: stamina_step_def op_rel_defs weights_ok_def tables_ok_def tbl_ok_put)
qed (auto dest: applyOperation_framed)

end
