(* ===== verification/MintSchedule.thy ===== *)
theory MintSchedule
  imports OpFrame
begin

text \<open>
  Minting follows its schedule. The budgets of the twelve years add up to what separates the
  initial from the total supply; \<open>Mint\<close> issues exactly the amount the schedule gives the block,
  splits it without loss between the producer and the four reward pools, and moves to the next
  year when the budget is used up. The supply therefore never exceeds the total supply, as long as
  the 32-bit year counter, which every block after the twelfth year increments, has not wrapped.
\<close>

section \<open>Budgets\<close>

definition budget_of :: "nat \<Rightarrow> nat" where
  "budget_of y = (if y > 12 then 0 else 44800000000000 * y + (if y = 12 then 5600000000000 else 0))"

definition issued_before :: "nat \<Rightarrow> nat" where
  "issued_before y = sum_list (map budget_of [0..<min y 13])"

lemma issued_before_Suc: "issued_before (Suc y) = issued_before y + budget_of y"
  by (cases "y \<le> 12") (simp_all add: issued_before_def budget_of_def min_absorb1 min_absorb2)

lemma issued_before_mono: "y \<le> y' \<Longrightarrow> issued_before y \<le> issued_before y'"
  by (induction rule: dec_induct) (auto simp: issued_before_Suc)

lemma issued_before_end: "12 < y \<Longrightarrow> issued_before y = 3500000000000000"
  by (simp add: issued_before_def min_def budget_of_def upt_rec)

lemma unat_supplies:
  "unat COSTotalSupply = 10000000000000000" "unat COSInitSupply = 6500000000000000"
  by (simp_all add: COSTotalSupply_def COSInitSupply_def COSTokenDecimals_def)

lemma unat_mult_small: "unat (x :: u64) * unat y < 2 ^ 64 \<Longrightarrow> unat (x * y) = unat x * unat y"
  using unat_mult_lem [of x y] by simp

lemma unat_add_small: "unat (x :: u64) + unat y < 2 ^ 64 \<Longrightarrow> unat (x + y) = unat x + unat y"
  using unat_add_lem [of x y] by simp

lemma unat_BaseBudget: "unat (BaseBudget ith) = budget_of (unat ith)"
proof (cases "ith > 12")
  case True
  then show ?thesis by (simp add: BaseBudget_def budget_of_def word_less_nat_alt)
next
  case False
  then have le: "unat ith \<le> 12" by (simp add: word_less_nat_alt)
  have u: "unat (ucast ith :: u64) = unat ith"
    using le by (simp add: unsigned_ucast_eq take_bit_nat_eq_self)
  have m: "unat (44800000000000 * ucast ith :: u64) = 44800000000000 * unat ith"
    using le by (subst unat_mult_small) (simp_all add: u)
  have c: "COSTotalSupply div 1000 div 100 = 100000000000"
    by (simp add: COSTotalSupply_def COSTokenDecimals_def)
  have t: "ith = 12 \<longleftrightarrow> unat ith = 12"
    by (simp add: word_unat_eq_iff)
  show ?thesis
    using False le
    by (simp add: BaseBudget_def c budget_of_def Let_def m t unat_add_small)
qed

lemma budget_of_bound: "budget_of y \<le> 600000000000000"
  by (simp add: budget_of_def)

lemma unat_CalculatePerBlockBudget: "unat (CalculatePerBlockBudget b) = unat b div 31536000"
  by (simp add: CalculatePerBlockBudget_def BlockInterval_def unat_div)

section \<open>The amount of a block\<close>

text \<open>
  The first half of \<open>Mint\<close> in closed form: the amount already minted in the year the counter
  names, and then either the rest of the budget, with a step to the next year, or the share of one
  block.
\<close>

definition minted_this_year :: "dynamic_properties \<Rightarrow> nat" where
  "minted_this_year p =
     (if unat (dp_AnnualBudget p) = budget_of (unat (dp_IthYear p)) then unat (dp_AnnualMinted p) else 0)"

definition block_issue :: "dynamic_properties \<Rightarrow> nat" where
  "block_issue p =
     (let budget = budget_of (unat (dp_IthYear p)); rest = budget - minted_this_year p;
          share = budget div 31536000
      in if rest \<le> share then rest else share)"

definition year_ends :: "dynamic_properties \<Rightarrow> bool" where
  "year_ends p \<longleftrightarrow> budget_of (unat (dp_IthYear p)) \<le>
     minted_this_year p + budget_of (unat (dp_IthYear p)) div 31536000"

definition year_props :: "dynamic_properties \<Rightarrow> dynamic_properties" where
  "year_props p =
     p\<lparr>dp_AnnualBudget := BaseBudget (dp_IthYear p),
       dp_AnnualMinted := of_nat (minted_this_year p),
       dp_IthYear := dp_IthYear p + (if year_ends p then 1 else 0)\<rparr>"

lemma block_issue_small: "block_issue p < 100000000"
proof -
  have "budget_of (unat (dp_IthYear p)) div 31536000 \<le> 600000000000000 div 31536000"
    by (rule div_le_mono [OF budget_of_bound])
  then show ?thesis by (simp add: block_issue_def Let_def)
qed

lemma budget_current: 
  "unat (dp_AnnualBudget p) = budget_of (unat (dp_IthYear p)) \<longleftrightarrow>
     dp_AnnualBudget p = BaseBudget (dp_IthYear p)"
  by (metis unat_BaseBudget word_unat_eq_iff)

lemma year_props_cases:
  assumes "M = (if dp_AnnualBudget p = BaseBudget (dp_IthYear p) then dp_AnnualMinted p else 0)"
    and "B = BaseBudget (dp_IthYear p)" and "bc = CalculatePerBlockBudget B"
  shows "unat M = minted_this_year p" "unat B = budget_of (unat (dp_IthYear p))"
    "B \<le> M \<Longrightarrow> year_ends p \<and> block_issue p = 0"
    "M < B \<Longrightarrow> B \<le> M + bc \<longleftrightarrow> year_ends p"
    "M < B \<Longrightarrow> of_nat (block_issue p) = (if year_ends p then B - M else bc)"
proof -
  show M: "unat M = minted_this_year p"
    by (simp add: assms(1) minted_this_year_def budget_current)
  show B: "unat B = budget_of (unat (dp_IthYear p))"
    by (simp add: assms(2) unat_BaseBudget)
  have bc: "unat bc = unat B div 31536000"
    by (simp add: assms(3) unat_CalculatePerBlockBudget)
  have sum: "unat (M + bc) = unat M + unat bc" if "M < B"
    using that budget_of_bound [of "unat (dp_IthYear p)"]
    by (subst unat_add_small) (auto simp: bc B word_less_nat_alt)
  show "B \<le> M \<Longrightarrow> year_ends p \<and> block_issue p = 0"
    by (simp add: word_le_nat_alt M B year_ends_def block_issue_def)
  show ends: "M < B \<Longrightarrow> B \<le> M + bc \<longleftrightarrow> year_ends p"
    by (simp add: word_le_nat_alt sum M B bc year_ends_def)
  assume less: "M < B"
  have "unat (if year_ends p then B - M else bc) = block_issue p"
  proof (cases "year_ends p")
    case True
    have "unat (B - M) = unat B - unat M"
      using less by (simp add: word_le_nat_alt word_less_nat_alt unat_sub_if')
    with True show ?thesis
      by (auto simp: M B block_issue_def year_ends_def Let_def)
  next
    case False
    then show ?thesis
      by (auto simp: M B bc block_issue_def year_ends_def Let_def)
  qed
  then show "of_nat (block_issue p) = (if year_ends p then B - M else bc)"
    by (metis of_nat_unat ucast_id)
qed

lemma mint_year_closed:
  "mint_year s = Inr (of_nat (block_issue (db_props s)), s\<lparr>db_props := year_props (db_props s)\<rparr>)"
proof -
  define p where "p = db_props s"
  define B where "B = BaseBudget (dp_IthYear p)"
  define M where "M = (if dp_AnnualBudget p = BaseBudget (dp_IthYear p) then dp_AnnualMinted p else 0)"
  define bc where "bc = CalculatePerBlockBudget B"
  note facts = year_props_cases [OF M_def B_def bc_def]
  let ?s1 = "s\<lparr>db_props := p\<lparr>dp_AnnualBudget := B, dp_AnnualMinted := M\<rparr>\<rparr>"
  have first: "(if dp_AnnualBudget p \<noteq> B
      then ModifyProps (\<lambda>props. Inr (props\<lparr>dp_AnnualBudget := B, dp_AnnualMinted := 0\<rparr>)) s
      else Inr s) = (Inr ?s1 :: db res)"
    by (simp add: M_def B_def p_def ModifyProps_def)
  have M': "of_nat (minted_this_year p) = M"
    using facts(1) by (metis of_nat_unat ucast_id)
  show ?thesis
  proof (cases "B \<le> M")
    case True
    then have "\<not> M < B" by simp
    with True facts(3) first M' show ?thesis
      by (simp add: mint_year_def CalculateBudget_def ModifyProps_def year_props_def Let_def
          flip: p_def B_def bc_def)
  next
    case False
    then have "M < B" by simp
    with False facts(4,5) first M' show ?thesis
      by (simp add: mint_year_def CalculateBudget_def ModifyProps_def year_props_def Let_def
          flip: p_def B_def bc_def)
  qed
qed

section \<open>The split\<close>

lemma unat_sub_small: "unat y \<le> unat x \<Longrightarrow> unat (x - y) = unat x - unat (y :: u64)"
  by (simp add: unat_sub_if')

lemma reward_split:
  assumes "unat b < 100000000"
  shows "unat (postReward b) + unat (replyReward b) + unat (voteReward b) + unat (dappReward b) +
    unat (bpReward b) = unat b"
proof -
  have rate: "unat (x * y div PERCENT) = unat x * unat y div 10000"
    if "unat x < 100000000" "unat y \<le> 10000" for x y :: u64
    using mult_le_mono [of "unat x" 100000000 "unat y" 10000] that
    by (simp add: unat_div unat_mult_small PERCENT_def)
  define n where "n = unat b"
  define c where "c = unat (creatorReward b)"
  have c: "c = 3 * n div 5"
    using rate [of b RewardRateCreator] assms
    by (simp add: c_def n_def creatorReward_def RewardRateCreator_def)
  have d: "unat (dappReward b) = n div 10"
    using rate [of b RewardRateDapp] assms by (simp add: n_def dappReward_def RewardRateDapp_def)
  have small: "unat (creatorReward b) < 100000000"
    using assms c by (simp add: c_def n_def)
  have p: "unat (postReward b) = 3 * c div 4"
    using rate [OF small, of RewardRateAuthor] by (simp add: postReward_def c_def RewardRateAuthor_def)
  have r: "unat (replyReward b) = 3 * c div 20"
    using rate [OF small, of RewardRateReply] by (simp add: replyReward_def c_def RewardRateReply_def)
  have le: "c + n div 10 \<le> n" "3 * c div 4 + 3 * c div 20 \<le> c"
    using div_times_less_eq_dividend [of "3 * n" 5] div_times_less_eq_dividend [of n 10]
      div_times_less_eq_dividend [of "3 * c" 4] div_times_less_eq_dividend [of "3 * c" 20]
    unfolding c [symmetric] by linarith+
  have "unat (b - creatorReward b) = n - c"
    using le(1) by (simp add: unat_sub_small n_def c_def)
  then have bp: "unat (bpReward b) = n - c - n div 10"
    using le(1) d by (simp add: bpReward_def unat_sub_small)
  have "unat (creatorReward b - postReward b) = c - 3 * c div 4"
    using le(2) p by (simp add: unat_sub_small c_def)
  then have v: "unat (voteReward b) = c - 3 * c div 4 - 3 * c div 20"
    using le(2) r by (simp add: voteReward_def unat_sub_small)
  show ?thesis
    using le unfolding p r v d bp n_def [symmetric] by linarith
qed

section \<open>Mint and the ledger\<close>

lemma reward_bp_ledger:
  assumes "reward_bp n r s = Inr s'"
  shows "db_props s' = db_props s \<and> db_contracts s' = db_contracts s \<and> held_cos s' = held_cos s \<and>
    held_vest s' = held_vest s + uint r \<and>
    isum (\<lambda>_ a. unat (acc_StakeVestForMe a)) (db_accounts s') =
      isum (\<lambda>_ a. unat (acc_StakeVestForMe a)) (db_accounts s)"
  using assms
  by (auto simp: reward_bp_def Let_def res_inv amount_uint ledger_defs tbl_simps
      dest!: updateBpVoteValue_frame)

lemma year_props_simps [simp]:
  "dp_TotalVest (year_props p) = dp_TotalVest p" "dp_TotalCos (year_props p) = dp_TotalCos p"
  "dp_StakeVest (year_props p) = dp_StakeVest p" "dp_TicketsIncome (year_props p) = dp_TicketsIncome p"
  "dp_TicketsBpBonus (year_props p) = dp_TicketsBpBonus p"
  "dp_PoolPostRewards (year_props p) = dp_PoolPostRewards p"
  "dp_PoolReplyRewards (year_props p) = dp_PoolReplyRewards p"
  "dp_PoolVoteRewards (year_props p) = dp_PoolVoteRewards p"
  "dp_PoolDappRewards (year_props p) = dp_PoolDappRewards p"
  "dp_CurrentBlockProducer (year_props p) = dp_CurrentBlockProducer p"
  by (simp_all add: year_props_def)

definition issue_of :: "db \<Rightarrow> nat" where
  "issue_of s = (if dp_BlockProducerBootCompleted (db_props s) then block_issue (db_props s) else 0)"

lemma unat_block_issue: "unat (of_nat (block_issue p) :: u64) = block_issue p"
  using block_issue_small [of p] by (simp add: unat_of_nat)

lemma Mint_ledger:
  assumes "Mint s = Inr s'" and "ledger_ok s"
  shows "ledger_ok s' \<and> vest_lost s' = vest_lost s \<and> totalSupply s' = totalSupply s + int (issue_of s)"
proof (cases "dp_BlockProducerBootCompleted (db_props s)")
  case True
  define b :: u64 where "b = of_nat (block_issue (db_props s))"
  have ub: "unat b = block_issue (db_props s)" by (simp add: b_def unat_block_issue)
  then have "unat b < 100000000" using block_issue_small [of "db_props s"] by simp
  from arg_cong [OF reward_split [OF this], of int] have split:
    "uint (postReward b) + uint (replyReward b) + uint (voteReward b) + uint (dappReward b) +
       uint (bpReward b) = uint b"
    by (simp only: uint_nat of_nat_add)
  from True assms(1) obtain s2 p1 p2 p3 p4 am tv where
    rw: "reward_bp (dp_CurrentBlockProducer (db_props s)) (bpReward b)
      (s\<lparr>db_props := year_props (db_props s)\<rparr>) = Inr s2" and
    s': "s' = s2\<lparr>db_props := (db_props s2)\<lparr>dp_PoolPostRewards := p1, dp_PoolReplyRewards := p2,
      dp_PoolVoteRewards := p3, dp_PoolDappRewards := p4, dp_AnnualMinted := am, dp_TotalVest := tv\<rparr>\<rparr>"
      "uint p1 = uint (dp_PoolPostRewards (db_props s2)) + uint (postReward b)"
      "uint p2 = uint (dp_PoolReplyRewards (db_props s2)) + uint (replyReward b)"
      "uint p3 = uint (dp_PoolVoteRewards (db_props s2)) + uint (voteReward b)"
      "uint p4 = uint (dp_PoolDappRewards (db_props s2)) + uint (dappReward b)"
      "uint tv = uint (dp_TotalVest (db_props s2)) + uint b"
    by (auto simp: Mint_def mint_year_closed res_inv amount_uint simp flip: b_def)
  have issue: "int (issue_of s) = uint b" using True ub by (simp add: issue_of_def uint_nat)
  show ?thesis
    using reward_bp_ledger [OF rw] s' assms(2) split
    by (auto simp: ledger_defs issue)
next
  case False
  with assms show ?thesis by (simp add: Mint_def issue_of_def)
qed

section \<open>The schedule\<close>

text \<open>
  Where the chain stands in the schedule: the supply is the initial one, the budgets of the years
  that are over and what the current year has minted.
\<close>

definition mint_schedule :: "db \<Rightarrow> bool" where
  "mint_schedule s \<longleftrightarrow>
     (let p = db_props s; y = unat (dp_IthYear p) in
      0 < y \<and>
      totalSupply s = uint COSInitSupply + int (issued_before y + (if y \<le> 12 then minted_this_year p else 0)) \<and>
      (y \<le> 12 \<longrightarrow> minted_this_year p < budget_of y))"

lemma mint_schedule_supply:
  assumes "mint_schedule s"
  shows "totalSupply s \<le> uint COSTotalSupply"
proof -
  define y where "y = unat (dp_IthYear (db_props s))"
  have "issued_before y + (if y \<le> 12 then minted_this_year (db_props s) else 0) \<le> issued_before (max 13 (Suc y))"
  proof (cases "y \<le> 12")
    case True
    then have "minted_this_year (db_props s) \<le> budget_of y"
      using assms by (simp add: mint_schedule_def Let_def y_def)
    with True issued_before_mono [of "Suc y" 13] show ?thesis by (simp add: issued_before_Suc)
  qed (simp add: issued_before_mono)
  also have "\<dots> = 3500000000000000" by (rule issued_before_end) simp
  finally show ?thesis
    using assms by (simp add: mint_schedule_def Let_def y_def uint_nat unat_supplies)
qed

lemma mint_schedule_cong:
  assumes "totalSupply s' = totalSupply s" and "dp_IthYear (db_props s') = dp_IthYear (db_props s)"
    and "dp_AnnualBudget (db_props s') = dp_AnnualBudget (db_props s)"
    and "dp_AnnualMinted (db_props s') = dp_AnnualMinted (db_props s)"
  shows "mint_schedule s' = mint_schedule s"
  using assms by (simp add: mint_schedule_def minted_this_year_def Let_def)

lemma reward_bp_rows: "reward_bp n r s = Inr s' \<Longrightarrow> op_rel s s'"
  by (auto simp: reward_bp_def Let_def rbind_Inr_iff dest!: op_rel_writes) (blast intro: op_rel_trans)

text \<open>The columns minting leaves alone.\<close>

definition mint_frame :: "db \<Rightarrow> db \<Rightarrow> bool" where
  "mint_frame s s' \<longleftrightarrow> rows_rel s s' \<and>
     dp_HeadBlockId (db_props s') = dp_HeadBlockId (db_props s) \<and>
     dp_HeadBlockNumber (db_props s') = dp_HeadBlockNumber (db_props s) \<and>
     dp_Time (db_props s') = dp_Time (db_props s) \<and>
     dp_BlockProducerBootCompleted (db_props s') = dp_BlockProducerBootCompleted (db_props s) \<and>
     dp_WeightedVpsPost (db_props s') = dp_WeightedVpsPost (db_props s) \<and>
     dp_WeightedVpsReply (db_props s') = dp_WeightedVpsReply (db_props s) \<and>
     dp_WeightedVpsVote (db_props s') = dp_WeightedVpsVote (db_props s) \<and>
     dp_WeightedVpsDapp (db_props s') = dp_WeightedVpsDapp (db_props s)"

lemma Mint_year:
  assumes "Mint s = Inr s'" and "dp_BlockProducerBootCompleted (db_props s)"
  shows "mint_frame s s' \<and>
    dp_IthYear (db_props s') = dp_IthYear (db_props s) + (if year_ends (db_props s) then 1 else 0) \<and>
    dp_AnnualBudget (db_props s') = BaseBudget (dp_IthYear (db_props s)) \<and>
    unat (dp_AnnualMinted (db_props s')) = minted_this_year (db_props s) + block_issue (db_props s)"
proof -
  define p where "p = db_props s"
  define b :: u64 where "b = of_nat (block_issue p)"
  have ub: "unat b = block_issue p" by (simp add: b_def unat_block_issue)
  from assms obtain s2 p1 p2 p3 p4 am tv where
    rw: "reward_bp (dp_CurrentBlockProducer p) (bpReward b) (s\<lparr>db_props := year_props p\<rparr>) = Inr s2" and
    s': "s' = s2\<lparr>db_props := (db_props s2)\<lparr>dp_PoolPostRewards := p1, dp_PoolReplyRewards := p2,
      dp_PoolVoteRewards := p3, dp_PoolDappRewards := p4, dp_AnnualMinted := am, dp_TotalVest := tv\<rparr>\<rparr>"
      "uint am = uint (dp_AnnualMinted (db_props s2)) + uint b"
    by (auto simp: Mint_def mint_year_closed res_inv amount_uint p_def [symmetric] simp flip: b_def)
  have props: "db_props s2 = year_props p" using reward_bp_ledger [OF rw] by simp
  have rows: "rows_rel s s2" using op_rel_rows [OF reward_bp_rows [OF rw]] by simp
  have "unat (of_nat (minted_this_year p) :: u64) = minted_this_year p"
    by (simp add: minted_this_year_def)
  moreover have "unat am = unat (dp_AnnualMinted (db_props s2)) + unat b"
    using s'(2) by (simp only: uint_nat flip: of_nat_add)
  ultimately show ?thesis
    using rows ub unfolding s'(1) p_def [symmetric]
    by (simp add: mint_frame_def props year_props_def p_def)
qed

lemma Mint_frame: "Mint s = Inr s' \<Longrightarrow> mint_frame s s'"
  using Mint_year by (cases "dp_BlockProducerBootCompleted (db_props s)")
    (auto simp: Mint_def mint_frame_def)

lemma Mint_schedule:
  assumes "Mint s = Inr s'" and "ledger_ok s" and sch: "mint_schedule s"
    and nowrap: "dp_IthYear (db_props s) \<noteq> - 1"
  shows "mint_schedule s'"
proof (cases "dp_BlockProducerBootCompleted (db_props s)")
  case True
  define p where "p = db_props s"
  define y where "y = unat (dp_IthYear p)"
  note year = Mint_year [OF assms(1) True, folded p_def]
  have grow: "totalSupply s' = totalSupply s + int (block_issue p)"
    using Mint_ledger [OF assms(1,2)] True by (simp add: issue_of_def p_def)
  have succ: "unat (dp_IthYear p + 1) = Suc y"
    using nowrap unatSuc [of "dp_IthYear p"]
    by (auto simp: y_def p_def add.commute add_eq_0_iff)
  have budget: "unat (dp_AnnualBudget (db_props s')) = budget_of y"
    using year by (simp add: unat_BaseBudget y_def)
  show ?thesis
  proof (cases "y \<le> 12")
    case False
    then have "block_issue p = 0" "year_ends p"
      by (auto simp: block_issue_def year_ends_def budget_of_def y_def)
    with False year succ grow sch show ?thesis
      by (simp add: mint_schedule_def Let_def issued_before_end flip: p_def y_def)
  next
    case le: True
    with sch have m: "minted_this_year p < budget_of y" and y0: "0 < y"
      by (simp_all add: mint_schedule_def Let_def flip: p_def y_def)
    show ?thesis
    proof (cases "year_ends p")
      case True
      have "budget_of y \<noteq> budget_of (Suc y)" "y < 12 \<longrightarrow> 0 < budget_of (Suc y)"
        using le y0 by (auto simp: budget_of_def)
      moreover have "minted_this_year p + block_issue p = budget_of y"
        using True m by (auto simp: block_issue_def year_ends_def Let_def simp flip: y_def)
      ultimately show ?thesis
        using True le year succ grow sch budget
        by (auto simp: mint_schedule_def Let_def issued_before_Suc minted_this_year_def simp flip: p_def y_def)
    next
      case False
      then have "minted_this_year p + block_issue p < budget_of y"
        by (auto simp: block_issue_def year_ends_def Let_def simp flip: y_def)
      with False le year grow sch budget show ?thesis
        by (auto simp: mint_schedule_def Let_def minted_this_year_def simp flip: p_def y_def)
    qed
  qed
next
  case False
  with assms show ?thesis by (simp add: Mint_def)
qed

end
