(* ===== verification/Cashout.thy ===== *)
theory Cashout
  imports MintSchedule
begin

text \<open>
  The rest of the economist. The four cash-outs pay floor shares of a reward pool by weight; since
  weights are never negative the shares never exceed the pool, so the pools are never overdrawn
  and what leaves a pool is exactly what the accounts receive. Free tickets, power-downs and the
  delivery of delegated vests move value without changing its total.
\<close>

section \<open>Shares of a pool\<close>

definition globals_ok :: "dynamic_properties \<Rightarrow> bool" where
  "globals_ok p \<longleftrightarrow> natural (dp_WeightedVpsPost p) \<and> natural (dp_WeightedVpsReply p) \<and>
     natural (dp_WeightedVpsVote p) \<and> natural (dp_WeightedVpsDapp p)"

lemma StringToBigInt_natural:
  "natural str \<Longrightarrow> StringToBigInt str = Inr w \<Longrightarrow> 0 \<le> w"
  by (simp add: natural_def StringToBigInt_def split: option.splits)

lemma Proportion_nonneg: "0 \<le> n \<Longrightarrow> 0 \<le> d \<Longrightarrow> 0 \<le> t \<Longrightarrow> 0 \<le> ProportionAlgorithm n d t"
  by (simp add: ProportionAlgorithm_def big_Div_def pos_imp_zdiv_nonneg_iff)

lemma Proportion_le: "0 \<le> n \<Longrightarrow> 0 < d \<Longrightarrow> ProportionAlgorithm n d t * d \<le> n * t"
  by (simp add: ProportionAlgorithm_def big_Div_def minus_mod_eq_div_mult [symmetric])

definition shares :: "int \<Rightarrow> int \<Rightarrow> item list \<Rightarrow> int" where
  "shares tot pool items = sum_list (map (\<lambda>it. ProportionAlgorithm (it_wvp it) tot pool) items)"

lemma shares_scaled:
  assumes "list_all (\<lambda>it. 0 \<le> it_wvp it) items" and "0 < tot"
  shows "shares tot pool items * tot \<le> sum_list (map it_wvp items) * pool"
  using assms
  by (induction items)
     (auto simp: shares_def distrib_right intro!: add_mono Proportion_le)

lemma shares_le_pool:
  assumes "list_all (\<lambda>it. 0 \<le> it_wvp it) items" and "sum_list (map it_wvp items) \<le> tot"
    and "0 \<le> tot" and "0 \<le> pool"
  shows "shares tot pool items \<le> pool"
proof (cases "tot = 0")
  case True
  then have "shares tot pool items = 0"
    by (simp add: shares_def ProportionAlgorithm_def sum_list_0 comp_def)
  with assms(4) show ?thesis by simp
next
  case False
  with assms(3) have pos: "0 < tot" by simp
  have "shares tot pool items * tot \<le> tot * pool"
    using shares_scaled [OF assms(1) pos, of pool] mult_right_mono [OF assms(2,4)] by linarith
  then have "shares tot pool items * tot \<le> pool * tot" by (simp add: mult.commute)
  with pos show ?thesis by (simp add: mult_le_cancel_right)
qed

lemma shares_nonneg:
  "list_all (\<lambda>it. 0 \<le> it_wvp it) items \<Longrightarrow> 0 \<le> tot \<Longrightarrow> 0 \<le> pool \<Longrightarrow> 0 \<le> shares tot pool items"
  by (induction items) (auto simp: shares_def Proportion_nonneg)

lemma SumItemsWvp_sum: "SumItemsWvp items = sum_list (map it_wvp items)"
proof -
  have "fold (\<lambda>it sum. sum + it_wvp it) items n = n + sum_list (map it_wvp items)" for n
    by (induction items arbitrary: n) simp_all
  then show ?thesis by (simp add: SumItemsWvp_def)
qed

section \<open>A step of the economist\<close>

text \<open>
  What each step after minting promises: the ledger and the weights stay in order, the books do
  not change, and neither does what the mint schedule and the block bookkeeping read.
\<close>

definition eco_kept :: "db \<Rightarrow> db \<Rightarrow> bool" where
  "eco_kept s s' \<longleftrightarrow> rows_rel s s' \<and>
     (ledger_ok s \<and> globals_ok (db_props s) \<and> weights_ok s \<longrightarrow>
        ledger_ok s' \<and> globals_ok (db_props s') \<and> books s' = books s) \<and>
     dp_HeadBlockId (db_props s') = dp_HeadBlockId (db_props s) \<and>
     dp_HeadBlockNumber (db_props s') = dp_HeadBlockNumber (db_props s) \<and>
     dp_Time (db_props s') = dp_Time (db_props s) \<and>
     dp_IthYear (db_props s') = dp_IthYear (db_props s) \<and>
     dp_AnnualBudget (db_props s') = dp_AnnualBudget (db_props s) \<and>
     dp_AnnualMinted (db_props s') = dp_AnnualMinted (db_props s) \<and>
     dp_BlockProducerBootCompleted (db_props s') = dp_BlockProducerBootCompleted (db_props s)"

text \<open>The columns behind it, and the vests in the pools.\<close>

definition eco_cols :: "dynamic_properties \<Rightarrow> _" where
  "eco_cols p = (dp_TotalCos p, dp_TotalVest p, dp_StakeVest p, dp_TicketsIncome p, dp_HeadBlockId p,
     dp_HeadBlockNumber p, dp_Time p, dp_IthYear p, dp_AnnualBudget p, dp_AnnualMinted p,
     dp_BlockProducerBootCompleted p)"

definition pools :: "dynamic_properties \<Rightarrow> int" where
  "pools p = uint (dp_PoolPostRewards p) + uint (dp_PoolReplyRewards p) + uint (dp_PoolVoteRewards p) +
     uint (dp_PoolDappRewards p) + uint (dp_TicketsBpBonus p)"

lemma eco_kept_refl [simp]: "eco_kept s s"
  by (simp add: eco_kept_def)

lemma eco_kept_trans: "eco_kept s s1 \<Longrightarrow> eco_kept s1 s2 \<Longrightarrow> eco_kept s s2"
  by (auto simp: eco_kept_def rows_rel_def keeps_rows_def)

lemma eco_keptI:
  assumes "op_rel s s'" and "ledger_ok s \<Longrightarrow> ledger_ok s' \<and> books s' = books s"
  shows "eco_kept s s'"
proof -
  have p: "f (db_props s') = f (db_props s)" if "\<And>p. f (fixed_props p) = f p" for f :: "dynamic_properties \<Rightarrow> 'a"
    using assms(1) that unfolding op_rel_def by metis
  note q = p [of dp_HeadBlockId] p [of dp_HeadBlockNumber] p [of dp_Time] p [of dp_IthYear]
    p [of dp_AnnualBudget] p [of dp_AnnualMinted] p [of dp_BlockProducerBootCompleted]
    p [of dp_WeightedVpsPost] p [of dp_WeightedVpsReply] p [of dp_WeightedVpsVote] p [of dp_WeightedVpsDapp]
  from assms q show ?thesis by (simp add: eco_kept_def globals_ok_def op_rel_rows)
qed

lemma eco_kept_for_each:
  assumes "for_each f xs s = Inr s'" and "\<And>x u u'. f x u = Inr u' \<Longrightarrow> eco_kept u u'"
  shows "eco_kept s s'"
  by (rule for_each_invariant [OF assms(1), where P = "eco_kept s"])
     (use assms(2) in \<open>auto intro: eco_kept_trans\<close>)

section \<open>Paying the items\<close>

text \<open>What holds the money besides the pools: accounts and contracts, with the properties apart.\<close>

definition purse :: "db \<Rightarrow> int \<times> int \<times> int" where
  "purse s = (held_cos s,
     isum (\<lambda>_ a. unat (acc_Vest a) + unat (acc_StakeVestForMe a) + unat (acc_DeliveringVest a)) (db_accounts s),
     isum (\<lambda>_ a. unat (acc_StakeVestForMe a)) (db_accounts s))"

definition paid_out :: "int \<Rightarrow> db \<Rightarrow> db \<Rightarrow> bool" where
  "paid_out n s s' \<longleftrightarrow> op_rel s s' \<and> db_props s' = db_props s \<and>
     purse s' = (fst (purse s), fst (snd (purse s)) + n, snd (snd (purse s)))"

lemma paid_out_refl [simp]: "paid_out 0 s s"
  by (simp add: paid_out_def)

lemma paid_out_trans: "paid_out n s s1 \<Longrightarrow> paid_out m s1 s2 \<Longrightarrow> paid_out (n + m) s s2"
  by (auto simp: paid_out_def intro: op_rel_trans)

lemma reward_paid_out:
  assumes "processRewardForAccount name reward s = Inr (ok, s')"
    and "0 \<le> reward" and "reward < 2 ^ 64"
  shows "paid_out (if ok then reward else 0) s s'"
proof -
  have w: "uint (big_Uint64 reward) = reward"
    using assms(2,3) by (simp add: uint_big_Uint64)
  have rel: "op_rel s s'"
    using assms(1)
    by (auto simp: processRewardForAccount_def rbind_Inr_iff dest!: op_rel_writes
        intro: op_rel_trans split: if_splits option.splits)
  show ?thesis
    using assms(1) rel w
    by (auto simp: processRewardForAccount_def res_inv amount_uint paid_out_def purse_def
        held_cos_def tbl_simps dest!: updateBpVoteValue_frame split: if_splits option.splits)
qed

text \<open>
  The contract of the function that closes an item: it writes to the post only.
\<close>

locale finalizer =
  fixes finalize :: "u64 \<Rightarrow> int \<Rightarrow> db \<Rightarrow> db res"
  assumes finalize_frame: "finalize pid reward s = Inr s' \<Longrightarrow> paid_out 0 s s'"
begin

lemma pay_items_paid:
  assumes "pay_items finalize tot pool items claimed s = Inr (claimed', s')"
    and "list_all (\<lambda>it. 0 \<le> it_wvp it) items" and "0 \<le> tot"
    and "shares tot (uint pool) items < 2 ^ 64"
  shows "claimed \<le> claimed' \<and> claimed' - claimed \<le> shares tot (uint pool) items \<and>
    paid_out (claimed' - claimed) s s'"
  using assms
proof (induction items arbitrary: claimed s)
  case Nil
  then show ?case by (simp add: shares_def)
next
  case (Cons it items)
  define r where "r = ProportionAlgorithm (it_wvp it) tot (uint pool)"
  have split: "shares tot (uint pool) (it # items) = r + shares tot (uint pool) items"
    by (simp add: shares_def r_def)
  have r: "0 \<le> r" using Cons.prems by (simp add: r_def Proportion_nonneg)
  have rest: "0 \<le> shares tot (uint pool) items" using Cons.prems by (simp add: shares_nonneg)
  from Cons.prems(1) obtain ok s1 s2 where
    pay: "processRewardForAccount (it_beneficiary it) r s = Inr (ok, s1)" and
    fin: "finalize (it_postId it) (if ok then r else 0) s1 = Inr s2" and
    more: "pay_items finalize tot pool items (claimed + (if ok then r else 0)) s2 = Inr (claimed', s')"
    by (auto simp: Let_def rbind_Inr_iff simp flip: r_def split: prod.splits)
  have one: "paid_out (if ok then r else 0) s s1"
    by (rule reward_paid_out [OF pay]) (use r rest split Cons.prems(4) in auto)
  have "paid_out ((if ok then r else 0) + 0) s s2"
    by (rule paid_out_trans [OF one finalize_frame [OF fin]])
  moreover note Cons.IH [OF more]
  ultimately show ?case
    using Cons.prems split r rest
    by (cases ok) (auto dest: paid_out_trans)
qed

lemma cashout_pays:
  assumes run: "pay_items finalize (global + SumItemsWvp items) pool items 0 s = Inr (claimed, s')"
    and items: "list_all (\<lambda>it. 0 \<le> it_wvp it) items" and global: "0 \<le> global"
  shows "0 \<le> claimed" "claimed \<le> uint pool" "uint (big_Uint64 claimed) = claimed"
    "paid_out claimed s s'"
proof -
  define tot where "tot = global + SumItemsWvp items"
  have "0 \<le> sum_list (map it_wvp items)"
    using items by (intro sum_list_nonneg) (auto simp: list_all_iff)
  then have tot: "0 \<le> tot" "sum_list (map it_wvp items) \<le> tot"
    using global by (simp_all add: tot_def SumItemsWvp_sum)
  have le: "shares tot (uint pool) items \<le> uint pool"
    by (rule shares_le_pool [OF items tot(2,1)]) simp
  have lt: "uint pool < 2 ^ 64" using uint_bounded [of pool] by simp
  from le lt have "shares tot (uint pool) items < 2 ^ 64" by linarith
  from pay_items_paid [OF run [folded tot_def] items tot(1) this] le
  show c: "0 \<le> claimed" "claimed \<le> uint pool" "paid_out claimed s s'" by auto
  with lt show "uint (big_Uint64 claimed) = claimed"
    by (simp add: uint_big_Uint64)
qed

lemma cashout_kept:
  assumes "pay_items finalize (global + SumItemsWvp items) pool items 0 (s\<lparr>db_props := p0\<rparr>) = Inr (claimed, s2)"
    and "list_all (\<lambda>it. 0 \<le> it_wvp it) items" and "0 \<le> global"
    and "eco_cols p0 = eco_cols (db_props s)" and "pools p0 = pools (db_props s)"
    and "db_props s2 = p0 \<Longrightarrow> eco_cols p1 = eco_cols p0 \<and>
           pools p1 + uint (big_Uint64 claimed) = pools p0 \<and> globals_ok p1"
  shows "eco_kept s (s2\<lparr>db_props := p1\<rparr>)"
  using cashout_pays [OF assms(1-3)] assms(4-6)
  by (auto simp: eco_kept_def paid_out_def op_rel_def purse_def ledger_defs eco_cols_def pools_def)

end

lemma post_write_paid:
  assumes "post_Modify k (\<lambda>t. Inr (f t)) s = Inr s'" and "\<And>t. po_WeightedVp (f t) = po_WeightedVp t"
  shows "paid_out 0 s s'"
  using op_rel_posts(3) [OF assms] assms(1)
  by (auto simp: paid_out_def purse_def held_cos_def res_inv)

interpretation post_fin: finalizer finalizePostCashout
  by unfold_locales (auto simp: finalizePostCashout_def dest: post_write_paid)

interpretation dapp_fin: finalizer finalizePostDappCashout
  by unfold_locales (auto simp: finalizePostDappCashout_def rbind_Inr_iff dest: post_write_paid)

interpretation vote_fin: finalizer "\<lambda>_ _. Inr"
  by unfold_locales simp

section \<open>The cash-outs\<close>

lemma SumItemsWvp_nonneg: "list_all (\<lambda>it. 0 \<le> it_wvp it) items \<Longrightarrow> 0 \<le> SumItemsWvp items"
  by (auto simp: SumItemsWvp_sum list_all_iff intro!: sum_list_nonneg)

lemmas cashout_defs = eco_cols_def pools_def globals_ok_def

lemma cashoutPosts_kept:
  assumes "cashoutPosts items s = Inr s'" and "list_all (\<lambda>it. 0 \<le> it_wvp it) items"
    and "globals_ok (db_props s)"
  shows "eco_kept s s'"
  using assms SumItemsWvp_nonneg [OF assms(2)]
  by (auto simp: cashoutPosts_def Let_def res_inv amount_uint cashout_defs
      dest: StringToBigInt_natural intro!: post_fin.cashout_kept split: if_splits)

lemma cashoutReplies_kept:
  assumes "cashoutReplies items s = Inr s'" and "list_all (\<lambda>it. 0 \<le> it_wvp it) items"
    and "globals_ok (db_props s)"
  shows "eco_kept s s'"
  using assms SumItemsWvp_nonneg [OF assms(2)]
  by (auto simp: cashoutReplies_def Let_def res_inv amount_uint cashout_defs
      dest: StringToBigInt_natural intro!: post_fin.cashout_kept split: if_splits)

lemma cashoutDapps_kept:
  assumes "cashoutDapps items s = Inr s'" and "list_all (\<lambda>it. 0 \<le> it_wvp it) items"
    and "globals_ok (db_props s)"
  shows "eco_kept s s'"
  using assms SumItemsWvp_nonneg [OF assms(2)]
  by (auto simp: cashoutDapps_def Let_def res_inv amount_uint cashout_defs
      dest: StringToBigInt_natural intro!: dapp_fin.cashout_kept split: if_splits)

lemma cashoutVotes_kept:
  assumes "cashoutVotes items s = Inr s'" and "list_all (\<lambda>it. 0 \<le> it_wvp it) items"
    and "globals_ok (db_props s)"
  shows "eco_kept s s'"
  using assms SumItemsWvp_nonneg [OF assms(2)]
  by (auto simp: cashoutVotes_def Let_def res_inv amount_uint cashout_defs
      dest: StringToBigInt_natural intro!: vote_fin.cashout_kept split: if_splits)

section \<open>Collecting the items\<close>

lemma VpDecayTime_value: "VpDecayTime = 907200"
  by (simp add: VpDecayTime_def PostCashOutDelayBlock_def)

lemma Decay_bounds: "0 \<le> x \<Longrightarrow> 0 \<le> Decay x \<and> Decay x \<le> x"
  using zdiv_mono2 [of x 1 907200]
  by (simp add: Decay_def ProportionAlgorithm_def big_Div_def VpDecayTime_value BlockInterval_def
      pos_imp_zdiv_nonneg_iff)

lemma decayGlobalWvp_kept:
  assumes "decayGlobalWvp s = Inr s'"
  shows "eco_kept s s' \<and> db_posts s' = db_posts s \<and> db_votes s' = db_votes s"
  using assms
  by (auto simp: decayGlobalWvp_def res_inv eco_kept_def ledger_defs globals_ok_def Decay_bounds
      dest: StringToBigInt_natural)

lemma judged_wvp_nonneg: "0 \<le> w \<Longrightarrow> 0 \<le> judged_wvp n c w s"
  by (simp add: judged_wvp_def Let_def split: option.splits)

lemma post_item_nonneg:
  "natural (po_WeightedVp post) \<Longrightarrow> post_item tw post s = Inr it \<Longrightarrow> 0 \<le> it_wvp it"
  by (auto simp: post_item_def Let_def rbind_Inr_iff dest!: StringToBigInt_natural
      intro!: judged_wvp_nonneg add_nonneg_nonneg mult_nonneg_nonneg)

lemma dapp_items_nonneg: "0 \<le> w \<Longrightarrow> list_all (\<lambda>it. 0 \<le> it_wvp it) (dapp_items post w)"
  by (auto simp: dapp_items_def Let_def list_all_iff Proportion_nonneg)

lemma collect_posts_nonneg:
  assumes "weights_ok s" and "collect_posts tw s pids acc = Inr acc'"
    and "list_all (\<lambda>it. 0 \<le> it_wvp it) (co_posts acc @ co_replies acc @ co_dapps acc)"
  shows "list_all (\<lambda>it. 0 \<le> it_wvp it) (co_posts acc' @ co_replies acc' @ co_dapps acc')"
  using assms(2,3)
proof (induction pids arbitrary: acc)
  case (Cons pid pids)
  show ?case
  proof (cases "tbl_get (db_posts s) pid")
    case None
    with Cons show ?thesis by simp
  next
    case (Some post)
    with Cons.prems obtain it where it: "post_item tw post s = Inr it" by (auto simp: rbind_Inr_iff)
    have "0 \<le> it_wvp it" by (rule post_item_nonneg [OF weights_ok_post [OF assms(1) Some] it])
    define acc1 where "acc1 = (if po_ParentId post = PostInvalidId
      then acc\<lparr>co_posts := co_posts acc @ [it]\<rparr> else acc\<lparr>co_replies := co_replies acc @ [it]\<rparr>)"
    show ?thesis
      by (rule Cons.IH [of "acc1\<lparr>co_dapps := co_dapps acc1 @ dapp_items post (it_wvp it)\<rparr>"])
         (use Some it Cons.prems \<open>0 \<le> it_wvp it\<close> in \<open>auto simp: dapp_items_nonneg acc1_def Let_def\<close>)
  qed
qed simp

lemma collect_votes_nonneg:
  assumes "weights_ok s" and "collect_votes s ids = Inr items"
  shows "list_all (\<lambda>it. 0 \<le> it_wvp it) items"
  using assms(2)
proof (induction ids arbitrary: items)
  case (Cons v ids)
  obtain voter pid where v: "v = (voter, pid)" by (cases v)
  from Cons.prems obtain vote w where "tbl_get (db_votes s) (voter, pid) = Some vote"
    and w: "StringToBigInt (vo_WeightedVp vote) = Inr w"
    by (auto simp: v res_inv)
  then have "natural (vo_WeightedVp vote)"
    using assms(1) tbl_all_get [of "\<lambda>v. natural (vo_WeightedVp v)" "db_votes s"]
    by (simp add: weights_ok_def)
  from StringToBigInt_natural [OF this w] \<open>tbl_get (db_votes s) (voter, pid) = Some vote\<close> w Cons
  show ?case by (auto simp: v rbind_Inr_iff judged_wvp_nonneg)
qed simp

section \<open>The steps\<close>

lemma weights_rows: "rows_rel s s' \<Longrightarrow> weights_ok s \<Longrightarrow> weights_ok s'"
  by (simp add: rows_rel_def)

text \<open>A step keeps what the next one needs.\<close>

definition eco_pre :: "db \<Rightarrow> bool" where
  "eco_pre s \<longleftrightarrow> ledger_ok s \<and> globals_ok (db_props s) \<and> weights_ok s"

lemma eco_pre_kept: "eco_pre s \<Longrightarrow> eco_kept s s' \<Longrightarrow> eco_pre s'"
  by (auto simp: eco_pre_def eco_kept_def rows_rel_def)

lemma Do_kept:
  assumes run: "Do s = Inr s'" and pre: "eco_pre s"
  shows "eco_kept s s'"
proof (cases "dp_BlockProducerBootCompleted (db_props s)")
  case True
  with run obtain s1 pids items s2 s3 s4 where
    d: "decayGlobalWvp s = Inr s1" and
    c: "collect_posts (dp_PerTicketWeight (db_props s)) s1 pids
          \<lparr>co_posts = [], co_replies = [], co_dapps = []\<rparr> = Inr items" and
    p: "cashoutPosts (co_posts items) s1 = Inr s2" and
    r: "cashoutReplies (co_replies items) s2 = Inr s3" and
    a: "cashoutDapps (co_dapps items) s3 = Inr s4" and
    v: "s' = s4 \<or> (\<exists>ids vs. collect_votes s4 ids = Inr vs \<and> cashoutVotes vs s4 = Inr s')"
    by (auto simp: Do_def Let_def rbind_Inr_iff split: option.splits) blast+
  have k1: "eco_kept s s1" using decayGlobalWvp_kept [OF d] by simp
  note pre1 = eco_pre_kept [OF pre k1]
  have items: "list_all (\<lambda>it. 0 \<le> it_wvp it) (co_posts items @ co_replies items @ co_dapps items)"
    by (rule collect_posts_nonneg [OF _ c]) (use pre1 in \<open>simp_all add: eco_pre_def\<close>)
  have k2: "eco_kept s1 s2"
    by (rule cashoutPosts_kept [OF p]) (use items pre1 in \<open>simp_all add: eco_pre_def\<close>)
  note pre2 = eco_pre_kept [OF pre1 k2]
  have k3: "eco_kept s2 s3"
    by (rule cashoutReplies_kept [OF r]) (use items pre2 in \<open>simp_all add: eco_pre_def\<close>)
  note pre3 = eco_pre_kept [OF pre2 k3]
  have k4: "eco_kept s3 s4"
    by (rule cashoutDapps_kept [OF a]) (use items pre3 in \<open>simp_all add: eco_pre_def\<close>)
  note pre4 = eco_pre_kept [OF pre3 k4]
  have "eco_kept s4 s'"
    using v pre4 by (auto simp: eco_pre_def intro: cashoutVotes_kept collect_votes_nonneg)
  with k1 k2 k3 k4 show ?thesis by (blast intro: eco_kept_trans)
next
  case False
  with run show ?thesis by (simp add: Do_def)
qed

lemma give_ticket_kept: "give_ticket cur gp n s = Inr s' \<Longrightarrow> eco_kept s s'"
  by (rule eco_keptI)
     (auto simp: give_ticket_def Let_def res_inv op_rel_defs weights_ok_def tables_ok_def tbl_ok_put
       ledger_defs split: if_splits)

lemma Distribute_kept:
  assumes "Distribute s = Inr s'"
  shows "eco_kept s s'"
proof -
  from assms obtain gp cur xs s1 where "s' = s \<or> (for_each (give_ticket cur gp) xs s = Inr s1 \<and>
      s' = s1\<lparr>db_props := (db_props s1)\<lparr>dp_CurrentEpochStartBlock := cur\<rparr>\<rparr>)"
    by (auto simp: Distribute_def Let_def res_inv split: if_splits)
  moreover have "eco_kept s1 (s1\<lparr>db_props := (db_props s1)\<lparr>dp_CurrentEpochStartBlock := cur\<rparr>\<rparr>)"
    by (simp add: eco_kept_def ledger_defs globals_ok_def)
  moreover have "eco_kept s s1" if "for_each (give_ticket cur gp) xs s = Inr s1"
    using that by (rule eco_kept_for_each) (rule give_ticket_kept)
  ultimately show ?thesis by (auto intro: eco_kept_trans)
qed

lemma powerdown_account_framed:
  "powerdown_account cur fee n s = Inr s' \<Longrightarrow> op_rel s s'"
  by (auto simp: powerdown_account_def rbind_Inr_iff fixed_props_def
      dest!: op_rel_writes op_rel_props split: if_splits) (blast intro: op_rel_trans)+

lemma powerdown_marks_ledger:
  "conserves (account_Modify n (\<lambda>t. Inr (t\<lparr>acc_EachPowerdownRate := 0, acc_StartPowerdownBlockNum := 0,
     acc_NextPowerdownBlockNum := b\<rparr>)))"
  "conserves (account_Modify n (\<lambda>t. Inr (t\<lparr>acc_NextPowerdownBlockNum := b\<rparr>)))"
  by (auto simp: conserves_def res_inv ledger_defs tbl_simps)

lemma powerdown_account_ledger: "conserves (powerdown_account cur fee n)"
  unfolding conserves_def
proof (intro allI impI)
  fix s s' assume run: "powerdown_account cur fee n s = Inr s'" and ok: "ledger_ok s"
  from run obtain a q v c h s1 s2 s3 where
    a: "tbl_get (db_accounts s) n = Some a"
      "uint v + uint q = uint (acc_Vest a)" "uint c = uint (acc_Balance a) + uint q"
      "s1 = s\<lparr>db_accounts := tbl_put n (a\<lparr>acc_Vest := v, acc_Balance := c, acc_HasPowerdown := h\<rparr>) (db_accounts s)\<rparr>"
    and u: "updateBpVoteValue n (acc_Vest a) v s1 = Inr s2" and
    p: "ModifyProps (\<lambda>props. rbind (coin_Add (dp_TotalCos props) q) (\<lambda>c.
          rbind (vest_Sub (dp_TotalVest props) q) (\<lambda>v. Inr (props\<lparr>dp_TotalCos := c, dp_TotalVest := v\<rparr>)))) s2 = Inr s3"
    and last: "(if h \<ge> acc_ToPowerdown a \<or> v \<le> fee
      then account_Modify n (\<lambda>t. Inr (t\<lparr>acc_EachPowerdownRate := 0, acc_StartPowerdownBlockNum := 0,
        acc_NextPowerdownBlockNum := MaxUint64\<rparr>)) s3
      else account_Modify n (\<lambda>t. Inr (t\<lparr>acc_NextPowerdownBlockNum := cur + PowerDownBlockInterval\<rparr>)) s3) = Inr s'"
    unfolding powerdown_account_def rbind_Inr_iff account_Get_Inr account_Modify_Inr amount_uint
    by auto
  have "ledger_ok s3 \<and> books s3 = books s"
    using a p ok updateBpVoteValue_frame [OF u]
    by (auto simp: res_inv amount_uint ledger_defs tbl_simps)
  with last show "ledger_ok s' \<and> books s' = books s"
    by (auto dest!: powerdown_marks_ledger [unfolded conserves_def, rule_format] split: if_splits)
qed

lemma powerdown_account_kept: "powerdown_account cur fee n s = Inr s' \<Longrightarrow> eco_kept s s'"
  using powerdown_account_ledger [of cur fee n]
  by (auto simp: conserves_def intro!: eco_keptI dest: powerdown_account_framed)

lemma PowerDown_kept: "PowerDown s = Inr s' \<Longrightarrow> eco_kept s s'"
  by (auto simp: PowerDown_def Let_def intro: eco_kept_for_each powerdown_account_kept split: if_splits)

lemma deliver_order_kept:
  assumes "deliver_order oid s = Inr s'"
  shows "eco_kept s s'"
proof (rule eco_keptI)
  have del: "op_rel u u'" if "delegation_Remove oid u = Inr u'" for u u'
    using that by (auto simp: res_inv op_rel_defs weights_ok_def tables_ok_def tbl_ok_del)
  show "op_rel s s'"
    using assms
    by (auto simp: deliver_order_def Let_def rbind_Inr_iff dest!: op_rel_writes del)
       (blast intro: op_rel_trans)+
  show "ledger_ok s \<Longrightarrow> ledger_ok s' \<and> books s' = books s"
    using assms
    by (auto simp: deliver_order_def Let_def res_inv amount_uint ledger_defs tbl_simps
        dest!: updateBpVoteValue_frame)
qed

lemma DeliverDelegatedVests_kept: "DeliverDelegatedVests s = Inr s' \<Longrightarrow> eco_kept s s'"
  by (auto simp: DeliverDelegatedVests_def Let_def intro: eco_kept_for_each deliver_order_kept
      split: if_splits)

end
