(* ===== verification/BlockLedger.thy ===== *)
theory BlockLedger
  imports Cashout
begin

text \<open>
  The invariant of the chain. Every step of the application of a block keeps the ledger, the vote
  weights, the tables and the place in the mint schedule; the sharing of the ticket bonus is the
  one step that may leave vests unclaimed, when a panic inside it is recovered. The invariant
  holds at genesis, so it holds in every state a chain of blocks reaches, and the supply never
  exceeds the total supply.
\<close>

section \<open>Sharing the bonus\<close>

lemma share_one_paid:
  assumes "share_one (name, amount) s = (s', ok)"
  shows "(ok \<longrightarrow> paid_out (uint amount) s s') \<and> (paid_out 0 s s' \<or> paid_out (uint amount) s s')"
proof -
  have credit: "paid_out (uint amount) s s1"
    if "tbl_get (db_accounts s) name = Some bp" "vest_Add (acc_Vest bp) amount = Inr v"
      "account_Modify name (\<lambda>t. Inr (t\<lparr>acc_Vest := v\<rparr>)) s = Inr s1" for bp v s1
    using that op_rel_accounts(1) [OF that(3)]
    by (auto simp: paid_out_def purse_def held_cos_def res_inv amount_uint tbl_simps)
  have vote: "paid_out 0 s1 s2" if "updateBpVoteValue name a b s1 = Inr s2" for a b s1 s2
    using op_rel_producers(3) [OF that] updateBpVoteValue_frame [OF that]
    by (auto simp: paid_out_def purse_def held_cos_def)
  have full: "paid_out (uint amount) s s2"
    if "tbl_get (db_accounts s) name = Some bp" "vest_Add (acc_Vest bp) amount = Inr v"
      "account_Modify name (\<lambda>t. Inr (t\<lparr>acc_Vest := v\<rparr>)) s = Inr s1"
      "updateBpVoteValue name (acc_Vest bp) v s1 = Inr s2" for bp v s1 s2
    using paid_out_trans [OF credit [OF that(1-3)] vote [OF that(4)]] by simp
  show ?thesis
    using assms credit full
    by (auto simp: share_one_def account_Get_Inr rbind_Inr_iff split: if_splits sum.splits)
qed

lemma share_all_paid:
  "\<exists>n. 0 \<le> n \<and> n \<le> sum_list (map (\<lambda>x. uint (snd x)) xs) \<and> paid_out n s (share_all xs s)"
proof (induction xs arbitrary: s)
  case Nil
  show ?case by (auto intro: exI [of _ 0])
next
  case (Cons x xs)
  obtain name amount where x: "x = (name, amount)" by (cases x)
  obtain s' ok where one: "share_one x s = (s', ok)" by (cases "share_one x s")
  note paid = share_one_paid [OF one [unfolded x]]
  have rest: "0 \<le> sum_list (map (\<lambda>x. uint (snd x)) xs)" by (rule sum_list_nonneg) auto
  show ?case
  proof (cases ok)
    case True
    from Cons.IH [of s'] obtain n where "0 \<le> n" "n \<le> sum_list (map (\<lambda>x. uint (snd x)) xs)"
      "paid_out n s' (share_all xs s')" by blast
    with True one paid show ?thesis
      by (auto simp: x intro!: exI [of _ "uint amount + n"] intro: paid_out_trans)
  next
    case False
    with one paid rest show ?thesis
      by (auto simp: x intro: exI [of _ 0] exI [of _ "uint amount"])
  qed
qed

lemma bonus_shares_sum:
  assumes "bpNames \<noteq> []" and "length bpNames < 2 ^ 64"
  shows "sum_list (map (\<lambda>x. unat (snd x)) (bonus_shares bonus bpNames)) = unat bonus"
proof -
  define n where "n = length bpNames - 1"
  define share where "share = bonus div of_nat (length bpNames)"
  define first where "first = bonus - share * of_nat n"
  have len: "length bpNames = Suc n" using assms(1) by (simp add: n_def)
  have un: "unat (of_nat (length bpNames) :: u64) = Suc n"
    unfolding len [symmetric] using assms(2) by (simp add: unat_of_nat)
  have un': "unat (of_nat n :: u64) = n"
    using assms(2) len by (simp add: unat_of_nat)
  have sh: "unat share = unat bonus div Suc n" by (simp add: share_def unat_div un)
  have le: "unat share * n \<le> unat bonus"
    unfolding sh by (metis div_times_less_eq_dividend le_trans lessI less_imp_le mult_le_mono2)
  have mul: "unat (share * of_nat n) = unat share * n"
  proof -
    have "unat bonus < 2 ^ 64" by (rule order_less_le_trans [OF unsigned_less]) simp
    with le show ?thesis by (subst unat_mult_small) (auto simp: un')
  qed
  have fst: "unat first = unat bonus - unat share * n"
    using le by (simp add: first_def unat_sub_small mul)
  have "bonus_shares bonus bpNames = (hd bpNames, first) # map (\<lambda>m. (m, share)) (tl bpNames)"
    using len
    by (cases bpNames)
       (auto simp: bonus_shares_def Let_def share_def first_def n_def upt_conv_Cons
         map_zip_map zip_Cons intro!: nth_equalityI simp del: upt_Suc)
  then have "sum_list (map (\<lambda>x. unat (snd x)) (bonus_shares bonus bpNames)) =
      unat first + length (tl bpNames) * unat share"
    by (simp add: comp_def sum_list_triv)
  also have "\<dots> = unat bonus" using fst le len by (simp add: mult.commute)
  finally show ?thesis .
qed

section \<open>What a step of a block keeps\<close>

definition state_ok :: "db \<Rightarrow> bool" where
  "state_ok s \<longleftrightarrow> ledger_ok s \<and> globals_ok (db_props s) \<and> weights_ok s \<and> tables_ok s \<and>
     length (bs_CurrentShuffledBlockProducer (db_schedule s)) \<le> 21"

definition step_kept :: "db \<Rightarrow> db \<Rightarrow> bool" where
  "step_kept s s' \<longleftrightarrow>
     (state_ok s \<longrightarrow> state_ok s' \<and> totalSupply s' = totalSupply s \<and> vest_lost s \<le> vest_lost s') \<and>
     dp_IthYear (db_props s') = dp_IthYear (db_props s) \<and>
     dp_AnnualBudget (db_props s') = dp_AnnualBudget (db_props s) \<and>
     dp_AnnualMinted (db_props s') = dp_AnnualMinted (db_props s)"

lemma step_kept_refl [simp]: "step_kept s s"
  by (simp add: step_kept_def)

lemma step_kept_trans: "step_kept s s1 \<Longrightarrow> step_kept s1 s2 \<Longrightarrow> step_kept s s2"
  by (auto simp: step_kept_def)

lemma eco_step: "eco_kept s s' \<Longrightarrow> step_kept s s'"
  by (auto simp: eco_kept_def step_kept_def state_ok_def rows_rel_def books_def)

lemma trx_step:
  assumes "op_rel s s'" and "ledger_kept s s'"
  shows "step_kept s s'"
  using eco_keptI [OF assms(1)] assms(2) by (auto simp: ledger_kept_def intro: eco_step)

lemma apply_batches_step:
  assumes "env_admin_safe (pe_vm env)" and "apply_batches env expect es s = Inr s'"
  shows "step_kept s s'"
  using ops.R_apply_batches [OF _ assms(2)] ledger.R_apply_batches [OF assms] by (auto intro: trx_step)


lemma updateGlobalProperties_step: "updateGlobalProperties env blk s = Inr s' \<Longrightarrow> step_kept s s'"
  by (auto simp: updateGlobalProperties_def Let_def res_inv step_kept_def state_ok_def ledger_defs
      globals_ok_def weights_ok_def tables_ok_def)

lemma updateAvgTps_step: "updateAvgTps env blk s = Inr s' \<Longrightarrow> step_kept s s'"
  by (auto simp: updateAvgTps_def Let_def res_inv step_kept_def state_ok_def ledger_defs
      globals_ok_def weights_ok_def tables_ok_def split: prod.splits)

lemma updateGlobalResourceParam_step: "updateGlobalResourceParam ns s = Inr s' \<Longrightarrow> step_kept s s'"
  by (auto simp: updateGlobalResourceParam_def res_inv step_kept_def state_ok_def ledger_defs
      globals_ok_def weights_ok_def tables_ok_def)

lemma createBlockSummary_step: "createBlockSummary env blk s = Inr s' \<Longrightarrow> step_kept s s'"
  by (auto simp: createBlockSummary_def Let_def res_inv step_kept_def state_ok_def ledger_defs
      globals_ok_def weights_ok_def tables_ok_def)

lemma updateGlobalBpBootMark_step: "updateGlobalBpBootMark s = Inr s' \<Longrightarrow> step_kept s s'"
  by (auto simp: updateGlobalBpBootMark_def res_inv step_kept_def state_ok_def ledger_defs
      globals_ok_def weights_ok_def tables_ok_def tbl_ok_put split: if_splits option.splits)

lemma history_step: "history_BlockApplied b c s = Inr (c', s') \<Longrightarrow> step_kept s s'"
  by (auto simp: history_BlockApplied_def ib_remove_def Let_def res_inv step_kept_def state_ok_def
      ledger_defs globals_ok_def weights_ok_def tables_ok_def split: if_splits)

lemma ShareTicketBonus_step: "step_kept s (ShareTicketBonus s)"
proof (cases "dp_TicketsBpBonus (db_props s) = 0 \<or> length (bs_CurrentShuffledBlockProducer (db_schedule s)) = 0")
  case False
  define bonus where "bonus = dp_TicketsBpBonus (db_props s)"
  define ns where "ns = bs_CurrentShuffledBlockProducer (db_schedule s)"
  define s0 where "s0 = s\<lparr>db_props := (db_props s)\<lparr>dp_TicketsBpBonus := 0\<rparr>\<rparr>"
  obtain n where n: "0 \<le> n" "n \<le> sum_list (map (\<lambda>x. uint (snd x)) (bonus_shares bonus ns))"
    "paid_out n s0 (share_all (bonus_shares bonus ns) s0)"
    using share_all_paid by blast
  have run: "ShareTicketBonus s = share_all (bonus_shares bonus ns) s0"
    using False by (simp add: ShareTicketBonus_def Let_def bonus_def ns_def s0_def)
  have "n \<le> uint bonus" if "state_ok s"
  proof -
    have "int (sum_list (map (\<lambda>x. unat (snd x)) (bonus_shares bonus ns))) = int (unat bonus)"
      using bonus_shares_sum [of ns bonus] False that by (simp add: ns_def state_ok_def)
    moreover have "sum_list (map (\<lambda>x. uint (snd x)) xs) = int (sum_list (map (\<lambda>x. unat (snd x)) xs))"
      for xs :: "(name \<times> vest) list"
      by (induction xs) simp_all
    ultimately show ?thesis using n(2) by simp
  qed
  define u where "u = share_all (bonus_shares bonus ns) s0"
  have p: "db_props u = (db_props s)\<lparr>dp_TicketsBpBonus := 0\<rparr>" and rows: "rows_rel s u"
    using n(3) by (simp_all add: paid_out_def op_rel_def u_def s0_def)
  have "purse u = (held_cos s, fst (snd (purse s)) + n, snd (snd (purse s)))"
    using n(3) by (simp add: paid_out_def purse_def held_cos_def u_def s0_def)
  with \<open>state_ok s \<Longrightarrow> n \<le> uint bonus\<close> n(1) have
    "state_ok s \<Longrightarrow> ledger_ok u \<and> totalSupply u = totalSupply s \<and> vest_lost s \<le> vest_lost u"
    by (simp add: state_ok_def ledger_ok_def held_vest_def totalSupply_def vest_lost_def purse_def p bonus_def)
  with rows p show ?thesis
    unfolding run u_def [symmetric]
    by (simp add: step_kept_def state_ok_def rows_rel_def globals_ok_def)
qed (auto simp: ShareTicketBonus_def Let_def)

section \<open>At most twenty-one producers\<close>

lemma pick_names_length:
  "cnt < n \<Longrightarrow> length (pick_names n tot cnt ms) \<le> unat n - unat cnt"
proof (induction n tot cnt ms rule: pick_names.induct)
  case (2 n tot cnt m ms)
  have succ: "unat (cnt + 1) = Suc (unat cnt)"
  proof -
    have "unat n < 2 ^ 32" by (rule order_less_le_trans [OF unsigned_less]) simp
    with "2.prems" unat_add_lem [of cnt 1] show ?thesis by (simp add: word_less_nat_alt)
  qed
  have "cnt + 1 < n" if "cnt + 1 \<noteq> n"
    using that "2.prems" succ by (auto simp: word_less_nat_alt word_unat_eq_iff)
  then show ?case
    using 2 succ by (auto simp: word_less_nat_alt)
qed simp

lemma shuffle_list_length [simp]: "length (shuffle_list seed i n xs) = length xs"
  by (induction seed i n xs rule: shuffle_list.induct) (simp_all add: swap_def Let_def)

lemma shuffle_shape:
  assumes "(if a then Inr (None, s)
      else rbind (opAssert b msg) (\<lambda>_. if c then Inr (None, s) else rbind T (\<lambda>x. Inr (F x, G x)))) = Inr (r, s')"
  shows "s' = s \<or> (\<exists>x. T = Inr x \<and> s' = G x)"
  using assms by (auto simp: rbind_Inr_iff split: if_splits)

lemma update_shape:
  assumes "rbind A (\<lambda>s1. rbind (B s1) (\<lambda>(n, s2). rbind (C n s2) D)) = Inr s'"
  shows "\<exists>s1 n s2 s3. A = Inr s1 \<and> B s1 = Inr (n, s2) \<and> C n s2 = Inr s3 \<and> D s3 = Inr s'"
  using assms by (auto simp: rbind_Inr_iff)

lemma shuffle_step:
  assumes "shuffle env blk s = Inr (r, s')"
  shows "step_kept s s'"
proof -
  have top: "length prods \<le> 21" if "GetBlockProducerTopN MaxBlockProducerCount u = Inr prods" for u prods
  proof -
    from that obtain k ns bps where "prods = zip (pick_names MaxBlockProducerCount k 0 ns) bps"
      by (auto simp: GetBlockProducerTopN_def Let_def rbind_Inr_iff)
    with pick_names_length [of 0 MaxBlockProducerCount k ns] show ?thesis
      by (simp add: MaxBlockProducerCount_def)
  qed
  have upd: "step_kept u (updateProducers seed prods q u)" if "length prods \<le> 21" for u seed prods q
    using that by (simp add: updateProducers_def Let_def step_kept_def state_ok_def ledger_defs
        weights_ok_def tables_ok_def)
  from shuffle_shape [OF assms [unfolded shuffle_def Let_def]] show ?thesis
    by (auto intro: step_kept_trans [OF ShareTicketBonus_step upd [OF top]])
qed

lemma update_after_trxs_step:
  assumes "update_after_trxs env blk s = Inr s'"
  shows "step_kept s s'"
proof -
  from update_shape [OF assms [unfolded update_after_trxs_def]] obtain s1 names s2 s3 where
    "updateGlobalProperties env blk s = Inr s1" "shuffle env blk s1 = Inr (names, s2)"
    "updateAvgTps env blk s3 = Inr s'" and
    "(case names of None \<Rightarrow> Inr s2
        | Some ns \<Rightarrow> if length ns > 0 then updateGlobalResourceParam ns s2 else Inr s2) = Inr s3"
    by blast
  moreover from this(4) have "step_kept s2 s3"
    by (auto dest: updateGlobalResourceParam_step split: option.splits if_splits)
  ultimately show ?thesis
    by (blast intro: step_kept_trans dest: updateGlobalProperties_step shuffle_step updateAvgTps_step)
qed

section \<open>A block\<close>

definition chain_ok :: "db \<Rightarrow> bool" where
  "chain_ok s \<longleftrightarrow> state_ok s \<and> mint_schedule s"

lemma chain_ok_step:
  assumes "step_kept s s'" and "chain_ok s"
  shows "chain_ok s'" "totalSupply s' = totalSupply s" "vest_lost s \<le> vest_lost s'"
    "dp_IthYear (db_props s') = dp_IthYear (db_props s)"
  using assms mint_schedule_cong [of s' s] by (auto simp: chain_ok_def step_kept_def)

text \<open>What a block does to the books: the supply grows by at most the issue of one block.\<close>

definition block_books :: "db \<Rightarrow> db \<Rightarrow> bool" where
  "block_books s s' \<longleftrightarrow> chain_ok s' \<and> vest_lost s \<le> vest_lost s' \<and>
     totalSupply s \<le> totalSupply s' \<and> totalSupply s' < totalSupply s + 100000000 \<and>
     unat (dp_IthYear (db_props s')) \<le> Suc (unat (dp_IthYear (db_props s)))"

lemma unat_succ_le: "unat (y + 1) \<le> Suc (unat (y :: u32))"
  by (simp add: unat_word_ariths)

lemma economist_steps_ok:
  assumes "economist_steps s = Inr s'" and ok: "chain_ok s" and "dp_IthYear (db_props s) \<noteq> - 1"
  shows "block_books s s'"
proof -
  from assms(1) obtain s1 s2 s3 s4 where m: "Mint s = Inr s1" and d: "Distribute s1 = Inr s2"
    and c: "Do s2 = Inr s3" and p: "PowerDown s3 = Inr s4" and v: "DeliverDelegatedVests s4 = Inr s'"
    by (auto simp: economist_steps_def rbind_Inr_iff)
  have led: "ledger_ok s" and sch: "mint_schedule s" using ok by (simp_all add: chain_ok_def state_ok_def)
  note mint = Mint_ledger [OF m led] Mint_schedule [OF m led sch assms(3)] Mint_frame [OF m]
  have ok1: "chain_ok s1"
    using ok mint by (auto simp: chain_ok_def state_ok_def mint_frame_def rows_rel_def globals_ok_def)
  have year: "unat (dp_IthYear (db_props s1)) \<le> Suc (unat (dp_IthYear (db_props s)))"
    using Mint_year [OF m] m unat_succ_le [of "dp_IthYear (db_props s)"]
    by (cases "dp_BlockProducerBootCompleted (db_props s)") (auto simp: Mint_def)
  have issue: "issue_of s < 100000000"
    using block_issue_small [of "db_props s"] by (simp add: issue_of_def)
  note k2 = eco_step [OF Distribute_kept [OF d]]
  have pre: "eco_pre s2"
    using chain_ok_step(1) [OF k2 ok1] by (simp add: eco_pre_def chain_ok_def state_ok_def)
  have "step_kept s1 s'"
    using k2 eco_step [OF Do_kept [OF c pre]] eco_step [OF PowerDown_kept [OF p]]
      eco_step [OF DeliverDelegatedVests_kept [OF v]]
    by (blast intro: step_kept_trans)
  from chain_ok_step [OF this ok1] mint year issue show ?thesis
    by (simp add: block_books_def)
qed

lemma pool_db_Inr: "pool_db f c = (c', Inr u) \<longleftrightarrow> (\<exists>s. f (pl_db c) = Inr s \<and> c' = c\<lparr>pl_db := s\<rparr>)"
  by (auto simp: pool_db_def split: sum.splits)

lemma pbind_Inr: "pbind m f = (c', Inr u) \<longleftrightarrow> (\<exists>c v. m = (c, Inr v) \<and> f v c = (c', Inr u))"
  by (cases m) (auto simp: pbind_def split: sum.splits)

lemma pool_check_db: "pool_check env blk c = (c', Inr es) \<Longrightarrow> pl_db c' = pl_db c"
  by (auto simp: pool_check_def split: sum.splits prod.splits)

lemma pool_BlockApplied_step:
  "pool_BlockApplied env blk c = (c', Inr u) \<Longrightarrow> step_kept (pl_db c) (pl_db c')"
  by (auto simp: pool_BlockApplied_def mgr_BlockApplied_def Let_def rbind_Inr_iff
      dest!: history_step split: sum.splits prod.splits)

lemma applyBlock_steps:
  assumes run: "applyBlock env skip_check skip_trxs blk c = (c', Inr u)"
  obtains c1 c2 c3 s4 where
    "skip_check \<or> block_check env blk (pl_db c) = Inr ()" and
    "(if skip_trxs then (c, Inr ()) else pbind (pool_check env blk c) (\<lambda>es.
        pool_db (\<lambda>s. rbind (apply_batches env (map tw_Receipt (sb_Transactions blk)) es s)
                       (update_after_trxs env blk)))) = (c1, Inr ())" and
    "pool_db (createBlockSummary env blk) c1 = (c2, Inr ())" and
    "pool_BlockApplied env blk c2 = (c3, Inr ())" and
    "economist_steps (pl_db c3) = Inr s4" and
    "updateGlobalBpBootMark s4 = Inr (pl_db c')"
  using run
  by (auto simp: applyBlock_def pbind_Inr [where m = "if _ then _ else _"] pbind_Inr [where m = "pool_db _ _"]
        pbind_Inr [where m = "pool_BlockApplied _ _ _"] pool_db_Inr split: if_splits)

lemma applyBlock_before_economist:
  assumes t: "(if skip_trxs then (c, Inr ()) else pbind (pool_check env blk c) (\<lambda>es.
        pool_db (\<lambda>s. rbind (apply_batches env (map tw_Receipt (sb_Transactions blk)) es s)
                       (update_after_trxs env blk)))) = (c1, Inr ())"
    and b: "pool_db (createBlockSummary env blk) c1 = (c2, Inr ())"
    and a: "pool_BlockApplied env blk c2 = (c3, Inr ())" and env: "env_admin_safe (pe_vm env)"
  shows "step_kept (pl_db c) (pl_db c3)"
proof -
  from t have "step_kept (pl_db c) (pl_db c1)"
    by (auto simp: pbind_Inr pool_db_Inr rbind_Inr_iff dest!: pool_check_db apply_batches_step [OF env]
        update_after_trxs_step intro: step_kept_trans split: if_splits)
  moreover have "step_kept (pl_db c1) (pl_db c2)"
    using b by (auto simp: pool_db_Inr dest: createBlockSummary_step)
  ultimately show ?thesis using pool_BlockApplied_step [OF a] by (blast intro: step_kept_trans)
qed

lemma applyBlock_ok:
  assumes run: "applyBlock env skip_check skip_trxs blk c = (c', Inr u)"
    and env: "env_admin_safe (pe_vm env)" and ok: "chain_ok (pl_db c)"
    and year: "dp_IthYear (db_props (pl_db c)) \<noteq> - 1"
  shows "block_books (pl_db c) (pl_db c')"
proof -
  obtain c1 c2 c3 s4 where t: "(if skip_trxs then (c, Inr ()) else pbind (pool_check env blk c) (\<lambda>es.
        pool_db (\<lambda>s. rbind (apply_batches env (map tw_Receipt (sb_Transactions blk)) es s)
                       (update_after_trxs env blk)))) = (c1, Inr ())"
    and b: "pool_db (createBlockSummary env blk) c1 = (c2, Inr ())" and a: "pool_BlockApplied env blk c2 = (c3, Inr ())"
    and e: "economist_steps (pl_db c3) = Inr s4" and m: "updateGlobalBpBootMark s4 = Inr (pl_db c')"
    by (rule applyBlock_steps [OF run])
  have "step_kept (pl_db c) (pl_db c3)" by (rule applyBlock_before_economist [OF t b a env])
  note k3 = chain_ok_step [OF this ok]
  have "block_books (pl_db c3) s4"
    by (rule economist_steps_ok [OF e k3(1)]) (use year k3(4) in simp)
  with k3 chain_ok_step [OF updateGlobalBpBootMark_step [OF m]] show ?thesis
    by (auto simp: block_books_def)
qed

section \<open>The chain\<close>

lemma genesis_weights:
  "natural InitPostWeightedVps" "natural InitReplyWeightedVps"
  "natural InitVoteWeightedVps" "natural InitDappWeightedVps"
  by (simp_all add: InitPostWeightedVps_def InitReplyWeightedVps_def InitVoteWeightedVps_def
      InitDappWeightedVps_def natural_def big_of_string_def read_signed_def read_nat_def
      char_digit_def Let_def)

lemma genesis_ok: "chain_ok (initGenesis key)"
  by (simp add: chain_ok_def state_ok_def initGenesis_def ledger_defs isum_def tbl_sum_def genesis_account_def
      new_account_def genesis_props_def globals_ok_def weights_ok_def tables_ok_def tbl_all_def tbl_ok_def
      mint_schedule_def issued_before_def budget_of_def minted_this_year_def genesis_weights)

text \<open>
  The states a chain of \<open>n\<close> blocks reaches. Each block may be applied in an environment and with a
  transaction manager of its own; a block that fails leaves the database as it was.
\<close>

inductive chain_state :: "pubkey \<Rightarrow> nat \<Rightarrow> db \<Rightarrow> bool" for key where
  genesis: "chain_state key 0 (initGenesis key)"
| block: "chain_state key n s \<Longrightarrow> env_admin_safe (pe_vm env) \<Longrightarrow>
    pushBlock env skip_check blk \<lparr>pl_db = s, pl_tm = tm\<rparr> = (c, None) \<Longrightarrow> chain_state key (Suc n) (pl_db c)"

lemma pushBlock_ok:
  assumes "pushBlock env skip_check blk c = (c', None)" and "env_admin_safe (pe_vm env)"
    and "chain_ok (pl_db c)" and "dp_IthYear (db_props (pl_db c)) \<noteq> - 1"
  shows "block_books (pl_db c) (pl_db c')"
  using applyBlock_ok [OF _ assms(2-4)] assms(1)
  by (auto simp: pushBlock_def split: prod.splits sum.splits)

lemma chain_state_ok:
  assumes "chain_state key n s" and "n < 2 ^ 32 - 2"
  shows "chain_ok s \<and> unat (dp_IthYear (db_props s)) \<le> Suc n"
  using assms
proof (induction rule: chain_state.induct)
  case genesis
  show ?case using genesis_ok by (simp add: initGenesis_def genesis_props_def)
next
  case (block n s env skip_check blk tm c)
  then have ok: "chain_ok s" and y: "unat (dp_IthYear (db_props s)) \<le> Suc n" by auto
  have "dp_IthYear (db_props s) \<noteq> - 1"
  proof
    assume "dp_IthYear (db_props s) = - 1"
    with y block.prems show False by (simp add: unsigned_minus_1_eq_mask mask_eq_exp_minus_1)
  qed
  from pushBlock_ok [OF block.hyps(3,2)] ok this y show ?case
    by (auto simp: block_books_def)
qed

end
