(* ===== verification/Examples.thy ===== *)
theory Examples
  imports BlockLedger
begin

text \<open>
  Concrete inputs. An environment whose parameters are simple functions, a transaction that
  creates an account, and a block on top of genesis; the model runs on them by rewriting. They show
  that the hypotheses of the properties can be met. The collection \<open>exec\<close> holds the definitions a
  run unfolds; the weak congruence rules make rewriting evaluate a step before what follows it.
\<close>

section \<open>Inputs\<close>

definition ex_vm :: vm_env where
  "ex_vm = \<lparr>env_Decompress = Some, env_Sha256 = (\<lambda>bs. bs), env_UnmarshalABI = (\<lambda>_. True),
     env_Validate = (\<lambda>_. True), env_EncodeParams = (\<lambda>_ _. None), env_DecodeParams = (\<lambda>_ _. None),
     env_Exec = (\<lambda>_ _. ([], \<lparr>vr_Gas = 0, vr_Error = None\<rparr>))\<rparr>"

definition ex_mgr :: mgr_env where
  "ex_mgr = \<lparr>me_TrxId = sg_Signature, me_Size = (\<lambda>_. 100), me_ExportPubKeys = (\<lambda>_. Inr [1])\<rparr>"

definition ex_env :: pool_env where
  "ex_env = \<lparr>pe_vm = ex_vm, pe_mgr = ex_mgr, pe_LatestBlock = 0, pe_cleanDue = False,
     pe_sched_order = (\<lambda>xs. xs), pe_HeaderHash = (\<lambda>_. zero_id), pe_MerkleDigest = sg_Signature,
     pe_PairHash = (@), pe_BlockSize = (\<lambda>_. 100), pe_TrxSize = (\<lambda>_. 100),
     pe_ValidateSig = (\<lambda>_ _. True)\<rparr>"

definition ex_trx :: "coin \<Rightarrow> signed_transaction" where
  "ex_trx fee = \<lparr>sg_Trx = \<lparr>tx_RefBlockNum = 0, tx_RefBlockPrefix = 0, tx_Expiration = Some 40,
     tx_Operations = [AccountCreate \<lparr>ac_Fee = Some fee, ac_Creator = COSInitMiner,
       ac_NewAccountName = ''alice1'', ac_PubKey = replicate 33 2\<rparr>]\<rparr>, sg_Signature = replicate 65 0\<rparr>"

definition ex_entry :: "coin \<Rightarrow> trx_entry" where
  "ex_entry fee = (NewTrxMgrEntry (ex_trx fee))\<lparr>te_signer := COSInitMiner\<rparr>"

definition ex_block :: signed_block where
  "ex_block = \<lparr>sb_Previous = zero_id, sb_Timestamp = 30, sb_BlockProducer = COSInitMiner,
     sb_TransactionMerkleRoot = zero_id, sb_PrevApplyHash = 0, sb_Signature = [],
     sb_Transactions = []\<rparr>"

definition ex_tm :: trx_mgr where
  "ex_tm = \<lparr>tm_headTime = 0, tm_waiting = [], tm_fetched = [], tm_auth = NewAuthFetcher 0 0,
     tm_tapos = \<lparr>tp_blockIds = replicate 2048 zero_id, tp_lastBlock = 0\<rparr>,
     tm_history = \<lparr>ib_trxs = [], ib_last = 0\<rparr>, tm_shrinkCounter = 0\<rparr>"

definition ex_pool :: pool where
  "ex_pool = \<lparr>pl_db = initGenesis [1], pl_tm = ex_tm\<rparr>"

section \<open>Running the model\<close>

lemma weak_congs:
  "m = m' \<Longrightarrow> rbind m f = rbind m' f" "n = n' \<Longrightarrow> obind n g = obind n' g"
  "p = p' \<Longrightarrow> pbind p h = pbind p' h" "q = q' \<Longrightarrow> case_prod k q = case_prod k q'"
  by simp_all

lemmas exec_cong = weak_congs let_weak_cong

lemmas exec_inputs =
  ex_trx_def ex_entry_def ex_block_def ex_tm_def ex_pool_def ex_env_def ex_mgr_def ex_vm_def
  initGenesis_def genesis_account_def genesis_props_def new_account_def NewTrxMgrEntry_def
  NewAuthFetcher_def COSInitMiner_def COSInitSupply_def COSTokenDecimals_def GenesisTime_def
  DefaultAccountCreateFee_def StatusSuccess_def StatusFailDeductStamina_def BlockInterval_def

lemmas exec_tables =
  tbl_get_def tbl_Get_def CheckExist_def MustExist_def MustNotExist_def tbl_Create_def
  tbl_Modify_def tbl_UniQuery_def tbl_CreateUni_def tbl_ModifyUni_def account_Get_def
  account_Modify_def account_Create_def producer_Get_def ModifyProps_def

lemmas exec_stamina =
  calculateNewStaminaEMA_def calculateEMA_def divideCeilBig_def big_Uint64_def WindowSize_def LimitPrecision_def
  CheckNet_one_def calculateUserMaxStamina_def free_left_def stake_left_def stamina_of_def
  GetFreeLeft_def GetStakeLeft_def DefaultStaminaFree_def NetConsumePointNum_def PayGas_def
  deduct_one_def ConsumeFree_def staminaUse_def CpuConsumePointDen_def CommonOpStamina_def
  RecordOperationStaminaFee_def RecordStaminaFee_def HasGasFee_def

lemmas exec_trx =
  applyTransactionOnDb_def trx_body_def obind_def NewTrxContext_def GetOpCreatorsMap_def
  GetSigner_def Let_def applyOperation_def minHardFork_def evaluator_Apply_def on_db_def
  AccountCreate_Apply_def opAssert_def need_def sub_Balance_def coin_Sub_def TransferToVest_def
  coin_Add_def vest_Add_def HeadBlockTime_def HardFork_def GetHardFork_def Original_def

lemmas exec_block =
  pushBlock_def applyBlock_def pbind_def pool_check_def pool_db_def CheckBlockTrxs_def
  block_check_def CalculateMerkleRoot_def validateBlockHeader_def MaxBlockSize_def
  update_after_trxs_def updateGlobalProperties_def shuffle_def Block_Id_def BlockProdRepetition_def
  updateAvgTps_def UpdateDynamicStamina_def TpsWindowSize_def calculateTpsEMA_def
  createBlockSummary_def pool_BlockApplied_def mgr_BlockApplied_def shrinkPoolMemories_def
  cleanExpiredWaiting_def history_BlockApplied_def Number_def NewInBlockEntry_def
  sMaxHistoryBlocks_def TrxMaxExpirationTime_def auth_BlockApplied_def key_changes_def
  economist_steps_def Mint_def Distribute_def Do_def PowerDown_def DeliverDelegatedVests_def
  updateGlobalBpBootMark_def

lemma exec_numbers:
  "BlockNum zero_id = 0" "BlockNum (le_PutUint64 w @ r) = w" "length zero_id = 32" "take 32 zero_id = zero_id"
  by (simp_all add: BlockNum_def le_Uint64_PutUint64 zero_id_def) (simp add: le_Uint64_def numeral_eq_Suc)

lemma exec_keys: "[1] \<noteq> replicate 33 2" "replicate 33 2 \<noteq> [1]"
  by (simp_all add: numeral_eq_Suc)

lemma exec_summary: "map_of genesis_summary 1 = Some zero_id"
proof -
  have "(1, zero_id) \<in> set genesis_summary"
    unfolding genesis_summary_def by (auto simp: image_iff intro!: bexI [of _ 1])
  moreover have "distinct (map fst genesis_summary)"
    by (auto simp: genesis_summary_def comp_def distinct_map inj_on_def unat_of_nat dest!: arg_cong [where f = unat])
  ultimately show ?thesis by (simp add: map_of_eq_Some_iff)
qed

lemmas exec = exec_inputs exec_tables exec_stamina exec_trx exec_block exec_numbers exec_keys exec_summary

text \<open>The block is accepted on top of genesis.\<close>

lemma ex_block_accepted: "snd (pushBlock ex_env False ex_block ex_pool) = None"
  by (simp add: exec cong: exec_cong)

lemma ex_vm_safe: "env_admin_safe (pe_vm ex_env)"
  by (simp add: env_admin_safe_def ex_env_def ex_vm_def)

text \<open>The account is created, and with too small a fee it is not but the stamina is paid.\<close>

lemma ex_entry_applied:
  "\<exists>s'. applyTransactionOnDb ex_env (ex_entry DefaultAccountCreateFee) (initGenesis [1]) =
     (\<lparr>rc_Status = StatusSuccess, rc_NetUsage = 1000, rc_CpuUsage = 1\<rparr>, Some s')"
  by (simp add: exec GetNetUse_def GetCpuUse_def use_of_def cong: exec_cong)

lemma ex_entry_failed:
  "\<exists>s'. applyTransactionOnDb ex_env (ex_entry 2) (initGenesis [1]) =
     (\<lparr>rc_Status = StatusFailDeductStamina, rc_NetUsage = 1000, rc_CpuUsage = 1\<rparr>, Some s')"
  by (simp add: exec GetNetUse_def GetCpuUse_def use_of_def cong: exec_cong)

end
