(* ===== verification/Session.thy ===== *)
theory Session
  imports Store
begin

text \<open>
  Nested transactions over a database (\<open>db/storage\<close>: \<open>dbsession.go\<close>, \<open>dbdeque.go\<close>,
  \<open>transactional.go\<close>, \<open>squash.go\<close>, \<open>dbpatch.go\<close>). A session buffers writes over the database below
  it; a deque stacks sessions over a base database and pops them from either end, discarding the
  buffered writes or committing them one level down; tags name the sessions. The base is any
  database, so the operations take its methods as arguments: \<open>bget\<close> reads a key, \<open>bput\<close> and
  \<open>bdel\<close> write one, and \<open>bwrite\<close> executes a batch. The theorems relate the layered reads to the map
  that executing the buffered writes would give.
\<close>

section \<open>Write operations\<close>

text \<open>\<open>writeOp\<close>: the flag \<open>Del\<close> is the constructor.\<close>

datatype 'v writeOp = Put (op_Key: bytes) (op_Value: 'v) | Del (op_Key: bytes)

fun exec_op :: "'v writeOp \<Rightarrow> 'v store \<Rightarrow> 'v store" where
  "exec_op (Put k v) st = db_Put k v st"
| "exec_op (Del k) st = db_Delete k st"

text \<open>\<open>Batch.Write\<close> of an engine: the batched operations in order.\<close>

definition db_Write :: "'v writeOp list \<Rightarrow> 'v store \<Rightarrow> 'v store" where
  "db_Write ops st = fold exec_op ops st"

section \<open>A session\<close>

record 'v dbSession =
  ss_mem :: "'v store"
  ss_changes :: "'v writeOp list"
  ss_removals :: "bytes list"

definition empty_session :: "'v dbSession" where
  "empty_session = \<lparr>ss_mem = [], ss_changes = [], ss_removals = []\<rparr>"

definition session_Has :: "'v dbSession \<Rightarrow> (bytes \<Rightarrow> bool) \<Rightarrow> bytes \<Rightarrow> bool" where
  "session_Has s below key =
     (if db_Has (ss_mem s) key then True
      else if key \<in> set (ss_removals s) then False else below key)"

definition session_Get :: "'v dbSession \<Rightarrow> (bytes \<Rightarrow> 'v option) \<Rightarrow> bytes \<Rightarrow> 'v option" where
  "session_Get s below key =
     (case db_Get (ss_mem s) key of
        Some data \<Rightarrow> Some data
      | None \<Rightarrow> if key \<in> set (ss_removals s) then None else below key)"

definition session_put :: "bytes \<Rightarrow> 'v \<Rightarrow> 'v dbSession \<Rightarrow> 'v dbSession" where
  "session_put key val s =
     s\<lparr>ss_mem := db_Put key val (ss_mem s), ss_changes := ss_changes s @ [Put key val],
       ss_removals := removeAll key (ss_removals s)\<rparr>"

definition session_delete :: "bytes \<Rightarrow> 'v dbSession \<Rightarrow> 'v dbSession" where
  "session_delete key s =
     s\<lparr>ss_mem := db_Delete key (ss_mem s), ss_changes := ss_changes s @ [Del key],
       ss_removals := key # ss_removals s\<rparr>"

fun session_op :: "'v writeOp \<Rightarrow> 'v dbSession \<Rightarrow> 'v dbSession" where
  "session_op (Put k v) s = session_put k v s"
| "session_op (Del k) s = session_delete k s"

definition session_Write :: "'v writeOp list \<Rightarrow> 'v dbSession \<Rightarrow> 'v dbSession" where
  "session_Write ops s = fold session_op ops s"

text \<open>\<open>commitToDbWriter\<close>: the operations handed to the batch of the database below.\<close>

definition commitToDbWriter :: "'v dbSession \<Rightarrow> 'v writeOp list" where
  "commitToDbWriter s = ss_changes s"

text \<open>
  \<open>commit\<close>: the changes are executed below and forgotten, while the in-memory rows stay and now
  repeat what is below.
\<close>

definition session_commit ::
  "('v writeOp list \<Rightarrow> 'd \<Rightarrow> 'd) \<Rightarrow> 'v dbSession \<Rightarrow> 'd \<Rightarrow> 'v dbSession \<times> 'd" where
  "session_commit bwrite s db =
     (s\<lparr>ss_changes := [], ss_removals := []\<rparr>, bwrite (commitToDbWriter s) db)"

text \<open>\<open>Hash\<close>: a 32-bit sum over the changes; the checksum is the standard CRC-32 of the table below.\<close>

fun session_Hash :: "(bytes \<Rightarrow> u32) \<Rightarrow> ('v \<Rightarrow> bytes) \<Rightarrow> 'v writeOp list \<Rightarrow> u32" where
  "session_Hash crc raw [] = 0"
| "session_Hash crc raw (Put k v # ops) = crc k + crc (raw v) + session_Hash crc raw ops"
| "session_Hash crc raw (Del k # ops) =
     crc k + crc (bytes_of_string ''<deleted>'') + session_Hash crc raw ops"

section \<open>The deque\<close>

text \<open>
  \<open>dq_sessions\<close> is in the order of the source's slice, the newest last. \<open>dq_below\<close> are the sessions
  that were dropped from the back without committing them and that the oldest session still reads
  through, because its \<open>db\<close> pointer is not changed in that case.
\<close>

record ('d, 'v) dbDeque =
  dq_db :: 'd
  dq_readFront :: bool
  dq_sessions :: "'v dbSession list"
  dq_below :: "'v dbSession list"

definition NewDBDeque :: "'d \<Rightarrow> bool \<Rightarrow> ('d, 'v) dbDeque" where
  "NewDBDeque db readFront = \<lparr>dq_db = db, dq_readFront = readFront, dq_sessions = [], dq_below = []\<rparr>"

definition dq_Size :: "('d, 'v) dbDeque \<Rightarrow> nat" where
  "dq_Size dq = 1 + length (dq_sessions dq)"

definition pushFront :: "('d, 'v) dbDeque \<Rightarrow> ('d, 'v) dbDeque" where
  "pushFront dq = dq\<lparr>dq_sessions := dq_sessions dq @ [empty_session]\<rparr>"

definition pushBack :: "('d, 'v) dbDeque \<Rightarrow> ('d, 'v) dbDeque" where
  "pushBack dq = dq\<lparr>dq_sessions := empty_session # dq_sessions dq, dq_below := []\<rparr>"

text \<open>A batch executed on the database the oldest session reads through.\<close>

definition write_below ::
  "('v writeOp list \<Rightarrow> 'd \<Rightarrow> 'd) \<Rightarrow> 'v writeOp list \<Rightarrow> ('d, 'v) dbDeque \<Rightarrow> ('d, 'v) dbDeque" where
  "write_below bwrite ops dq =
     (if dq_below dq = [] then dq\<lparr>dq_db := bwrite ops (dq_db dq)\<rparr>
      else dq\<lparr>dq_below := butlast (dq_below dq) @ [session_Write ops (last (dq_below dq))]\<rparr>)"

definition drop_sessions :: "'v dbSession list \<Rightarrow> ('d, 'v) dbDeque \<Rightarrow> ('d, 'v) dbDeque" where
  "drop_sessions ss dq = dq\<lparr>dq_sessions := ss, dq_below := if ss = [] then [] else dq_below dq\<rparr>"

definition popFront ::
  "('v writeOp list \<Rightarrow> 'd \<Rightarrow> 'd) \<Rightarrow> bool \<Rightarrow> ('d, 'v) dbDeque \<Rightarrow> string + ('d, 'v) dbDeque" where
  "popFront bwrite commit dq =
     (let ss = dq_sessions dq in
      if ss = [] then Inl ''unexpected pop.''
      else if \<not> commit then Inr (drop_sessions (butlast ss) dq)
      else let ops = commitToDbWriter (last ss) in
           if length ss = 1 then Inr (drop_sessions [] (write_below bwrite ops dq))
           else let ss' = butlast ss in
                Inr (drop_sessions (butlast ss' @ [session_Write ops (last ss')]) dq))"

definition popBackN ::
  "('v writeOp list \<Rightarrow> 'd \<Rightarrow> 'd) \<Rightarrow> int \<Rightarrow> bool \<Rightarrow> ('d, 'v) dbDeque \<Rightarrow> string + ('d, 'v) dbDeque" where
  "popBackN bwrite n commit dq =
     (let ss = dq_sessions dq in
      if n < 0 then Inl ''negative popBackN''
      else if n = 0 then Inr dq
      else if int (length ss) < n then Inl ''unexpected popBackN''
      else let m = nat n in
           if commit
           then Inr (drop_sessions (drop m ss)
                  (write_below bwrite (concat (map commitToDbWriter (take m ss))) dq))
           else Inr (drop_sessions (drop m ss) (dq\<lparr>dq_below := dq_below dq @ take m ss\<rparr>)))"

definition popBack ::
  "('v writeOp list \<Rightarrow> 'd \<Rightarrow> 'd) \<Rightarrow> bool \<Rightarrow> ('d, 'v) dbDeque \<Rightarrow> string + ('d, 'v) dbDeque" where
  "popBack bwrite commit dq = popBackN bwrite 1 commit dq"

text \<open>Reads go to the front or to the back; writes go to the front.\<close>

definition sessions_Get :: "(bytes \<Rightarrow> 'v option) \<Rightarrow> 'v dbSession list \<Rightarrow> bytes \<Rightarrow> 'v option" where
  "sessions_Get base ss = foldl (\<lambda>below s. session_Get s below) base ss"

definition front_Get :: "('d \<Rightarrow> bytes \<Rightarrow> 'v option) \<Rightarrow> ('d, 'v) dbDeque \<Rightarrow> bytes \<Rightarrow> 'v option" where
  "front_Get bget dq =
     (if dq_sessions dq = [] then bget (dq_db dq)
      else sessions_Get (bget (dq_db dq)) (dq_below dq @ dq_sessions dq))"

definition dq_Get :: "('d \<Rightarrow> bytes \<Rightarrow> 'v option) \<Rightarrow> ('d, 'v) dbDeque \<Rightarrow> bytes \<Rightarrow> 'v option" where
  "dq_Get bget dq key =
     (if dq_readFront dq then front_Get bget dq key else bget (dq_db dq) key)"

definition dq_write_op ::
  "('v writeOp \<Rightarrow> 'd \<Rightarrow> 'd) \<Rightarrow> 'v writeOp \<Rightarrow> ('d, 'v) dbDeque \<Rightarrow> ('d, 'v) dbDeque" where
  "dq_write_op bop w dq =
     (if dq_sessions dq = [] then dq\<lparr>dq_db := bop w (dq_db dq)\<rparr>
      else dq\<lparr>dq_sessions := butlast (dq_sessions dq) @ [session_op w (last (dq_sessions dq))]\<rparr>)"

definition dq_Put ::
  "('v writeOp \<Rightarrow> 'd \<Rightarrow> 'd) \<Rightarrow> bytes \<Rightarrow> 'v \<Rightarrow> ('d, 'v) dbDeque \<Rightarrow> ('d, 'v) dbDeque" where
  "dq_Put bop key val dq = dq_write_op bop (Put key val) dq"

definition dq_Delete ::
  "('v writeOp \<Rightarrow> 'd \<Rightarrow> 'd) \<Rightarrow> bytes \<Rightarrow> ('d, 'v) dbDeque \<Rightarrow> ('d, 'v) dbDeque" where
  "dq_Delete bop key dq = dq_write_op bop (Del key) dq"

definition dq_Write ::
  "('v writeOp list \<Rightarrow> 'd \<Rightarrow> 'd) \<Rightarrow> 'v writeOp list \<Rightarrow> ('d, 'v) dbDeque \<Rightarrow> ('d, 'v) dbDeque" where
  "dq_Write bwrite ops dq =
     (if dq_sessions dq = [] then dq\<lparr>dq_db := bwrite ops (dq_db dq)\<rparr>
      else dq\<lparr>dq_sessions := butlast (dq_sessions dq) @ [session_Write ops (last (dq_sessions dq))]\<rparr>)"

section \<open>Transactions and tags\<close>

text \<open>
  \<open>SquashableDatabase\<close>: the deque, and the index of the session each tag names, in both directions.
  Operations that can fail return the new state and the error, if any.
\<close>

record ('d, 'v) squashdb =
  sq_dq :: "('d, 'v) dbDeque"
  sq_tags :: "(string, nat) tbl"
  sq_tagsByIdx :: "(nat, string) tbl"

type_synonym 's failing = "'s \<times> string option"

definition NewSquashableDatabase :: "'d \<Rightarrow> bool \<Rightarrow> ('d, 'v) squashdb" where
  "NewSquashableDatabase db dirtyRead =
     \<lparr>sq_dq = NewDBDeque db dirtyRead, sq_tags = [], sq_tagsByIdx = []\<rparr>"

definition sq_BeginTransaction :: "('d, 'v) squashdb \<Rightarrow> ('d, 'v) squashdb" where
  "sq_BeginTransaction q = q\<lparr>sq_dq := pushFront (sq_dq q)\<rparr>"

definition TransactionHeight :: "('d, 'v) squashdb \<Rightarrow> nat" where
  "TransactionHeight q = dq_Size (sq_dq q) - 1"

definition HashOfTopTransaction :: "(bytes \<Rightarrow> u32) \<Rightarrow> ('v \<Rightarrow> bytes) \<Rightarrow> ('d, 'v) squashdb \<Rightarrow> u32" where
  "HashOfTopTransaction crc raw q =
     (let ss = dq_sessions (sq_dq q) in if ss = [] then 0 else session_Hash crc raw (ss_changes (last ss)))"

definition sq_EndTransaction ::
  "('v writeOp list \<Rightarrow> 'd \<Rightarrow> 'd) \<Rightarrow> bool \<Rightarrow> ('d, 'v) squashdb \<Rightarrow> ('d, 'v) squashdb failing" where
  "sq_EndTransaction bwrite commit q =
     (let (dq, err) = (case popFront bwrite commit (sq_dq q) of
                         Inl e \<Rightarrow> (sq_dq q, Some e) | Inr dq \<Rightarrow> (dq, None));
          q1 = q\<lparr>sq_dq := dq\<rparr>;
          frontIdx = dq_Size dq - 1 in
      case tbl_get (sq_tagsByIdx q1) frontIdx of
        None \<Rightarrow> (q1, err)
      | Some poppedTag \<Rightarrow>
          (q1\<lparr>sq_tagsByIdx := tbl_del frontIdx (sq_tagsByIdx q1),
              sq_tags := tbl_del poppedTag (sq_tags q1)\<rparr>, err))"

definition sq_BeginTransactionWithTag :: "string \<Rightarrow> ('d, 'v) squashdb \<Rightarrow> ('d, 'v) squashdb" where
  "sq_BeginTransactionWithTag tag q =
     (let dq = pushFront (sq_dq q); frontIdx = dq_Size dq - 2 in
      q\<lparr>sq_dq := dq, sq_tags := tbl_put tag frontIdx (sq_tags q),
        sq_tagsByIdx := tbl_put frontIdx tag (sq_tagsByIdx q)\<rparr>)"

text \<open>The tags that remain, re-indexed: built from the entries of \<open>tagsByIdx\<close> that are kept.\<close>

definition keep_tags :: "(nat \<Rightarrow> nat option) \<Rightarrow> ('d, 'v) squashdb \<Rightarrow> ('d, 'v) squashdb" where
  "keep_tags f q =
     (let kept = List.map_filter (\<lambda>(i, t). map_option (\<lambda>j. (j, t)) (f i)) (sq_tagsByIdx q) in
      q\<lparr>sq_tags := fold (\<lambda>(j, t). tbl_put t j) kept [],
        sq_tagsByIdx := fold (\<lambda>(j, t). tbl_put j t) kept []\<rparr>)"

definition sq_Squash ::
  "('v writeOp list \<Rightarrow> 'd \<Rightarrow> 'd) \<Rightarrow> string \<Rightarrow> ('d, 'v) squashdb \<Rightarrow> ('d, 'v) squashdb failing" where
  "sq_Squash bwrite tag q =
     (case tbl_get (sq_tags q) tag of
        None \<Rightarrow> (q, Some (''unknown tag: '' @ tag))
      | Some idx \<Rightarrow>
          (case popBackN bwrite (int idx + 1) True (sq_dq q) of
             Inl e \<Rightarrow> (q, Some e)
           | Inr dq \<Rightarrow> (keep_tags (\<lambda>i. if i > idx then Some (i - idx - 1) else None) (q\<lparr>sq_dq := dq\<rparr>), None)))"

fun popFrontN :: "('v writeOp list \<Rightarrow> 'd \<Rightarrow> 'd) \<Rightarrow> nat \<Rightarrow> ('d, 'v) dbDeque \<Rightarrow> string + ('d, 'v) dbDeque" where
  "popFrontN bwrite 0 dq = Inr dq"
| "popFrontN bwrite (Suc n) dq =
     (case popFront bwrite False dq of Inl e \<Rightarrow> Inl e | Inr dq' \<Rightarrow> popFrontN bwrite n dq')"

text \<open>
  \<open>RollbackTag\<close>. The loop runs at most as often as there are sessions, so its pops cannot fail and
  the early return in the middle of it is never taken.
\<close>

definition sq_RollbackTag ::
  "('v writeOp list \<Rightarrow> 'd \<Rightarrow> 'd) \<Rightarrow> string \<Rightarrow> ('d, 'v) squashdb \<Rightarrow> ('d, 'v) squashdb failing" where
  "sq_RollbackTag bwrite tag q =
     (case tbl_get (sq_tags q) tag of
        None \<Rightarrow> (q, Some (''unknown tag: '' @ tag))
      | Some idx \<Rightarrow>
          (case popFrontN bwrite (dq_Size (sq_dq q) - 1 - idx) (sq_dq q) of
             Inl e \<Rightarrow> (q, Some e)
           | Inr dq \<Rightarrow> (keep_tags (\<lambda>i. if i < idx then Some i else None) (q\<lparr>sq_dq := dq\<rparr>), None)))"

section \<open>A patch\<close>

text \<open>
  \<open>DatabasePatch\<close>: one session over a database, applied to it at the end. A patch of a patch is a
  session over a session.
\<close>

definition NewDatabasePatch :: "'v dbSession" where
  "NewDatabasePatch = empty_session"

definition patch_Apply ::
  "('v writeOp list \<Rightarrow> 'd \<Rightarrow> 'd) \<Rightarrow> 'v dbSession \<Rightarrow> 'd \<Rightarrow> 'v dbSession \<times> 'd" where
  "patch_Apply bwrite s db = session_commit bwrite s db"

section \<open>Writes as maps\<close>

fun op_view :: "'v writeOp \<Rightarrow> (bytes \<Rightarrow> 'v option) \<Rightarrow> (bytes \<Rightarrow> 'v option)" where
  "op_view (Put k v) m = m(k \<mapsto> v)"
| "op_view (Del k) m = m(k := None)"

definition apply_ops :: "'v writeOp list \<Rightarrow> (bytes \<Rightarrow> 'v option) \<Rightarrow> (bytes \<Rightarrow> 'v option)" where
  "apply_ops ops m = fold op_view ops m"

lemma apply_ops_simps [simp]:
  "apply_ops [] m = m" "apply_ops (w # ops) m = apply_ops ops (op_view w m)"
  "apply_ops (ops @ ops') m = apply_ops ops' (apply_ops ops m)"
  by (simp_all add: apply_ops_def)

lemma apply_ops_cong:
  "m k = m' k \<Longrightarrow> apply_ops ops m k = apply_ops ops m' k"
proof (induction ops arbitrary: m m')
  case (Cons w ops)
  have "op_view w m k = op_view w m' k" using Cons.prems by (cases w) auto
  from Cons.IH [of "op_view w m" "op_view w m'", OF this] show ?case by simp
qed simp

lemma db_Write_ok [simp]: "tbl_ok st \<Longrightarrow> tbl_ok (db_Write ops st)"
proof (induction ops arbitrary: st)
  case (Cons w ops)
  have "tbl_ok (exec_op w st)" using Cons.prems by (cases w) simp_all
  from Cons.IH [OF this] show ?case by (simp add: db_Write_def)
qed (simp add: db_Write_def)

lemma db_Get_Write:
  "tbl_ok st \<Longrightarrow> db_Get (db_Write ops st) = apply_ops ops (db_Get st)"
proof (induction ops arbitrary: st)
  case (Cons w ops)
  have "tbl_ok (exec_op w st)" "db_Get (exec_op w st) = op_view w (db_Get st)"
    using Cons.prems by (cases w; auto simp: db_Get_Put db_Get_Delete fun_eq_iff)+
  with Cons.IH [of "exec_op w st"] show ?case by (simp add: db_Write_def)
qed (simp add: db_Write_def)

text \<open>
  A session is well formed when reading through it gives what executing its changes would give.
\<close>

definition session_ok :: "'v dbSession \<Rightarrow> bool" where
  "session_ok s =
     (tbl_ok (ss_mem s) \<and>
      (\<forall>below. session_Get s below = apply_ops (ss_changes s) below))"

lemma session_ok_Get: "session_ok s \<Longrightarrow> session_Get s below = apply_ops (ss_changes s) below"
  by (simp add: session_ok_def)

lemma session_ok_empty [simp]: "session_ok empty_session"
  by (simp add: session_ok_def empty_session_def session_Get_def db_Get_def tbl_ok_def fun_eq_iff)

lemma session_ok_op: "session_ok s \<Longrightarrow> session_ok (session_op w s)"
proof (cases w)
  case (Put k v)
  assume ok: "session_ok s"
  have "session_Get (session_put k v s) below = (session_Get s below)(k \<mapsto> v)" for below
    by (auto simp: session_Get_def session_put_def db_Get_Put fun_eq_iff split: option.splits)
  with ok Put show ?thesis by (simp add: session_ok_def session_put_def)
next
  case (Del k)
  assume ok: "session_ok s"
  then have mem: "tbl_ok (ss_mem s)" by (simp add: session_ok_def)
  have "session_Get (session_delete k s) below = (session_Get s below)(k := None)" for below
    using mem by (auto simp: session_Get_def session_delete_def db_Get_Delete fun_eq_iff
        split: option.splits)
  with ok Del show ?thesis by (simp add: session_ok_def session_delete_def)
qed

lemma changes_session_op [simp]: "ss_changes (session_op w s) = ss_changes s @ [w]"
  by (cases w) (simp_all add: session_put_def session_delete_def)

lemma session_Write_simps [simp]:
  "session_ok s \<Longrightarrow> session_ok (session_Write ops s)"
  "ss_changes (session_Write ops s) = ss_changes s @ ops"
  by (induction ops arbitrary: s) (auto simp: session_Write_def session_ok_op)

text \<open>\<open>Has\<close> and \<open>Get\<close> agree.\<close>

lemma session_Has_Get:
  "session_Has s (\<lambda>k. below k \<noteq> None) key \<longleftrightarrow> session_Get s below key \<noteq> None"
  by (auto simp: session_Has_def session_Get_def db_Has_def db_Get_def split: option.splits)

section \<open>The deque as one map\<close>

definition all_changes :: "('d, 'v) dbDeque \<Rightarrow> 'v writeOp list" where
  "all_changes dq = concat (map ss_changes (dq_sessions dq))"

definition sessions_ok :: "(bytes \<Rightarrow> bool) \<Rightarrow> ('d, 'v) dbDeque \<Rightarrow> bool" where
  "sessions_ok user dq =
     (dq_below dq = [] \<and>
      (\<forall>s \<in> set (dq_sessions dq). session_ok s \<and> (\<forall>w \<in> set (ss_changes s). user (op_Key w))))"

lemma sessions_Get_eq:
  "\<forall>s \<in> set ss. session_ok s \<Longrightarrow> sessions_Get base ss = apply_ops (concat (map ss_changes ss)) base"
  by (induction ss arbitrary: base) (simp_all add: sessions_Get_def session_ok_Get)

lemma front_Get_eq:
  "sessions_ok user dq \<Longrightarrow> front_Get bget dq = apply_ops (all_changes dq) (bget (dq_db dq))"
  by (simp add: front_Get_def all_changes_def sessions_ok_def sessions_Get_eq)

lemma sessions_ok_pushFront [simp]: "sessions_ok user dq \<Longrightarrow> sessions_ok user (pushFront dq)"
  by (auto simp: sessions_ok_def pushFront_def empty_session_def [symmetric])
     (simp add: empty_session_def)

lemma all_changes_pushFront [simp]: "all_changes (pushFront dq) = all_changes dq"
  by (simp add: all_changes_def pushFront_def empty_session_def)

lemma dq_db_pushFront [simp]: "dq_db (pushFront dq) = dq_db dq"
  by (simp add: pushFront_def)

lemma last_session_cases:
  assumes "dq_sessions dq \<noteq> []"
  obtains ss s where "dq_sessions dq = ss @ [s]"
  using assms by (metis append_butlast_last_id)

text \<open>A write to the front of an open deque is recorded in the newest session.\<close>

lemma dq_write_op_open:
  assumes "sessions_ok user dq" and "dq_sessions dq \<noteq> []" and "user (op_Key w)"
  shows "sessions_ok user (dq_write_op bop w dq)"
    and "all_changes (dq_write_op bop w dq) = all_changes dq @ [w]"
    and "dq_db (dq_write_op bop w dq) = dq_db dq"
    and "length (dq_sessions (dq_write_op bop w dq)) = length (dq_sessions dq)"
proof -
  obtain ss s where ss: "dq_sessions dq = ss @ [s]" using assms(2) by (rule last_session_cases)
  then have eq: "dq_write_op bop w dq = dq\<lparr>dq_sessions := ss @ [session_op w s]\<rparr>"
    by (simp add: dq_write_op_def)
  show "sessions_ok user (dq_write_op bop w dq)"
    using assms ss by (auto simp: eq sessions_ok_def session_ok_op)
  show "all_changes (dq_write_op bop w dq) = all_changes dq @ [w]"
    "dq_db (dq_write_op bop w dq) = dq_db dq"
    "length (dq_sessions (dq_write_op bop w dq)) = length (dq_sessions dq)"
    using ss by (simp_all add: eq all_changes_def)
qed

lemma popFront_discard:
  assumes "dq_below dq = []" and "dq_sessions dq = ss @ [s]"
  shows "popFront bwrite False dq = Inr (dq\<lparr>dq_sessions := ss\<rparr>)"
  using assms by (simp add: popFront_def drop_sessions_def Let_def)

lemma popFrontN_discard:
  assumes "dq_below dq = []" and "n \<le> length (dq_sessions dq)"
  shows "popFrontN bwrite n dq = Inr (dq\<lparr>dq_sessions := take (length (dq_sessions dq) - n) (dq_sessions dq)\<rparr>)"
  using assms
proof (induction n arbitrary: dq)
  case (Suc n)
  then obtain ss s where ss: "dq_sessions dq = ss @ [s]"
    by (cases "dq_sessions dq" rule: rev_cases) auto
  from Suc.prems ss have "n \<le> length ss" by simp
  with Suc.IH [of "dq\<lparr>dq_sessions := ss\<rparr>"] Suc.prems show ?case
    by (simp add: popFront_discard [OF _ ss] ss)
qed simp

text \<open>Committing from the back executes the changes of the oldest sessions, in order, on the base.\<close>

lemma popBackN_commit:
  assumes "dq_below dq = []" and "n \<le> length (dq_sessions dq)" and "n > 0"
  shows "popBackN bwrite (int n) True dq =
    Inr (dq\<lparr>dq_db := bwrite (concat (map ss_changes (take n (dq_sessions dq)))) (dq_db dq),
            dq_sessions := drop n (dq_sessions dq)\<rparr>)"
  using assms
  by (simp add: popBackN_def Let_def drop_sessions_def write_below_def commitToDbWriter_def [abs_def])

section \<open>The interface of a base database\<close>

text \<open>
  What the deque relies on: a batch of operations on user keys has the effect of executing it on
  the map of user keys, and keeps the base well formed.
\<close>

locale base_database =
  fixes bget :: "'d \<Rightarrow> bytes \<Rightarrow> 'v option"
    and bwrite :: "'v writeOp list \<Rightarrow> 'd \<Rightarrow> 'd"
    and user :: "bytes \<Rightarrow> bool"
    and bok :: "'d \<Rightarrow> bool"
  assumes write_get: "bok d \<Longrightarrow> \<forall>w \<in> set ops. user (op_Key w) \<Longrightarrow> user k \<Longrightarrow>
      bget (bwrite ops d) k = apply_ops ops (bget d) k"
    and write_ok: "bok d \<Longrightarrow> \<forall>w \<in> set ops. user (op_Key w) \<Longrightarrow> bok (bwrite ops d)"
begin

text \<open>Committing the newest session changes no read.\<close>

lemma popFront_commit:
  assumes ok: "sessions_ok user dq" "bok (dq_db dq)" and open_dq: "dq_sessions dq \<noteq> []"
  obtains dq' where "popFront bwrite True dq = Inr dq'" "sessions_ok user dq'" "bok (dq_db dq')"
    "length (dq_sessions dq') = length (dq_sessions dq) - 1"
    "\<And>k. user k \<Longrightarrow> front_Get bget dq' k = front_Get bget dq k"
proof -
  obtain ss s where ss: "dq_sessions dq = ss @ [s]" using open_dq by (rule last_session_cases)
  have user: "\<forall>w \<in> set (ss_changes s). user (op_Key w)" using ok ss by (simp add: sessions_ok_def)
  show thesis
  proof (cases ss rule: rev_cases)
    case Nil
    let ?dq = "dq\<lparr>dq_db := bwrite (ss_changes s) (dq_db dq), dq_sessions := []\<rparr>"
    have pop: "popFront bwrite True dq = Inr ?dq"
      using ok ss Nil
      by (simp add: popFront_def Let_def drop_sessions_def write_below_def sessions_ok_def commitToDbWriter_def)
    have reads: "front_Get bget ?dq k = front_Get bget dq k" if "user k" for k
      unfolding front_Get_eq [OF ok(1)]
      using write_get [OF ok(2) user that] ss Nil by (simp add: front_Get_def all_changes_def)
    show ?thesis
      by (rule that [OF pop])
         (use ok(1) ss Nil in \<open>simp_all add: sessions_ok_def write_ok [OF ok(2) user] reads\<close>)
  next
    case (snoc ss' t)
    let ?dq = "dq\<lparr>dq_sessions := ss' @ [session_Write (ss_changes s) t]\<rparr>"
    have pop: "popFront bwrite True dq = Inr ?dq"
      using ss snoc
      by (simp add: popFront_def Let_def drop_sessions_def commitToDbWriter_def butlast_append)
    have ok': "sessions_ok user ?dq" using ok ss snoc by (auto simp: sessions_ok_def)
    have "front_Get bget ?dq = front_Get bget dq"
      unfolding front_Get_eq [OF ok'] front_Get_eq [OF ok(1)]
      using ss snoc by (simp add: all_changes_def)
    then show ?thesis
      by (intro that [OF pop ok']) (use ok ss snoc in simp_all)
  qed
qed

text \<open>Committing the oldest sessions changes no read either.\<close>

lemma popBackN_commit_reads:
  assumes ok: "sessions_ok user dq" "bok (dq_db dq)" and n: "n \<le> length (dq_sessions dq)" "n > 0"
  obtains dq' where "popBackN bwrite (int n) True dq = Inr dq'" "sessions_ok user dq'" "bok (dq_db dq')"
    "dq_sessions dq' = drop n (dq_sessions dq)"
    "dq_db dq' = bwrite (concat (map ss_changes (take n (dq_sessions dq)))) (dq_db dq)"
    "\<And>k. user k \<Longrightarrow> front_Get bget dq' k = front_Get bget dq k"
proof -
  let ?ops = "concat (map ss_changes (take n (dq_sessions dq)))"
  let ?dq = "dq\<lparr>dq_db := bwrite ?ops (dq_db dq), dq_sessions := drop n (dq_sessions dq)\<rparr>"
  have pop: "popBackN bwrite (int n) True dq = Inr ?dq"
    by (rule popBackN_commit) (use ok(1) n in \<open>simp_all add: sessions_ok_def\<close>)
  have user: "\<forall>w \<in> set ?ops. user (op_Key w)"
    using ok(1) by (auto simp: sessions_ok_def dest!: in_set_takeD)
  have ok': "sessions_ok user ?dq" using ok(1) by (auto simp: sessions_ok_def dest!: in_set_dropD)
  have split: "all_changes dq = ?ops @ concat (map ss_changes (drop n (dq_sessions dq)))"
    unfolding all_changes_def by (metis append_take_drop_id concat_append map_append)
  have reads: "front_Get bget ?dq k = front_Get bget dq k" if k: "user k" for k
    unfolding front_Get_eq [OF ok'] front_Get_eq [OF ok(1)] split
    by (simp add: all_changes_def) (rule apply_ops_cong, rule write_get [OF ok(2) user k])
  show ?thesis
    by (rule that [OF pop ok']) (simp_all add: write_ok [OF ok(2) user] reads)
qed

end

interpretation plain: base_database db_Get db_Write "\<lambda>_. True" tbl_ok
  by unfold_locales (simp_all add: db_Get_Write)

end
