(* ===== verification/Revertible.thy ===== *)
theory Revertible
  imports Session
begin

text \<open>
  The revertible database (\<open>db/storage/revertible.go\<close>): every write is executed together with a log
  entry that undoes it, stored in the same database under a key that sorts the newest revision
  first, so that the database can go back to any revision since its base. Revisions carry tags.
  The rows the layer keeps for itself (revision number, tags, log) have keys with the prefix
  \<open>__rev_info_\<close>. Their values are written with \<open>encoding/gob\<close>; the model keeps what was encoded.
  Errors of the engine are not modelled. The theory proves that reverting restores exactly the rows
  of the revision, as long as no logged batch was without effect, and exhibits the failure when one
  was.
\<close>

section \<open>Stored values\<close>

datatype dbval =
    Raw bytes
  | GobRevNumber u64 u64
  | GobWriteOps "dbval writeOp list"
  | GobRevTags "(u64 \<times> string) list" "(string \<times> u64) list"

text \<open>
  \<open>decodeWriteOpSlice\<close> returns nil when decoding fails. It also returns nil for an encoded empty
  slice: gob leaves the nil slice it decodes into as it is when there are no elements.
\<close>

fun decodeWriteOpSlice :: "dbval \<Rightarrow> dbval writeOp list option" where
  "decodeWriteOpSlice (GobWriteOps ops) = (if ops = [] then None else Some ops)"
| "decodeWriteOpSlice _ = None"

fun decodeRevNumber :: "dbval \<Rightarrow> (u64 \<times> u64) option" where
  "decodeRevNumber (GobRevNumber c b) = Some (c, b)"
| "decodeRevNumber _ = None"

fun decodeRevTags :: "dbval \<Rightarrow> ((u64 \<times> string) list \<times> (string \<times> u64) list) option" where
  "decodeRevTags (GobRevTags r t) = Some (r, t)"
| "decodeRevTags _ = None"

section \<open>Keys of the layer\<close>

definition info_prefix :: bytes where
  "info_prefix = bytes_of_string ''__rev_info_''"

definition key_rev_num :: bytes where
  "key_rev_num = info_prefix @ bytes_of_string ''rev_num''"

definition key_rev_tags :: bytes where
  "key_rev_tags = info_prefix @ bytes_of_string ''rev_tags''"

definition rev_op_prefix :: bytes where
  "rev_op_prefix = info_prefix @ bytes_of_string ''op_''"

definition max_op_key :: bytes where
  "max_op_key = rev_op_prefix @ bytes_of_string ''fffffffffffffffff''"

definition min_op_key :: bytes where
  "min_op_key = rev_op_prefix @ bytes_of_string ''000000000000000''"

definition hex_digit :: "nat \<Rightarrow> u8" where
  "hex_digit d = of_nat (if d < 10 then 48 + d else 87 + d)"

text \<open>The last \<open>n\<close> hexadecimal digits of a number, as \<open>%016x\<close> prints sixteen of them.\<close>

fun hex_fixed :: "nat \<Rightarrow> nat \<Rightarrow> bytes" where
  "hex_fixed 0 x = []"
| "hex_fixed (Suc n) x = hex_digit (x div 16 ^ n) # hex_fixed n (x mod 16 ^ n)"

definition keyOfReversionOp :: "u64 \<Rightarrow> bytes" where
  "keyOfReversionOp r = rev_op_prefix @ hex_fixed 16 (unat (not r))"

section \<open>State\<close>

record revdb =
  rv_db :: "dbval store"
  rv_Current :: u64
  rv_Base :: u64
  rv_Rev2Tag :: "(u64, string) tbl"
  rv_Tag2Rev :: "(string, u64) tbl"
  rv_presetTag :: string
  rv_enable :: bool

definition NewRevertibleDatabase :: "dbval store \<Rightarrow> revdb" where
  "NewRevertibleDatabase db =
     (let (c, b) = (case Option.bind (db_Get db key_rev_num) decodeRevNumber of
                      Some r \<Rightarrow> r | None \<Rightarrow> (0, 0));
          (r2t, t2r) = (case Option.bind (db_Get db key_rev_tags) decodeRevTags of
                      Some t \<Rightarrow> t | None \<Rightarrow> ([], [])) in
      \<lparr>rv_db = db, rv_Current = c, rv_Base = b, rv_Rev2Tag = r2t, rv_Tag2Rev = t2r,
       rv_presetTag = '''', rv_enable = True\<rparr>)"

section \<open>Tags\<close>

definition cleanRevTags :: "u64 \<Rightarrow> u64 \<Rightarrow> revdb \<Rightarrow> revdb" where
  "cleanRevTags cur base d =
     (let bad = (\<lambda>r. r < base \<or> r > cur) in
      d\<lparr>rv_Tag2Rev := fold (\<lambda>(r, t) m. if bad r then tbl_del t m else m) (rv_Rev2Tag d) (rv_Tag2Rev d),
        rv_Rev2Tag := filter (\<lambda>(r, t). \<not> bad r) (rv_Rev2Tag d)\<rparr>)"

definition tags_op :: "revdb \<Rightarrow> dbval writeOp" where
  "tags_op d = Put key_rev_tags (GobRevTags (rv_Rev2Tag d) (rv_Tag2Rev d))"

text \<open>\<open>tagRevision\<close>: the new state and what it puts through its writer.\<close>

definition tagRevision :: "u64 \<Rightarrow> string \<Rightarrow> revdb \<Rightarrow> revdb \<times> dbval writeOp list" where
  "tagRevision r tag d =
     (let oldtag = (case tbl_get (rv_Rev2Tag d) r of Some t \<Rightarrow> t | None \<Rightarrow> '''') in
      if tag = '''' then
        (if oldtag \<noteq> '''' then
           let d1 = d\<lparr>rv_Rev2Tag := tbl_del r (rv_Rev2Tag d), rv_Tag2Rev := tbl_del oldtag (rv_Tag2Rev d)\<rparr> in
           (d1, [tags_op d1])
         else (d, []))
      else if tag \<noteq> oldtag then
        let d1 = d\<lparr>rv_Rev2Tag := tbl_put r tag (rv_Rev2Tag d),
                   rv_Tag2Rev := tbl_del oldtag (tbl_put tag r (rv_Tag2Rev d))\<rparr> in
        (d1, [tags_op d1])
      else (d, []))"

definition TagRevision :: "u64 \<Rightarrow> string \<Rightarrow> revdb \<Rightarrow> revdb failing" where
  "TagRevision r tag d =
     (if r > rv_Current d \<or> r < rv_Base d then (d, Some ''cannot tag a irreversible revision'')
      else let (d1, ops) = tagRevision r tag d in (d1\<lparr>rv_db := db_Write ops (rv_db d1)\<rparr>, None))"

definition PresetTag :: "string \<Rightarrow> revdb \<Rightarrow> revdb" where
  "PresetTag tag d = d\<lparr>rv_presetTag := tag\<rparr>"

definition applyPresetTag :: "u64 \<Rightarrow> revdb \<Rightarrow> revdb \<times> dbval writeOp list" where
  "applyPresetTag r d =
     (if rv_presetTag d = '''' then (d, [])
      else let (d1, ops) = tagRevision r (rv_presetTag d) d in (d1\<lparr>rv_presetTag := ''''\<rparr>, ops))"

definition GetTagRevision :: "string \<Rightarrow> revdb \<Rightarrow> u64 option" where
  "GetTagRevision tag d = tbl_get (rv_Tag2Rev d) tag"

definition GetRevisionTag :: "u64 \<Rightarrow> revdb \<Rightarrow> string" where
  "GetRevisionTag r d = (case tbl_get (rv_Rev2Tag d) r of Some t \<Rightarrow> t | None \<Rightarrow> '''')"

definition GetRevisionAndBase :: "revdb \<Rightarrow> u64 \<times> u64" where
  "GetRevisionAndBase d = (rv_Current d, rv_Base d)"

section \<open>Reverting and rebasing\<close>

text \<open>The batch a revert collects: each log entry is deleted and its operations are executed.\<close>

fun revert_ops :: "(bytes \<times> dbval) list \<Rightarrow> dbval writeOp list option" where
  "revert_ops [] = Some []"
| "revert_ops ((key, val) # rows) =
     (case decodeWriteOpSlice val of
        None \<Rightarrow> None
      | Some ops \<Rightarrow> map_option (\<lambda>rest. Del key # ops @ rest) (revert_ops rows))"

definition revertToRevision :: "u64 \<Rightarrow> revdb \<Rightarrow> revdb failing" where
  "revertToRevision r d =
     (if r > rv_Current d then (d, Some ''cannot revert to a future revision'')
      else if r < rv_Base d then (d, Some ''cannot revert: not a revertible revision'')
      else if r = rv_Current d then (d, None)
      else let limit = (if r > 0 then keyOfReversionOp (r - 1) else max_op_key) in
           case revert_ops (db_Iterate (Some min_op_key) (Some limit) False (rv_db d)) of
             None \<Rightarrow> (d, Some ''invalid revision log'')
           | Some ops \<Rightarrow>
               let d1 = cleanRevTags r (rv_Base d) d in
               (d1\<lparr>rv_db := db_Write (ops @ [Put key_rev_num (GobRevNumber r (rv_Base d)), tags_op d1]) (rv_db d),
                   rv_Current := r\<rparr>, None))"

definition RevertToRevision :: "u64 \<Rightarrow> revdb \<Rightarrow> revdb failing" where
  "RevertToRevision r d =
     (if \<not> rv_enable d then (d, Some ''reversion is not enabled'') else revertToRevision r d)"

definition rebaseToRevision :: "u64 \<Rightarrow> revdb \<Rightarrow> revdb failing" where
  "rebaseToRevision r d =
     (if r > rv_Current d then (d, Some ''cannot rebase to a future revision'')
      else if r < rv_Base d then (d, Some ''cannot rebase: not a revertible revision'')
      else if r = rv_Base d then (d, None)
      else let start = (if r > 0 then keyOfReversionOp (r - 1) else min_op_key);
               rows = db_Iterate (Some start) (Some max_op_key) False (rv_db d);
               d1 = cleanRevTags (rv_Current d) r d in
           (d1\<lparr>rv_db := db_Write (map (\<lambda>(k, v). Del k) rows @
                  [Put key_rev_num (GobRevNumber (rv_Current d) r), tags_op d1]) (rv_db d),
               rv_Base := r\<rparr>, None))"

definition EnableReversion :: "bool \<Rightarrow> revdb \<Rightarrow> revdb failing" where
  "EnableReversion b d =
     (if rv_enable d = b then (d, None)
      else if \<not> b then
        (case rebaseToRevision (rv_Current d) d of
           (d1, Some e) \<Rightarrow> (d1, Some e)
         | (d1, None) \<Rightarrow> (d1\<lparr>rv_enable := b\<rparr>, None))
      else (d\<lparr>rv_enable := b\<rparr>, None))"

definition RevertToTag :: "string \<Rightarrow> revdb \<Rightarrow> revdb failing" where
  "RevertToTag tag d =
     (case GetTagRevision tag d of
        None \<Rightarrow> (d, Some ''tag not found'') | Some r \<Rightarrow> RevertToRevision r d)"

definition RebaseToTag :: "string \<Rightarrow> revdb \<Rightarrow> revdb failing" where
  "RebaseToTag tag d =
     (case GetTagRevision tag d of
        None \<Rightarrow> (d, Some ''tag not found'') | Some r \<Rightarrow> rebaseToRevision r d)"

section \<open>Writing\<close>

definition revdb_Get :: "revdb \<Rightarrow> bytes \<Rightarrow> dbval option" where
  "revdb_Get d key = db_Get (rv_db d) key"

definition undo_op :: "revdb \<Rightarrow> bytes \<Rightarrow> dbval writeOp" where
  "undo_op d key = (case revdb_Get d key of None \<Rightarrow> Del key | Some old \<Rightarrow> Put key old)"

definition rev_number_op :: "u64 \<Rightarrow> revdb \<Rightarrow> dbval writeOp" where
  "rev_number_op c d = Put key_rev_num (GobRevNumber c (rv_Base d))"

definition revdb_put :: "bytes \<Rightarrow> dbval \<Rightarrow> revdb \<Rightarrow> revdb" where
  "revdb_put key val d =
     (if rv_enable d then
        let log = [Put (keyOfReversionOp (rv_Current d)) (GobWriteOps [undo_op d key]),
                   rev_number_op (rv_Current d + 1) d];
            (d1, tag_ops) = applyPresetTag (rv_Current d + 1) d in
        d1\<lparr>rv_db := db_Write (Put key val # log @ tag_ops) (rv_db d), rv_Current := rv_Current d + 1\<rparr>
      else
        let (d1, tag_ops) = applyPresetTag (rv_Current d) d in
        d1\<lparr>rv_db := db_Write (Put key val # tag_ops) (rv_db d)\<rparr>)"

text \<open>
  Deleting a key that is not there writes nothing, yet the revision number in memory still grows.
\<close>

definition revdb_delete :: "bytes \<Rightarrow> revdb \<Rightarrow> revdb" where
  "revdb_delete key d =
     (if \<not> rv_enable d then
        let (d1, tag_ops) = applyPresetTag (rv_Current d) d in
        d1\<lparr>rv_db := db_Write (Del key # tag_ops) (rv_db d)\<rparr>
      else
        case revdb_Get d key of
          None \<Rightarrow> d\<lparr>rv_Current := rv_Current d + 1\<rparr>
        | Some old \<Rightarrow>
            let log = [Put (keyOfReversionOp (rv_Current d)) (GobWriteOps [Put key old]),
                       rev_number_op (rv_Current d + 1) d];
                (d1, tag_ops) = applyPresetTag (rv_Current d + 1) d in
            d1\<lparr>rv_db := db_Write (Del key # log @ tag_ops) (rv_db d), rv_Current := rv_Current d + 1\<rparr>)"

fun revdb_op :: "dbval writeOp \<Rightarrow> revdb \<Rightarrow> revdb" where
  "revdb_op (Put k v) d = revdb_put k v d"
| "revdb_op (Del k) d = revdb_delete k d"

text \<open>
  \<open>shrink\<close>: the pending puts of a key are dropped when a later operation deletes it. The loop keeps,
  per key, the positions of its pending puts, and the positions to skip.
\<close>

fun shrink_loop :: "nat \<Rightarrow> 'v writeOp list \<Rightarrow> (bytes, nat list) tbl \<Rightarrow> nat list \<Rightarrow> nat list" where
  "shrink_loop i [] putOps skip = skip"
| "shrink_loop i (Del k # ops) putOps skip =
     (let rPuts = (case tbl_get putOps k of Some js \<Rightarrow> js | None \<Rightarrow> []) in
      if rPuts \<noteq> [] then shrink_loop (i + 1) ops (tbl_put k [] putOps) (rPuts @ skip)
      else shrink_loop (i + 1) ops putOps skip)"
| "shrink_loop i (Put k v # ops) putOps skip =
     (let rPuts = (case tbl_get putOps k of Some js \<Rightarrow> js | None \<Rightarrow> []) in
      shrink_loop (i + 1) ops (tbl_put k (rPuts @ [i]) putOps) skip)"

definition shrink :: "'v writeOp list \<Rightarrow> 'v writeOp list" where
  "shrink ops =
     (let skip = shrink_loop 0 ops [] [] in
      map snd (filter (\<lambda>(i, w). i \<notin> set skip) (zip [0..<length ops] ops)))"

text \<open>
  The loop of \<open>Write\<close> over the operations: a deletion of a key that is not in the database is left
  out; every other operation is batched and has an undo entry. The undo entries are filled in from
  the end of their array.
\<close>

fun effective :: "revdb \<Rightarrow> dbval writeOp \<Rightarrow> bool" where
  "effective d (Put k v) = True"
| "effective d (Del k) = (revdb_Get d k \<noteq> None)"

definition undo_ops :: "revdb \<Rightarrow> dbval writeOp list \<Rightarrow> dbval writeOp list" where
  "undo_ops d ops = rev (map (\<lambda>w. undo_op d (op_Key w)) (filter (effective d) ops))"

definition revdb_Write :: "dbval writeOp list \<Rightarrow> revdb \<Rightarrow> revdb" where
  "revdb_Write op0 d =
     (let ops = shrink op0 in
      if ops = [] then d
      else if \<not> rv_enable d then
        let (d1, tag_ops) = applyPresetTag (rv_Current d) d in
        d1\<lparr>rv_db := db_Write (ops @ tag_ops) (rv_db d)\<rparr>
      else
        let log = [Put (keyOfReversionOp (rv_Current d)) (GobWriteOps (undo_ops d ops)),
                   rev_number_op (rv_Current d + 1) d];
            (d1, tag_ops) = applyPresetTag (rv_Current d + 1) d in
        d1\<lparr>rv_db := db_Write (filter (effective d) ops @ log @ tag_ops) (rv_db d),
           rv_Current := rv_Current d + 1\<rparr>)"

section \<open>What shrinking keeps\<close>

text \<open>The reference: a put is dropped when its key is deleted later on.\<close>

fun shrunk :: "'v writeOp list \<Rightarrow> 'v writeOp list" where
  "shrunk [] = []"
| "shrunk (Put k v # ops) = (if Del k \<in> set ops then shrunk ops else Put k v # shrunk ops)"
| "shrunk (Del k # ops) = Del k # shrunk ops"

fun dead_puts :: "'v writeOp list \<Rightarrow> nat set" where
  "dead_puts [] = {}"
| "dead_puts (Put k v # ops) = (if Del k \<in> set ops then {0} else {}) \<union> Suc ` dead_puts ops"
| "dead_puts (Del k # ops) = Suc ` dead_puts ops"

definition pending :: "(bytes, nat list) tbl \<Rightarrow> bytes \<Rightarrow> nat list" where
  "pending putOps k = (case tbl_get putOps k of Some js \<Rightarrow> js | None \<Rightarrow> [])"

lemma pending_put: "pending (tbl_put k js P) j = (if j = k then js else pending P j)"
  by (simp add: pending_def tbl_get_put)

lemma shrink_loop_skips:
  "set (shrink_loop i ops P S) =
     set S \<union> (\<Union>k \<in> {k. Del k \<in> set ops}. set (pending P k)) \<union> (\<lambda>j. i + j) ` dead_puts ops"
proof (induction i ops P S rule: shrink_loop.induct)
  case (2 i k ops P S)
  show ?case
  proof (cases "pending P k = []")
    case True
    with 2(2) show ?thesis by (auto simp: pending_def Let_def image_iff split: option.splits)
  next
    case False
    with 2(1) [of "pending P k"] show ?thesis
      by (auto simp: pending_def [symmetric] Let_def image_iff pending_put split: if_splits)
  qed
next
  case (3 i k v ops P S)
  from 3 [of "pending P k"] show ?case
    by (auto simp: pending_def [symmetric] Let_def image_iff pending_put split: if_splits)
qed simp

lemma shrink_eq: "shrink ops = shrunk ops"
proof -
  have skip: "set (shrink_loop 0 ops [] []) = dead_puts ops"
    by (simp add: shrink_loop_skips pending_def)
  have "map snd (filter (\<lambda>(i, w). i \<notin> (\<lambda>j. a + j) ` dead_puts ops) (zip [a..<a + length ops] ops)) = shrunk ops" for a
  proof (induction ops arbitrary: a)
    case (Cons w ops)
    define U where "U = [Suc a..<Suc a + length ops]"
    define D where "D = (\<lambda>j. a + j) ` dead_puts (w # ops)"
    have upto: "[a..<a + length (w # ops)] = a # U"
      unfolding U_def by (simp add: upt_conv_Cons del: upt_Suc)
    have "filter (\<lambda>(i, w). i \<notin> D) (zip U ops) =
        filter (\<lambda>(i, w). i \<notin> (\<lambda>j. Suc a + j) ` dead_puts ops) (zip U ops)"
      unfolding D_def U_def
      by (rule filter_cong [OF refl], cases w) (auto simp: image_iff dest!: set_zip_leftD)
    then have rest: "map snd (filter (\<lambda>(i, w). i \<notin> D) (zip U ops)) = shrunk ops"
      using Cons.IH [of "Suc a"] by (simp add: U_def)
    have "a \<in> D \<longleftrightarrow> (\<exists>k v. w = Put k v \<and> Del k \<in> set ops)"
      unfolding D_def by (cases w) (auto simp: image_iff)
    then show ?case
      unfolding upto D_def [symmetric] using rest by (cases w) auto
  qed simp
  from this [of 0] show ?thesis by (simp add: shrink_def skip)
qed

text \<open>Executing what is left has the same effect.\<close>

lemma apply_ops_deleted:
  "Del k \<in> set ops \<Longrightarrow> apply_ops ops m k = apply_ops ops m' k"
proof (induction ops arbitrary: m m')
  case (Cons w ops)
  show ?case
  proof (cases "Del k \<in> set ops")
    case True
    then show ?thesis using Cons.IH by simp
  next
    case False
    with Cons.prems have "w = Del k" by simp
    then show ?thesis by (simp add: apply_ops_cong [of "m(k := None)" k "m'(k := None)"])
  qed
qed simp

lemma apply_shrunk: "apply_ops (shrunk ops) m = apply_ops ops m"
proof (induction ops arbitrary: m rule: shrunk.induct)
  case (2 k v ops)
  show ?case
  proof (cases "Del k \<in> set ops")
    case True
    have "apply_ops ops m j = apply_ops ops (m(k \<mapsto> v)) j" for j
      using apply_ops_deleted [OF True, of m "m(k \<mapsto> v)"] apply_ops_cong [of m j "m(k \<mapsto> v)" ops]
      by (cases "j = k") auto
    with 2(1) [OF True, of m] True show ?thesis by (simp add: fun_eq_iff)
  next
    case False
    then show ?thesis using 2(2) by simp
  qed
qed simp_all

fun settled :: "'v writeOp list \<Rightarrow> bool" where
  "settled [] = True"
| "settled (Put k v # ops) = (Del k \<notin> set ops \<and> settled ops)"
| "settled (Del k # ops) = settled ops"

lemma set_shrunk: "set (shrunk ops) \<subseteq> set ops"
  by (induction ops rule: shrunk.induct) auto

lemma settled_shrunk: "settled (shrunk ops)"
  by (induction ops rule: shrunk.induct) (auto dest: subsetD [OF set_shrunk])

section \<open>What the log undoes\<close>

lemma apply_effective:
  assumes "settled ops" and "\<forall>k. Del k \<in> set ops \<longrightarrow> \<not> effective d (Del k) \<longrightarrow> m k = None"
  shows "apply_ops (filter (effective d) ops) m = apply_ops ops m"
  using assms
proof (induction ops arbitrary: m rule: settled.induct)
  case (3 k ops)
  then show ?case
    by (cases "revdb_Get d k") (auto simp: fun_upd_idem)
qed auto

lemma apply_undo:
  assumes "\<forall>u \<in> set us. u = undo_op d (op_Key u)"
  shows "apply_ops us m k = (if k \<in> op_Key ` set us then revdb_Get d k else m k)"
  using assms
proof (induction us arbitrary: m)
  case (Cons u us)
  have "op_view u m k = (if k = op_Key u then revdb_Get d k else m k)"
  proof -
    have "u = undo_op d (op_Key u)" using Cons.prems by simp
    then show ?thesis
      by (cases "revdb_Get d (op_Key u)") (auto simp: undo_op_def, (metis op_view.simps fun_upd_apply)+)
  qed
  with Cons show ?case by auto
qed simp

lemma op_Key_undo [simp]: "op_Key (undo_op d k) = k"
  by (simp add: undo_op_def split: option.splits)

lemma untouched: "k \<notin> op_Key ` set ops \<Longrightarrow> apply_ops ops m k = m k"
proof (induction ops arbitrary: m)
  case (Cons w ops)
  then show ?case by (cases w) auto
qed simp

lemma undo_reverts:
  "apply_ops (undo_ops d ops) (apply_ops (filter (effective d) ops) (revdb_Get d)) = revdb_Get d"
proof
  fix k
  have keys: "op_Key ` set (undo_ops d ops) = op_Key ` set (filter (effective d) ops)"
    by (auto simp: undo_ops_def image_iff)
  have undo: "\<forall>u \<in> set (undo_ops d ops). u = undo_op d (op_Key u)"
    by (auto simp: undo_ops_def)
  show "apply_ops (undo_ops d ops) (apply_ops (filter (effective d) ops) (revdb_Get d)) k = revdb_Get d k"
    unfolding apply_undo [OF undo] keys using untouched [of k "filter (effective d) ops"] by simp
qed

section \<open>The order of the log\<close>

lemma hex_digit_less: "a < 16 \<Longrightarrow> b < 16 \<Longrightarrow> hex_digit a < hex_digit b \<longleftrightarrow> a < b"
proof -
  have "\<forall>a \<in> set [0..<16]. \<forall>b \<in> set [0..<16]. (hex_digit a < hex_digit b) = (a < b)"
    by code_simp
  then show "a < 16 \<Longrightarrow> b < 16 \<Longrightarrow> hex_digit a < hex_digit b \<longleftrightarrow> a < b" by simp
qed

lemma hex_digit_range: "a < 16 \<Longrightarrow> 48 \<le> hex_digit a \<and> hex_digit a \<le> 102"
proof -
  have "\<forall>a \<in> set [0..<16]. 48 \<le> hex_digit a \<and> hex_digit a \<le> 102" by code_simp
  then show "a < 16 \<Longrightarrow> 48 \<le> hex_digit a \<and> hex_digit a \<le> 102" by simp
qed

lemma hex_top: "x < 16 ^ Suc n \<Longrightarrow> x div 16 ^ n < (16 :: nat)"
  by (simp add: less_mult_imp_div_less)

lemma hex_fixed_order:
  assumes "x < y" and "y < 16 ^ n"
  shows "hex_fixed n x < hex_fixed n y"
  using assms
proof (induction n arbitrary: x y)
  case (Suc n)
  let ?p = "16 ^ n :: nat"
  have le: "x div ?p \<le> y div ?p" using Suc.prems(1) by (simp add: div_le_mono)
  have small: "x div ?p < 16" "y div ?p < 16"
    using hex_top [of x n] hex_top [of y n] Suc.prems by auto
  show ?case
  proof (cases "x div ?p = y div ?p")
    case True
    then have "x mod ?p < y mod ?p"
      using Suc.prems(1) by (metis div_mult_mod_eq nat_add_left_cancel_less)
    with True Suc.IH show ?thesis by simp
  next
    case False
    with le small show ?thesis by (simp add: hex_digit_less)
  qed
qed simp

lemma hex_fixed_min: "x < 16 ^ n \<Longrightarrow> m \<le> n \<Longrightarrow> replicate m 48 \<le> hex_fixed n x"
proof (induction n arbitrary: m x)
  case (Suc n)
  have "48 \<le> hex_digit (x div 16 ^ n)" using hex_digit_range [OF hex_top [OF Suc.prems(1)]] by simp
  then have "48 < hex_digit (x div 16 ^ n) \<or> 48 = hex_digit (x div 16 ^ n)" by (auto simp: order_le_less)
  with Suc show ?case by (cases m) auto
qed simp

lemma hex_fixed_max: "x < 16 ^ n \<Longrightarrow> hex_fixed n x < replicate (Suc n) 102"
proof (induction n arbitrary: x)
  case (Suc n)
  have "hex_digit (x div 16 ^ n) \<le> 102" using hex_digit_range [OF hex_top [OF Suc.prems(1)]] by simp
  with Suc.IH [of "x mod 16 ^ n"] show ?case by (auto simp: order_le_less)
qed simp

lemma unat_hex: "unat (w :: u64) < 16 ^ 16"
proof -
  have "unat w < 2 ^ LENGTH(64)" by (rule unsigned_less)
  then show ?thesis by simp
qed

lemma not_less_u64: "not (a :: u64) < not b \<longleftrightarrow> b < a"
proof -
  have "take_bit 64 (uint w) = uint w" for w :: u64
    by (rule take_bit_int_eq_self) (use uint_bounded [of w] in simp_all)
  then show ?thesis by (simp add: word_less_def unsigned_not_eq take_bit_not_eq_mask_diff)
qed

lemma key_less_iff: "keyOfReversionOp a < keyOfReversionOp b \<longleftrightarrow> b < a"
proof -
  have "hex_fixed 16 x < hex_fixed 16 y \<longleftrightarrow> x < y" if "x < 16 ^ 16" "y < 16 ^ 16" for x y
    using hex_fixed_order that by (metis less_asym linorder_neqE_nat order_less_irrefl)
  from this [OF unat_hex unat_hex, of "not a" "not b"] show ?thesis
    by (simp add: keyOfReversionOp_def not_less_u64 flip: word_less_nat_alt)
qed

lemma key_inject [simp]: "keyOfReversionOp a = keyOfReversionOp b \<longleftrightarrow> a = b"
  using key_less_iff [of a b] key_less_iff [of b a] by (metis less_linear order_less_irrefl)

lemma key_bounds: "min_op_key \<le> keyOfReversionOp a" "keyOfReversionOp a < max_op_key"
proof -
  have zeros: "bytes_of_string ''000000000000000'' = replicate 15 48"
    and fs: "bytes_of_string ''fffffffffffffffff'' = replicate (Suc 16) 102"
    by (code_simp, code_simp)
  have "replicate 15 48 \<le> hex_fixed 16 (unat (not a))" by (rule hex_fixed_min [OF unat_hex]) simp
  then show "min_op_key \<le> keyOfReversionOp a"
    by (simp add: min_op_key_def keyOfReversionOp_def zeros order_le_less del: hex_fixed.simps)
  have "hex_fixed 16 (unat (not a)) < replicate (Suc 16) 102" by (rule hex_fixed_max [OF unat_hex])
  then show "keyOfReversionOp a < max_op_key"
    by (simp add: max_op_key_def keyOfReversionOp_def fs del: hex_fixed.simps replicate.simps)
qed

section \<open>The invariant of the log\<close>

text \<open>The keys of the layer above, and its rows.\<close>

definition user_key :: "bytes \<Rightarrow> bool" where
  "user_key k = (take (length info_prefix) k \<noteq> info_prefix)"

definition user_ops :: "dbval writeOp list \<Rightarrow> bool" where
  "user_ops ops = (\<forall>w \<in> set ops. user_key (op_Key w))"

definition uview :: "revdb \<Rightarrow> bytes \<Rightarrow> dbval option" where
  "uview d k = (if user_key k then revdb_Get d k else None)"

definition log_at :: "revdb \<Rightarrow> nat \<Rightarrow> dbval option" where
  "log_at d i = db_Get (rv_db d) (keyOfReversionOp (of_nat i))"

text \<open>What the log entry of a revision has to do: take the rows of the next revision back.\<close>

definition entry_ok ::
  "dbval option \<Rightarrow> (bytes \<Rightarrow> dbval option) \<Rightarrow> (bytes \<Rightarrow> dbval option) \<Rightarrow> bool" where
  "entry_ok e new_rows old_rows =
     (case e of
        None \<Rightarrow> old_rows = new_rows
      | Some v \<Rightarrow> (\<exists>us. decodeWriteOpSlice v = Some us \<and> user_ops us \<and> apply_ops us new_rows = old_rows))"

text \<open>
  \<open>h i\<close> are the rows at revision \<open>i\<close>. Log entries exist for revisions between the base and the
  current one only.
\<close>

definition rev_inv :: "(nat \<Rightarrow> bytes \<Rightarrow> dbval option) \<Rightarrow> revdb \<Rightarrow> bool" where
  "rev_inv h d =
     (tbl_ok (rv_db d) \<and> rv_Base d \<le> rv_Current d \<and>
      h (unat (rv_Current d)) = uview d \<and>
      (\<forall>i. unat (rv_Base d) \<le> i \<and> i < unat (rv_Current d) \<longrightarrow> entry_ok (log_at d i) (h (Suc i)) (h i)) \<and>
      (\<forall>k. db_Get (rv_db d) k \<noteq> None \<longrightarrow> min_op_key \<le> k \<longrightarrow> k < max_op_key \<longrightarrow>
         (\<exists>r. k = keyOfReversionOp r \<and> rv_Base d \<le> r \<and> r < rv_Current d)))"

lemma info_prefix_length [simp]: "length info_prefix = 11"
  by (simp add: info_prefix_def bytes_of_string_def)

lemma meta_keys [simp]:
  "\<not> user_key (keyOfReversionOp r)" "\<not> user_key key_rev_num" "\<not> user_key key_rev_tags"
  "\<not> user_key (info_prefix @ k)"
  by (simp_all add: user_key_def keyOfReversionOp_def rev_op_prefix_def key_rev_num_def key_rev_tags_def)

lemma op_range_meta: "min_op_key \<le> k \<Longrightarrow> k < max_op_key \<Longrightarrow> \<not> user_key k"
proof -
  have "\<exists>k'. k = p @ k'" if "p @ a \<le> k" "k < p @ b" for p a b :: bytes
    using that
  proof (induction p arbitrary: k)
    case (Cons c p)
    then show ?case by (cases k) auto
  qed simp
  from this [of info_prefix "bytes_of_string ''op_000000000000000''" "bytes_of_string ''op_fffffffffffffffff''"]
  show "min_op_key \<le> k \<Longrightarrow> k < max_op_key \<Longrightarrow> \<not> user_key k"
    by (auto simp: min_op_key_def max_op_key_def rev_op_prefix_def bytes_of_string_def)
qed

lemma rev_keys_outside: "max_op_key < key_rev_num" "max_op_key < key_rev_tags"
  by (code_simp, code_simp)

lemma rev_keys_distinct [simp]:
  "key_rev_num \<noteq> key_rev_tags" "key_rev_tags \<noteq> key_rev_num"
  "keyOfReversionOp r \<noteq> key_rev_num" "keyOfReversionOp r \<noteq> key_rev_tags"
  "key_rev_num \<noteq> keyOfReversionOp r" "key_rev_tags \<noteq> keyOfReversionOp r"
proof -
  show "key_rev_num \<noteq> key_rev_tags" by code_simp
  then show "key_rev_tags \<noteq> key_rev_num" by simp
  show "keyOfReversionOp r \<noteq> key_rev_num" "keyOfReversionOp r \<noteq> key_rev_tags"
    "key_rev_num \<noteq> keyOfReversionOp r" "key_rev_tags \<noteq> keyOfReversionOp r"
    using key_bounds(2) [of r] rev_keys_outside by auto
qed

text \<open>What the operations on the tags write.\<close>

lemma tagRevision_ops:
  "tagRevision r tag d = (d1, ops) \<Longrightarrow>
     rv_db d1 = rv_db d \<and> rv_Current d1 = rv_Current d \<and> rv_Base d1 = rv_Base d \<and>
     rv_enable d1 = rv_enable d \<and> rv_presetTag d1 = rv_presetTag d \<and> (\<forall>w \<in> set ops. op_Key w = key_rev_tags)"
  by (auto simp: tagRevision_def Let_def tags_op_def split: if_splits)

lemma applyPresetTag_ops:
  "applyPresetTag r d = (d1, ops) \<Longrightarrow>
     rv_db d1 = rv_db d \<and> rv_Current d1 = rv_Current d \<and> rv_Base d1 = rv_Base d \<and>
     rv_enable d1 = rv_enable d \<and> rv_presetTag d1 = '''' \<and> (\<forall>w \<in> set ops. op_Key w = key_rev_tags)"
  by (auto simp: applyPresetTag_def Let_def split: if_splits prod.splits dest!: tagRevision_ops)

text \<open>Operations on user keys act on the user rows.\<close>

definition user_part :: "(bytes \<Rightarrow> dbval option) \<Rightarrow> bytes \<Rightarrow> dbval option" where
  "user_part m k = (if user_key k then m k else None)"

lemma uview_user_part: "uview d = user_part (revdb_Get d)"
  by (simp add: fun_eq_iff uview_def user_part_def)

lemma user_part_apply: "user_ops ops \<Longrightarrow> user_part (apply_ops ops m) = apply_ops ops (user_part m)"
proof
  fix k
  assume ops: "user_ops ops"
  show "user_part (apply_ops ops m) k = apply_ops ops (user_part m) k"
  proof (cases "user_key k")
    case True
    then show ?thesis using apply_ops_cong [of m k "user_part m" ops] by (simp add: user_part_def)
  next
    case False
    then have "k \<notin> op_Key ` set ops" using ops by (auto simp: user_ops_def)
    then show ?thesis using False by (simp add: untouched user_part_def)
  qed
qed

lemma user_part_meta:
  "\<forall>w \<in> set ops. \<not> user_key (op_Key w) \<Longrightarrow> user_part (apply_ops ops m) = user_part m"
  by (auto simp: user_part_def fun_eq_iff intro!: untouched)

lemma unat_plus_1: "unat c < 2 ^ 64 - 1 \<Longrightarrow> unat ((c :: u64) + 1) = unat c + 1"
  by (simp add: unat_word_ariths)

lemma unat_of_nat64: "i < 2 ^ 64 \<Longrightarrow> unat (of_nat i :: u64) = i"
  by (simp add: unat_of_nat)

lemma less_plus_1: "unat c < 2 ^ 64 - 1 \<Longrightarrow> (r :: u64) < c + 1 \<longleftrightarrow> r \<le> c"
  using unat_plus_1 [of c] by (auto simp: word_less_nat_alt word_le_nat_alt)

text \<open>A write that is executed together with its log entry.\<close>

lemma logged_write:
  assumes inv: "rev_inv h d" and room: "unat (rv_Current d) < 2 ^ 64 - 1"
    and us: "user_ops us" and meta: "\<forall>w \<in> set ms. op_Key w = key_rev_num \<or> op_Key w = key_rev_tags"
    and undo: "decodeWriteOpSlice v = Some zs" "user_ops zs" "apply_ops zs (apply_ops us (uview d)) = uview d"
    and d1: "rv_db d1 = db_Write (us @ Put (keyOfReversionOp (rv_Current d)) v # ms) (rv_db d)"
      "rv_Current d1 = rv_Current d + 1" "rv_Base d1 = rv_Base d"
  shows "rev_inv (h(Suc (unat (rv_Current d)) := uview d1)) d1" and "uview d1 = apply_ops us (uview d)"
proof -
  let ?c = "rv_Current d"
  have ok: "tbl_ok (rv_db d)" and base: "rv_Base d \<le> ?c" and cur: "h (unat ?c) = uview d"
    and entries: "\<And>i. unat (rv_Base d) \<le> i \<Longrightarrow> i < unat ?c \<Longrightarrow> entry_ok (log_at d i) (h (Suc i)) (h i)"
    and keys: "\<And>k. db_Get (rv_db d) k \<noteq> None \<Longrightarrow> min_op_key \<le> k \<Longrightarrow> k < max_op_key \<Longrightarrow>
         \<exists>r. k = keyOfReversionOp r \<and> rv_Base d \<le> r \<and> r < ?c"
    using inv by (auto simp: rev_inv_def)
  have get: "db_Get (rv_db d1) = apply_ops (us @ Put (keyOfReversionOp ?c) v # ms) (db_Get (rv_db d))"
    unfolding d1(1) by (rule db_Get_Write [OF ok])
  have ms_meta: "\<forall>w \<in> set (Put (keyOfReversionOp ?c) v # ms). \<not> user_key (op_Key w)"
    using meta by auto
  show view: "uview d1 = apply_ops us (uview d)"
    using user_part_meta [OF ms_meta] user_part_apply [OF us]
    by (simp add: uview_user_part revdb_Get_def [abs_def] get)
  have log: "db_Get (rv_db d1) (keyOfReversionOp r) =
      (if r = ?c then Some v else db_Get (rv_db d) (keyOfReversionOp r))" for r
  proof -
    have "keyOfReversionOp r \<notin> op_Key ` set us" using us meta_keys(1) [of r] unfolding user_ops_def by (metis imageE)
    moreover have "keyOfReversionOp r \<notin> op_Key ` set ms" using meta by (auto dest: sym)
    ultimately show ?thesis unfolding get by (simp add: untouched)
  qed
  have cur1: "unat (rv_Current d1) = Suc (unat ?c)" using unat_plus_1 [OF room] d1(2) by simp
  have entries1: "entry_ok (log_at d1 i) ((h(Suc (unat ?c) := uview d1)) (Suc i)) ((h(Suc (unat ?c) := uview d1)) i)"
    if i: "unat (rv_Base d) \<le> i" "i < Suc (unat ?c)" for i
  proof (cases "i = unat ?c")
    case True
    then show ?thesis using log [of ?c] undo cur view by (simp add: log_at_def entry_ok_def)
  next
    case False
    with i have lt: "i < unat ?c" by simp
    then have "i < 2 ^ 64" using unat_hex [of ?c] by simp
    with lt have "(of_nat i :: u64) \<noteq> ?c" using unat_of_nat64 [of i] by auto
    with entries [OF i(1) lt] lt log [of "of_nat i"] show ?thesis by (simp add: log_at_def)
  qed
  have keys1: "\<exists>r. k = keyOfReversionOp r \<and> rv_Base d \<le> r \<and> r < rv_Current d1"
    if k: "db_Get (rv_db d1) k \<noteq> None" "min_op_key \<le> k" "k < max_op_key" for k
  proof (cases "k = keyOfReversionOp ?c")
    case True
    then show ?thesis using base less_plus_1 [OF room, of ?c] d1(2) by auto
  next
    case False
    have "k \<notin> op_Key ` set us" using op_range_meta [OF k(2,3)] us by (auto simp: user_ops_def)
    moreover have "k \<notin> op_Key ` set ms" using k(3) meta rev_keys_outside by auto
    ultimately have "db_Get (rv_db d1) k = db_Get (rv_db d) k"
      unfolding get using False by (simp add: untouched)
    with keys [of k] k less_plus_1 [OF room] d1(2) show ?thesis by (auto intro: less_imp_le)
  qed
  have "rv_Base d \<le> ?c + 1" using base less_plus_1 [OF room, of "rv_Base d"] by (simp add: less_imp_le)
  then show "rev_inv (h(Suc (unat ?c) := uview d1)) d1"
    unfolding rev_inv_def cur1 d1(3) using entries1 keys1 ok d1 by (simp add: cur1)
qed

text \<open>The three ways to write, with reversion enabled.\<close>

lemma user_undo:
  assumes "user_ops ops"
  shows "user_ops (undo_ops d ops)" and "user_ops (filter (effective d) ops)"
  using assms by (auto simp: user_ops_def undo_ops_def)

lemma apply_undo_ops:
  assumes "user_ops ops"
  shows "apply_ops (undo_ops d ops) (apply_ops (filter (effective d) ops) (uview d)) = uview d"
  using undo_reverts [of d ops] user_part_apply [OF user_undo(1) [OF assms]]
    user_part_apply [OF user_undo(2) [OF assms]]
  by (metis uview_user_part)

lemma user_ops_shrunk: "user_ops ops \<Longrightarrow> user_ops (shrunk ops)"
  using set_shrunk [of ops] by (auto simp: user_ops_def)

lemma apply_effective_shrunk:
  assumes "user_ops ops"
  shows "apply_ops (filter (effective d) (shrunk ops)) (uview d) = apply_ops ops (uview d)"
proof -
  have "apply_ops (filter (effective d) (shrunk ops)) (uview d) = apply_ops (shrunk ops) (uview d)"
    by (rule apply_effective [OF settled_shrunk]) (auto simp: uview_def)
  then show ?thesis by (simp add: apply_shrunk)
qed

text \<open>A batch that changes something: after shrinking, some operation is effective.\<close>

definition changing :: "revdb \<Rightarrow> dbval writeOp list \<Rightarrow> bool" where
  "changing d ops = (\<exists>w \<in> set (shrunk ops). effective d w)"

lemma revdb_Write_enabled:
  assumes inv: "rev_inv h d" and room: "unat (rv_Current d) < 2 ^ 64 - 1" and on: "rv_enable d"
    and us: "user_ops ops" and change: "changing d ops"
  shows "rev_inv (h(Suc (unat (rv_Current d)) := uview (revdb_Write ops d))) (revdb_Write ops d)"
    and "uview (revdb_Write ops d) = apply_ops ops (uview d)"
    and "rv_Current (revdb_Write ops d) = rv_Current d + 1"
    and "rv_Base (revdb_Write ops d) = rv_Base d"
    and "rv_enable (revdb_Write ops d)"
proof -
  obtain d1 tag_ops where tag: "applyPresetTag (rv_Current d + 1) d = (d1, tag_ops)" by force
  note tag1 = applyPresetTag_ops [OF tag]
  have ne: "shrunk ops \<noteq> []" using change by (auto simp: changing_def)
  let ?d = "revdb_Write ops d"
  let ?us = "filter (effective d) (shrunk ops)"
  let ?zs = "undo_ops d (shrunk ops)"
  have eq: "?d = d1\<lparr>rv_db := db_Write (?us @ Put (keyOfReversionOp (rv_Current d)) (GobWriteOps ?zs) #
      (rev_number_op (rv_Current d + 1) d # tag_ops)) (rv_db d), rv_Current := rv_Current d + 1\<rparr>"
    using ne on tag by (simp add: revdb_Write_def shrink_eq Let_def)
  note user = user_ops_shrunk [OF us]
  have zs: "decodeWriteOpSlice (GobWriteOps ?zs) = Some ?zs"
    using change by (auto simp: changing_def undo_ops_def filter_empty_conv)
  have meta: "\<forall>w \<in> set (rev_number_op (rv_Current d + 1) d # tag_ops). op_Key w = key_rev_num \<or> op_Key w = key_rev_tags"
    using tag1 by (auto simp: rev_number_op_def)
  note log = logged_write [OF inv room user_undo(2) [OF user] meta zs user_undo(1) [OF user]
      apply_undo_ops [OF user], of ?d]
  show "rev_inv (h(Suc (unat (rv_Current d)) := uview ?d)) ?d"
    by (rule log(1)) (simp_all add: eq tag1)
  have "uview ?d = apply_ops ?us (uview d)"
    by (rule log(2)) (simp_all add: eq tag1)
  then show "uview ?d = apply_ops ops (uview d)" by (simp add: apply_effective_shrunk [OF us])
  show "rv_Current ?d = rv_Current d + 1" "rv_Base ?d = rv_Base d" "rv_enable ?d"
    using eq tag1 on by simp_all
qed

text \<open>A batch with nothing left in it is not written at all.\<close>

lemma revdb_Write_nothing: "shrunk ops = [] \<Longrightarrow> revdb_Write ops d = d"
  by (simp add: revdb_Write_def shrink_eq)

lemma shrunk_empty_iff: "shrunk ops = [] \<longleftrightarrow> ops = []"
  by (induction ops rule: shrunk.induct) auto

lemma revdb_put_enabled:
  assumes inv: "rev_inv h d" and room: "unat (rv_Current d) < 2 ^ 64 - 1" and on: "rv_enable d"
    and us: "user_key k"
  shows "rev_inv (h(Suc (unat (rv_Current d)) := uview (revdb_put k v d))) (revdb_put k v d)"
    and "uview (revdb_put k v d) = (uview d)(k \<mapsto> v)"
proof -
  have "shrunk [Put k v] = [Put k v]" by simp
  then have eq: "revdb_put k v d = revdb_Write [Put k v] d"
    using on by (simp add: revdb_put_def revdb_Write_def shrink_eq undo_ops_def)
  have ch: "changing d [Put k v]" "user_ops [Put k v]" using us by (simp_all add: changing_def user_ops_def)
  show "rev_inv (h(Suc (unat (rv_Current d)) := uview (revdb_put k v d))) (revdb_put k v d)"
    "uview (revdb_put k v d) = (uview d)(k \<mapsto> v)"
    unfolding eq using revdb_Write_enabled [OF inv room on ch(2,1)] by simp_all
qed

section \<open>Reverting restores the rows\<close>

text \<open>A scan over part of the log gives its entries, the newest first.\<close>

lemma distinct_keys_sort: "distinct (map fst (sort_key f xs)) = distinct (map fst xs)"
  by (metis mset_eq_imp_distinct_iff mset_map mset_sort)

lemma assoc_list_eqI:
  assumes "map fst xs = map fst ys" and "distinct (map fst xs)" and "set xs = set ys"
  shows "xs = ys"
proof -
  have rebuild: "distinct (map fst zs) \<Longrightarrow> map (\<lambda>k. (k, the (map_of zs k))) (map fst zs) = zs"
    for zs :: "('a \<times> 'b) list"
    by (auto intro!: map_idI)
  have "map_of xs = map_of ys" using assms by (simp add: map_of_inject_set)
  with rebuild [of xs] rebuild [of ys] assms(1,2) show ?thesis by metis
qed

definition log_rows :: "revdb \<Rightarrow> nat \<Rightarrow> nat \<Rightarrow> (bytes \<times> dbval) list" where
  "log_rows d lo hi =
     map (\<lambda>i. (keyOfReversionOp (of_nat i), the (log_at d i)))
       (filter (\<lambda>i. log_at d i \<noteq> None) (rev [lo..<hi]))"

lemma sorted_keys_rev:
  assumes "\<forall>i \<in> set xs. i < 2 ^ 64" and "sorted xs" and "distinct xs"
  shows "sorted (map (\<lambda>i. keyOfReversionOp (of_nat i)) (rev xs))"
proof -
  have "keyOfReversionOp (of_nat j) \<le> keyOfReversionOp (of_nat i)" if "i \<le> j" "j < 2 ^ 64" for i j
    using that by (simp add: not_less [symmetric] key_less_iff)
      (simp add: word_less_nat_alt unat_of_nat not_less)
  then have "sorted_wrt (\<lambda>i j. keyOfReversionOp (of_nat i) \<le> keyOfReversionOp (of_nat j)) (rev xs)"
    using assms(1,2) by (auto simp: sorted_wrt_rev intro: sorted_wrt_mono_rel)
  then show ?thesis by (simp add: sorted_map)
qed

lemma log_scan:
  assumes inv: "rev_inv h d"
    and range: "\<And>r. in_range (Some lo) (Some hi) (keyOfReversionOp r) \<longleftrightarrow> a \<le> unat r \<and> unat r < b"
    and bounds: "min_op_key \<le> lo" "hi \<le> max_op_key" "unat (rv_Base d) \<le> a" "b \<le> 2 ^ 64"
  shows "db_Iterate (Some lo) (Some hi) False (rv_db d) = log_rows d a (min b (unat (rv_Current d)))"
proof (rule assoc_list_eqI)
  let ?scan = "db_Iterate (Some lo) (Some hi) False (rv_db d)"
  let ?c = "unat (rv_Current d)"
  let ?is = "filter (\<lambda>i. log_at d i \<noteq> None) [a..<min b ?c]"
  have ok: "tbl_ok (rv_db d)" using inv by (simp add: rev_inv_def)
  have c64: "?c < 2 ^ 64" using unat_hex [of "rv_Current d"] by simp
  show same: "set ?scan = set (log_rows d a (min b ?c))"
  proof (intro equalityI subsetI)
    fix kv
    assume "kv \<in> set ?scan"
    then obtain k v where kv: "kv = (k, v)" "(k, v) \<in> set (rv_db d)" and k: "in_range (Some lo) (Some hi) k"
      by (auto simp: set_db_Iterate)
    have get: "db_Get (rv_db d) k = Some v" using tbl_set_get [OF ok kv(2)] by (simp add: db_Get_def)
    have "min_op_key \<le> k" "k < max_op_key" using k bounds by (auto simp: in_range_def)
    then obtain r where r: "k = keyOfReversionOp r" "rv_Base d \<le> r" "r < rv_Current d"
      using inv get by (auto simp: rev_inv_def)
    have "a \<le> unat r" "unat r < b" using range [of r] k r(1) by auto
    moreover have "unat r < ?c" using r(3) by (simp add: word_less_nat_alt)
    ultimately show "kv \<in> set (log_rows d a (min b ?c))"
      using get r(1) kv(1) by (force simp: log_rows_def log_at_def)
  next
    fix kv
    assume "kv \<in> set (log_rows d a (min b ?c))"
    then obtain i v where i: "a \<le> i" "i < b" "i < ?c" and v: "log_at d i = Some v"
      and kv: "kv = (keyOfReversionOp (of_nat i), v)"
      by (auto simp: log_rows_def)
    have "unat (of_nat i :: u64) = i" using i c64 by (simp add: unat_of_nat)
    with range [of "of_nat i"] i have "in_range (Some lo) (Some hi) (keyOfReversionOp (of_nat i))" by simp
    with v kv show "kv \<in> set ?scan"
      by (auto simp: set_db_Iterate log_at_def db_Get_def dest: tbl_get_set)
  qed
  have dist: "distinct (map fst (rv_db d))" using ok by (simp add: tbl_ok_def)
  then show dscan: "distinct (map fst ?scan)"
    by (simp add: db_Iterate_def distinct_keys_sort distinct_map_filter)
  have srt: "sorted (map fst ?scan)" by (simp add: db_Iterate_def)
  have rows: "map fst (log_rows d a (min b ?c)) = map (\<lambda>i. keyOfReversionOp (of_nat i)) (rev ?is)"
    by (simp add: log_rows_def rev_filter [symmetric])
  have "sorted (map (\<lambda>i. keyOfReversionOp (of_nat i)) (rev ?is))"
    using c64 by (intro sorted_keys_rev) (auto simp: sorted_wrt_filter)
  moreover have "distinct (map (\<lambda>i. keyOfReversionOp (of_nat i)) (rev ?is))"
  proof -
    have "inj_on (\<lambda>i. keyOfReversionOp (of_nat i)) (set (rev ?is))"
    proof (rule inj_onI)
      fix i j
      assume "i \<in> set (rev ?is)" "j \<in> set (rev ?is)" "keyOfReversionOp (of_nat i) = keyOfReversionOp (of_nat j)"
      then have "i < 2 ^ 64" "j < 2 ^ 64" "(of_nat i :: u64) = of_nat j" using c64 by auto
      then show "i = j" by (metis unat_of_nat64)
    qed
    then show ?thesis by (simp add: distinct_map)
  qed
  ultimately have "sorted (map fst (log_rows d a (min b ?c)))" "distinct (map fst (log_rows d a (min b ?c)))"
    unfolding rows by simp_all
  moreover have "set (map fst ?scan) = set (map fst (log_rows d a (min b ?c)))"
    by (simp only: set_map same)
  ultimately show "map fst ?scan = map fst (log_rows d a (min b ?c))"
    using srt dscan by (intro sorted_distinct_set_unique)
qed

lemma log_rows_Suc:
  "lo \<le> hi \<Longrightarrow> log_rows d lo (Suc hi) =
     (case log_at d hi of None \<Rightarrow> [] | Some v \<Rightarrow> [(keyOfReversionOp (of_nat hi), v)]) @ log_rows d lo hi"
  by (auto simp: log_rows_def split: option.splits)

lemma log_rows_same [simp]: "log_rows d lo lo = []"
  by (simp add: log_rows_def)

definition logged_keys :: "revdb \<Rightarrow> nat \<Rightarrow> nat \<Rightarrow> bytes set" where
  "logged_keys d lo hi = (\<lambda>i. keyOfReversionOp (of_nat i)) ` {i. lo \<le> i \<and> i < hi \<and> log_at d i \<noteq> None}"

lemma revert_log:
  assumes "lo \<le> hi" and "\<And>i. lo \<le> i \<Longrightarrow> i < hi \<Longrightarrow> entry_ok (log_at d i) (h (Suc i)) (h i)"
  shows "\<exists>ops. revert_ops (log_rows d lo hi) = Some ops \<and>
    (\<forall>m. user_part m = h hi \<longrightarrow> user_part (apply_ops ops m) = h lo) \<and>
    (\<forall>m k. \<not> user_key k \<longrightarrow> apply_ops ops m k = (if k \<in> logged_keys d lo hi then None else m k))"
  using assms
proof (induction hi rule: nat_induct_at_least)
  case base
  then show ?case by (auto simp: logged_keys_def)
next
  case (Suc hi)
  from Suc.IH Suc.prems obtain ops where ops: "revert_ops (log_rows d lo hi) = Some ops"
    "\<And>m. user_part m = h hi \<Longrightarrow> user_part (apply_ops ops m) = h lo"
    "\<And>m k. \<not> user_key k \<Longrightarrow> apply_ops ops m k = (if k \<in> logged_keys d lo hi then None else m k)"
    by auto
  have entry: "entry_ok (log_at d hi) (h (Suc hi)) (h hi)" using Suc.prems Suc.hyps by simp
  show ?case
  proof (cases "log_at d hi")
    case None
    then have "logged_keys d lo (Suc hi) = logged_keys d lo hi"
      by (auto simp: logged_keys_def less_Suc_eq)
    with None entry ops show ?thesis
      by (simp add: log_rows_Suc [OF Suc.hyps] entry_ok_def)
  next
    case (Some v)
    with entry obtain us where us: "decodeWriteOpSlice v = Some us" "user_ops us" "apply_ops us (h (Suc hi)) = h hi"
      by (auto simp: entry_ok_def)
    let ?k = "keyOfReversionOp (of_nat hi)"
    have keys: "logged_keys d lo (Suc hi) = insert ?k (logged_keys d lo hi)"
      using Some Suc.hyps by (auto simp: logged_keys_def less_Suc_eq)
    have rows: "revert_ops (log_rows d lo (Suc hi)) = Some (Del ?k # us @ ops)"
      using Some us(1) ops(1) by (simp add: log_rows_Suc [OF Suc.hyps])
    have "user_part (apply_ops (Del ?k # us @ ops) m) = h lo" if m: "user_part m = h (Suc hi)" for m
    proof -
      have "user_part (m(?k := None)) = user_part m" by (auto simp: user_part_def fun_eq_iff)
      with m have "user_part (m(?k := None)) = h (Suc hi)" by simp
      then have "user_part (apply_ops us (m(?k := None))) = h hi"
        using us by (simp add: user_part_apply)
      from ops(2) [OF this] show ?thesis by simp
    qed
    moreover have "apply_ops (Del ?k # us @ ops) m k = (if k \<in> logged_keys d lo (Suc hi) then None else m k)"
      if k: "\<not> user_key k" for m k
    proof -
      have "k \<notin> op_Key ` set us" using us(2) k by (auto simp: user_ops_def)
      then have "apply_ops us (m(?k := None)) k = (m(?k := None)) k" by (rule untouched)
      then show ?thesis
        unfolding keys using ops(3) [OF k, of "apply_ops us (m(?k := None))"] by auto
    qed
    ultimately show ?thesis using rows by auto
  qed
qed

lemma cleanRevTags_frame [simp]:
  "rv_db (cleanRevTags c b d) = rv_db d" "rv_Current (cleanRevTags c b d) = rv_Current d"
  "rv_Base (cleanRevTags c b d) = rv_Base d" "rv_enable (cleanRevTags c b d) = rv_enable d"
  "rv_presetTag (cleanRevTags c b d) = rv_presetTag d"
  by (simp_all add: cleanRevTags_def Let_def)

lemma op_Key_tags_op [simp]: "op_Key (tags_op d) = key_rev_tags"
  by (simp add: tags_op_def)

lemma key_range_below:
  assumes "0 < r"
  shows "in_range (Some min_op_key) (Some (keyOfReversionOp (r - 1))) (keyOfReversionOp q) \<longleftrightarrow>
         unat r \<le> unat q \<and> unat q < 2 ^ 64"
proof -
  have "unat (r - 1) = unat r - 1" using assms by (simp add: unat_minus_one word_neq_0_conv)
  moreover have "unat r > 0" using assms by (simp add: word_less_nat_alt)
  ultimately show ?thesis
    using key_bounds(1) [of q] unat_hex [of q] by (auto simp: in_range_def key_less_iff word_less_nat_alt)
qed

lemma key_range_all:
  "in_range (Some min_op_key) (Some max_op_key) (keyOfReversionOp q) \<longleftrightarrow> 0 \<le> unat q \<and> unat q < 2 ^ 64"
  using key_bounds [of q] unat_hex [of q] by (simp add: in_range_def)

text \<open>Dropping part of the log at either end keeps the invariant for the rest.\<close>

lemma rev_inv_truncate:
  assumes inv: "rev_inv h d" and ok: "tbl_ok (rv_db d')"
    and bounds: "rv_Base d \<le> rv_Base d'" "rv_Base d' \<le> rv_Current d'" "rv_Current d' \<le> rv_Current d"
    and view: "uview d' = h (unat (rv_Current d'))"
    and log: "\<And>q. db_Get (rv_db d') (keyOfReversionOp q) =
      (if rv_Base d' \<le> q \<and> q < rv_Current d' then db_Get (rv_db d) (keyOfReversionOp q) else None)"
    and fewer: "\<And>k. min_op_key \<le> k \<Longrightarrow> k < max_op_key \<Longrightarrow> db_Get (rv_db d') k \<noteq> None \<Longrightarrow>
      db_Get (rv_db d) k \<noteq> None"
  shows "rev_inv h d'"
proof -
  have "entry_ok (log_at d' i) (h (Suc i)) (h i)"
    if i: "unat (rv_Base d') \<le> i" "i < unat (rv_Current d')" for i
  proof -
    have "unat (of_nat i :: u64) = i"
      using i(2) unat_hex [of "rv_Current d'"] by (intro unat_of_nat64) simp
    then have "log_at d' i = log_at d i"
      using log [of "of_nat i"] i by (simp add: log_at_def word_le_nat_alt word_less_nat_alt)
    moreover have "unat (rv_Base d) \<le> i" "i < unat (rv_Current d)"
      using i bounds by (auto simp: word_le_nat_alt)
    ultimately show ?thesis using inv by (simp add: rev_inv_def)
  qed
  moreover have "\<exists>q. k = keyOfReversionOp q \<and> rv_Base d' \<le> q \<and> q < rv_Current d'"
    if k: "db_Get (rv_db d') k \<noteq> None" "min_op_key \<le> k" "k < max_op_key" for k
  proof -
    obtain q where "k = keyOfReversionOp q"
      using inv fewer [OF k(2,3,1)] k(2,3) unfolding rev_inv_def by blast
    with k(1) log [of q] show ?thesis by (auto split: if_splits)
  qed
  ultimately show ?thesis using ok bounds view by (simp add: rev_inv_def)
qed

lemma logged_keys_iff:
  assumes "hi \<le> 2 ^ 64"
  shows "keyOfReversionOp q \<in> logged_keys d lo hi \<longleftrightarrow>
    lo \<le> unat q \<and> unat q < hi \<and> db_Get (rv_db d) (keyOfReversionOp q) \<noteq> None"
proof -
  have "(\<exists>i. q = of_nat i \<and> lo \<le> i \<and> i < hi \<and> log_at d i \<noteq> None) \<longleftrightarrow>
      lo \<le> unat q \<and> unat q < hi \<and> log_at d (unat q) \<noteq> None"
    using assms by (auto simp: unat_of_nat64) (metis of_nat_unat ucast_id)+
  then show ?thesis by (auto simp: logged_keys_def log_at_def)
qed

lemma revert_restores:
  assumes inv: "rev_inv h d" and r: "rv_Base d \<le> r" "r \<le> rv_Current d"
  obtains d' where "revertToRevision r d = (d', None)" "rev_inv h d'" "uview d' = h (unat r)"
    "rv_Current d' = r" "rv_Base d' = rv_Base d" "rv_enable d' = rv_enable d"
    "rv_Rev2Tag d' = (if r = rv_Current d then rv_Rev2Tag d else rv_Rev2Tag (cleanRevTags r (rv_Base d) d))"
    "rv_Tag2Rev d' = (if r = rv_Current d then rv_Tag2Rev d else rv_Tag2Rev (cleanRevTags r (rv_Base d) d))"
    "rv_presetTag d' = rv_presetTag d"
proof (cases "r = rv_Current d")
  case True
  have "revertToRevision r d = (d, None)" using r True by (simp add: revertToRevision_def)
  moreover have "h (unat (rv_Current d)) = uview d" using inv by (simp add: rev_inv_def)
  ultimately show thesis by (intro that [of d]) (use inv True in simp_all)
next
  case False
  let ?c = "unat (rv_Current d)"
  let ?limit = "if r > 0 then keyOfReversionOp (r - 1) else max_op_key"
  have rc: "unat r < ?c" "unat (rv_Base d) \<le> unat r"
    using r False by (auto simp: word_le_nat_alt order_le_less word_unat_eq_iff)
  have ok: "tbl_ok (rv_db d)" using inv by (simp add: rev_inv_def)
  have "db_Iterate (Some min_op_key) (Some ?limit) False (rv_db d) = log_rows d (unat r) (min (2 ^ 64) ?c)"
  proof (cases "r > 0")
    case True
    have "db_Iterate (Some min_op_key) (Some (keyOfReversionOp (r - 1))) False (rv_db d) =
        log_rows d (unat r) (min (2 ^ 64) ?c)"
      by (rule log_scan [OF inv key_range_below [OF True]])
         (use key_bounds(2) [of "r - 1"] rc in \<open>simp_all add: less_imp_le\<close>)
    with True show ?thesis by simp
  next
    case False
    then have r0: "unat r = 0" by (simp add: word_less_nat_alt)
    have "db_Iterate (Some min_op_key) (Some max_op_key) False (rv_db d) = log_rows d 0 (min (2 ^ 64) ?c)"
      by (rule log_scan [OF inv key_range_all]) (use rc r0 in simp_all)
    with False r0 show ?thesis by simp
  qed
  then have scan: "db_Iterate (Some min_op_key) (Some ?limit) False (rv_db d) = log_rows d (unat r) ?c"
    using unat_hex [of "rv_Current d"] by (simp add: min_absorb2)
  have entries: "entry_ok (log_at d i) (h (Suc i)) (h i)" if "unat r \<le> i" "i < ?c" for i
    using inv that rc by (auto simp: rev_inv_def)
  obtain ops where ops: "revert_ops (log_rows d (unat r) ?c) = Some ops"
    "\<And>m. user_part m = h ?c \<Longrightarrow> user_part (apply_ops ops m) = h (unat r)"
    "\<And>m k. \<not> user_key k \<Longrightarrow> apply_ops ops m k = (if k \<in> logged_keys d (unat r) ?c then None else m k)"
    using revert_log [of "unat r" ?c d h, OF less_imp_le [OF rc(1)] entries] by blast
  define d1 where "d1 = cleanRevTags r (rv_Base d) d"
  let ?ms = "[Put key_rev_num (GobRevNumber r (rv_Base d)), tags_op d1]"
  let ?d = "d1\<lparr>rv_db := db_Write (ops @ ?ms) (rv_db d), rv_Current := r\<rparr>"
  have run: "revertToRevision r d = (?d, None)"
    using r False ops(1) scan by (simp add: revertToRevision_def Let_def d1_def not_less [symmetric])
  have get: "db_Get (rv_db ?d) = apply_ops ?ms (apply_ops ops (db_Get (rv_db d)))"
    using db_Get_Write [OF ok, of "ops @ ?ms"] by simp
  have cur: "user_part (db_Get (rv_db d)) = h ?c"
    using inv by (simp add: rev_inv_def uview_user_part revdb_Get_def [abs_def])
  have view: "uview ?d = h (unat r)"
    using ops(2) [OF cur] user_part_meta [of ?ms]
    unfolding uview_user_part revdb_Get_def [abs_def] get by simp
  have meta: "db_Get (rv_db ?d) k = (if k \<in> logged_keys d (unat r) ?c then None else db_Get (rv_db d) k)"
    if "\<not> user_key k" "k \<noteq> key_rev_num" "k \<noteq> key_rev_tags" for k
    unfolding get using ops(3) that by (simp add: tags_op_def)
  have log: "db_Get (rv_db ?d) (keyOfReversionOp q) =
      (if rv_Base d \<le> q \<and> q < r then db_Get (rv_db d) (keyOfReversionOp q) else None)" for q
  proof -
    have "db_Get (rv_db d) (keyOfReversionOp q) = None" if "\<not> (rv_Base d \<le> q \<and> q < rv_Current d)"
      using inv that key_bounds [of q] by (auto simp: rev_inv_def)
    moreover have "keyOfReversionOp q \<in> logged_keys d (unat r) ?c \<longleftrightarrow>
        r \<le> q \<and> q < rv_Current d \<and> db_Get (rv_db d) (keyOfReversionOp q) \<noteq> None"
      using logged_keys_iff [of ?c q d "unat r"] unat_hex [of "rv_Current d"]
      by (simp add: word_le_nat_alt word_less_nat_alt)
    ultimately show ?thesis using meta [of "keyOfReversionOp q"] by (auto simp: not_le)
  qed
  have "rev_inv h ?d"
  proof (rule rev_inv_truncate [OF inv])
    fix k
    assume k: "min_op_key \<le> k" "k < max_op_key" "db_Get (rv_db ?d) k \<noteq> None"
    have "k \<noteq> key_rev_num" "k \<noteq> key_rev_tags" using k(2) rev_keys_outside by auto
    with meta [of k] op_range_meta [OF k(1,2)] k(3) show "db_Get (rv_db d) k \<noteq> None"
      by (auto split: if_splits)
  qed (use r ok view log in \<open>simp_all add: d1_def\<close>)
  then show thesis
    by (intro that [OF run]) (use view False in \<open>simp_all add: d1_def\<close>)
qed

text \<open>Rebasing keeps the rows and the log from the new base on.\<close>

lemma key_range_above:
  assumes "0 < r"
  shows "in_range (Some (keyOfReversionOp (r - 1))) (Some max_op_key) (keyOfReversionOp q) \<longleftrightarrow>
         0 \<le> unat q \<and> unat q < unat r"
proof -
  have "unat (r - 1) = unat r - 1" using assms by (simp add: unat_minus_one word_neq_0_conv)
  moreover have "unat r > 0" using assms by (simp add: word_less_nat_alt)
  ultimately show ?thesis
    using key_bounds(2) [of q]
    by (auto simp: in_range_def key_less_iff word_less_nat_alt not_less [symmetric])
qed

lemma deletes_apply: "apply_ops (map Del ks) m k = (if k \<in> set ks then None else m k)"
  by (induction ks arbitrary: m) auto

lemma rebase_keeps:
  assumes inv: "rev_inv h d" and r: "rv_Base d \<le> r" "r \<le> rv_Current d"
  obtains d' where "rebaseToRevision r d = (d', None)" "rev_inv h d'" "uview d' = uview d"
    "rv_Current d' = rv_Current d" "rv_Base d' = r" "rv_enable d' = rv_enable d"
    "rv_Rev2Tag d' = (if r = rv_Base d then rv_Rev2Tag d else rv_Rev2Tag (cleanRevTags (rv_Current d) r d))"
    "rv_Tag2Rev d' = (if r = rv_Base d then rv_Tag2Rev d else rv_Tag2Rev (cleanRevTags (rv_Current d) r d))"
    "rv_presetTag d' = rv_presetTag d"
proof (cases "r = rv_Base d")
  case True
  have "rebaseToRevision r d = (d, None)" using r True by (simp add: rebaseToRevision_def)
  then show thesis by (intro that [of d]) (use inv True in simp_all)
next
  case False
  then have r0: "0 < r" using r(1) by (metis less_le_trans order_le_less word_neq_0_conv word_zero_le)
  let ?rows = "db_Iterate (Some (keyOfReversionOp (r - 1))) (Some max_op_key) False (rv_db d)"
  define d1 where "d1 = cleanRevTags (rv_Current d) r d"
  let ?ms = "[Put key_rev_num (GobRevNumber (rv_Current d) r), tags_op d1]"
  let ?d = "d1\<lparr>rv_db := db_Write (map Del (map fst ?rows) @ ?ms) (rv_db d), rv_Base := r\<rparr>"
  have ok: "tbl_ok (rv_db d)" using inv by (simp add: rev_inv_def)
  have run: "rebaseToRevision r d = (?d, None)"
    using r False r0
    by (simp add: rebaseToRevision_def Let_def d1_def not_less [symmetric] case_prod_unfold comp_def)
  have get: "db_Get (rv_db ?d) = apply_ops ?ms (apply_ops (map Del (map fst ?rows)) (db_Get (rv_db d)))"
    using db_Get_Write [OF ok, of "map Del (map fst ?rows) @ ?ms"] by simp
  have rows: "fst ` set ?rows = {k. db_Get (rv_db d) k \<noteq> None \<and> keyOfReversionOp (r - 1) \<le> k \<and> k < max_op_key}"
  proof -
    have "fst ` set ?rows = {k \<in> fst ` set (rv_db d). keyOfReversionOp (r - 1) \<le> k \<and> k < max_op_key}"
      by (auto simp: set_db_Iterate in_range_def image_iff Bex_def)
    then show ?thesis by (simp only: db_Get_def tbl_get_None_iff not_not)
  qed
  have low: "min_op_key \<le> k" if "keyOfReversionOp (r - 1) \<le> k" for k
    using that key_bounds(1) [of "r - 1"] by simp
  have meta: "db_Get (rv_db ?d) k = (if k \<in> fst ` set ?rows then None else db_Get (rv_db d) k)"
    if "k \<noteq> key_rev_num" "k \<noteq> key_rev_tags" for k
    unfolding get using that by (simp add: tags_op_def deletes_apply del: map_map)
  have "user_part (db_Get (rv_db ?d)) = user_part (db_Get (rv_db d))"
  proof
    fix k
    show "user_part (db_Get (rv_db ?d)) k = user_part (db_Get (rv_db d)) k"
    proof (cases "user_key k")
      case True
      then have "k \<noteq> key_rev_num" "k \<noteq> key_rev_tags" by auto
      moreover have "k \<notin> fst ` set ?rows" using True op_range_meta low by (auto simp: rows)
      ultimately show ?thesis using meta [of k] by (simp add: user_part_def)
    qed (simp add: user_part_def)
  qed
  then have view: "uview ?d = uview d" by (simp add: uview_user_part revdb_Get_def [abs_def])
  have cur: "h (unat (rv_Current d)) = uview d" using inv by (simp add: rev_inv_def)
  have log: "db_Get (rv_db ?d) (keyOfReversionOp q) =
      (if r \<le> q \<and> q < rv_Current d then db_Get (rv_db d) (keyOfReversionOp q) else None)" for q
  proof -
    have "db_Get (rv_db d) (keyOfReversionOp q) = None" if "\<not> q < rv_Current d"
      using inv that key_bounds [of q] by (auto simp: rev_inv_def)
    moreover have "keyOfReversionOp (r - 1) \<le> keyOfReversionOp q \<longleftrightarrow> q < r"
      using key_range_above [OF r0, of q] key_bounds(2) [of q]
      by (simp add: in_range_def word_less_nat_alt)
    ultimately show ?thesis
      using meta [of "keyOfReversionOp q"] key_bounds(2) [of q] rows by (auto simp: not_le)
  qed
  have "rev_inv h ?d"
  proof (rule rev_inv_truncate [OF inv])
    fix k
    assume k: "min_op_key \<le> k" "k < max_op_key" "db_Get (rv_db ?d) k \<noteq> None"
    have "k \<noteq> key_rev_num" "k \<noteq> key_rev_tags" using k(2) rev_keys_outside by auto
    with meta [of k] k(3) show "db_Get (rv_db d) k \<noteq> None" by (auto split: if_splits)
  qed (use r ok view cur log in \<open>simp_all add: d1_def\<close>)
  then show thesis
    by (intro that [OF run]) (use view False in \<open>simp_all add: d1_def\<close>)
qed

section \<open>Sequences of batches\<close>

definition write_all :: "dbval writeOp list list \<Rightarrow> revdb \<Rightarrow> revdb" where
  "write_all bs d = fold revdb_Write bs d"

fun changing_run :: "revdb \<Rightarrow> dbval writeOp list list \<Rightarrow> bool" where
  "changing_run d [] = True"
| "changing_run d (b # bs) = (user_ops b \<and> changing d b \<and> changing_run (revdb_Write b d) bs)"

lemma fresh_rev_inv:
  assumes "tbl_ok st" and "\<forall>k \<in> fst ` set st. user_key k"
  shows "rev_inv (\<lambda>_. uview (NewRevertibleDatabase st)) (NewRevertibleDatabase st)"
    and "rv_Current (NewRevertibleDatabase st) = 0" and "rv_Base (NewRevertibleDatabase st) = 0"
    and "rv_enable (NewRevertibleDatabase st)"
proof -
  have none: "db_Get st k = None" if "\<not> user_key k" for k
    using assms(2) that by (auto simp: db_Get_def tbl_get_None_iff)
  have eq: "NewRevertibleDatabase st = \<lparr>rv_db = st, rv_Current = 0, rv_Base = 0, rv_Rev2Tag = [],
      rv_Tag2Rev = [], rv_presetTag = '''', rv_enable = True\<rparr>"
    by (simp add: NewRevertibleDatabase_def none)
  show "rev_inv (\<lambda>_. uview (NewRevertibleDatabase st)) (NewRevertibleDatabase st)"
    using assms(1) none op_range_meta by (auto simp: rev_inv_def eq)
  show "rv_Current (NewRevertibleDatabase st) = 0" "rv_Base (NewRevertibleDatabase st) = 0"
    "rv_enable (NewRevertibleDatabase st)"
    by (simp_all add: eq)
qed

lemma write_all_history:
  assumes "rev_inv h d" and "rv_enable d" and "changing_run d bs" and "unat (rv_Current d) + length bs < 2 ^ 64"
  shows "\<exists>h'. rev_inv h' (write_all bs d) \<and> rv_enable (write_all bs d) \<and>
    unat (rv_Current (write_all bs d)) = unat (rv_Current d) + length bs \<and>
    rv_Base (write_all bs d) = rv_Base d \<and>
    (\<forall>i \<le> unat (rv_Current d). h' i = h i) \<and>
    (\<forall>n \<le> length bs. h' (unat (rv_Current d) + n) = uview (write_all (take n bs) d))"
  using assms
proof (induction bs arbitrary: h d)
  case Nil
  then have "h (unat (rv_Current d)) = uview d" by (simp add: rev_inv_def)
  with Nil show ?case by (auto simp: write_all_def intro!: exI [of _ h])
next
  case (Cons b bs)
  let ?d = "revdb_Write b d"
  let ?c = "unat (rv_Current d)"
  have room: "?c < 2 ^ 64 - 1" using Cons.prems(4) by simp
  have run: "user_ops b" "changing d b" "changing_run ?d bs" using Cons.prems(3) by simp_all
  note w = revdb_Write_enabled [OF Cons.prems(1) room Cons.prems(2) run(1,2)]
  have cur: "unat (rv_Current ?d) = Suc ?c" using unat_plus_1 [OF room] w(3) by simp
  have "unat (rv_Current ?d) + length bs < 2 ^ 64" using Cons.prems(4) cur by simp
  from Cons.IH [OF w(1,5) run(3) this] obtain h' where h': "rev_inv h' (write_all bs ?d)"
    "rv_enable (write_all bs ?d)" "unat (rv_Current (write_all bs ?d)) = Suc ?c + length bs"
    "rv_Base (write_all bs ?d) = rv_Base d"
    "\<And>i. i \<le> Suc ?c \<Longrightarrow> h' i = (h(Suc ?c := uview ?d)) i"
    "\<And>n. n \<le> length bs \<Longrightarrow> h' (Suc ?c + n) = uview (write_all (take n bs) ?d)"
    by (auto simp: cur w(4))
  have cons: "write_all (b # bs) d = write_all bs ?d" by (simp add: write_all_def)
  have now: "h ?c = uview d" using Cons.prems(1) by (simp add: rev_inv_def)
  have "h' (?c + n) = uview (write_all (take n (b # bs)) d)" if n: "n \<le> length (b # bs)" for n
  proof (cases n)
    case 0
    then show ?thesis using h'(5) [of ?c] now by (simp add: write_all_def)
  next
    case (Suc m)
    then show ?thesis using h'(6) [of m] n by (simp add: write_all_def)
  qed
  moreover have "h' i = h i" if "i \<le> ?c" for i using h'(5) [of i] that by simp
  ultimately show ?case using h'(1-4) cons by (intro exI [of _ h']) auto
qed

text \<open>C39. The revertible database goes back in time: after any sequence of batches on a fresh database, each of which changes something, reverting to an earlier revision succeeds and leaves exactly the rows that were there after that many batches.\<close>

theorem revert_undoes_writes:
  assumes "tbl_ok st" and "\<forall>k \<in> fst ` set st. user_key k"
    and "changing_run (NewRevertibleDatabase st) bs" and "length bs < 2 ^ 64" and "n \<le> length bs"
  shows "\<exists>d. RevertToRevision (of_nat n) (write_all bs (NewRevertibleDatabase st)) = (d, None) \<and>
    uview d = uview (write_all (take n bs) (NewRevertibleDatabase st)) \<and> rv_Current d = of_nat n"
proof -
  let ?d = "NewRevertibleDatabase st"
  let ?r = "of_nat n :: u64"
  note fresh = fresh_rev_inv [OF assms(1,2)]
  obtain h where h: "rev_inv h (write_all bs ?d)" "rv_enable (write_all bs ?d)"
    "unat (rv_Current (write_all bs ?d)) = length bs" "rv_Base (write_all bs ?d) = 0"
    "h n = uview (write_all (take n bs) ?d)"
    using write_all_history [OF fresh(1,4) assms(3)] assms(4,5) fresh(2,3) by auto
  have n: "unat ?r = n" using assms(4,5) by (intro unat_of_nat64) simp
  have "rv_Base (write_all bs ?d) \<le> ?r" using h(4) by simp
  moreover have "?r \<le> rv_Current (write_all bs ?d)" using h(3) n assms(5) by (simp add: word_le_nat_alt)
  ultimately obtain d where "revertToRevision ?r (write_all bs ?d) = (d, None)" "uview d = h (unat ?r)"
    "rv_Current d = ?r"
    by (rule revert_restores [OF h(1)])
  with h(2,5) n show ?thesis by (auto simp: RevertToRevision_def)
qed

theorem revert_undoes_writes_witness:
  "\<exists>d. RevertToRevision (of_nat 1) (write_all [[Put [1] (Raw [5])], [Put [1] (Raw [6]), Put [2] (Raw [])]]
      (NewRevertibleDatabase [([3], Raw [7])])) = (d, None) \<and>
    uview d = uview (write_all [[Put [1] (Raw [5])]] (NewRevertibleDatabase [([3], Raw [7])])) \<and>
    rv_Current d = of_nat 1"
  using revert_undoes_writes [of "[([3], Raw [7])]"
      "[[Put [1] (Raw [5])], [Put [1] (Raw [6]), Put [2] (Raw [])]]" 1]
  by (simp add: tbl_ok_def user_key_def user_ops_def changing_def info_prefix_def bytes_of_string_def)

text \<open>A log entry without operations cannot be read back.\<close>

lemma revert_ops_unreadable:
  "(k, v) \<in> set rows \<Longrightarrow> decodeWriteOpSlice v = None \<Longrightarrow> revert_ops rows = None"
  by (induction rows rule: revert_ops.induct) (auto split: option.splits)

text \<open>C40. A batch whose operations all turn out to be deletions of rows that are not there still advances the revision, and its log entry is an empty list that decodes to nil: from then on the database cannot be reverted to the revision before the batch.\<close>

theorem empty_undo_blocks_revert:
  assumes "rev_inv h d" and "rv_enable d" and "unat (rv_Current d) < 2 ^ 64 - 1"
    and "user_ops ops" and "ops \<noteq> []" and "\<not> changing d ops"
  shows "rv_Current (revdb_Write ops d) = rv_Current d + 1 \<and>
    RevertToRevision (rv_Current d) (revdb_Write ops d) = (revdb_Write ops d, Some ''invalid revision log'')"
proof -
  let ?c = "rv_Current d"
  let ?d = "revdb_Write ops d"
  obtain d1 tag_ops where tag: "applyPresetTag (?c + 1) d = (d1, tag_ops)" by force
  note tag1 = applyPresetTag_ops [OF tag]
  have none: "filter (effective d) (shrunk ops) = []"
    using assms(6) by (auto simp: changing_def filter_empty_conv)
  have eq: "?d = d1\<lparr>rv_db := db_Write (Put (keyOfReversionOp ?c) (GobWriteOps []) #
      (rev_number_op (?c + 1) d # tag_ops)) (rv_db d), rv_Current := ?c + 1\<rparr>"
    using assms(2,5) tag none
    by (simp add: revdb_Write_def shrink_eq shrunk_empty_iff Let_def undo_ops_def)
  have base: "rv_Base d \<le> ?c" and ok: "tbl_ok (rv_db d)" using assms(1) by (simp_all add: rev_inv_def)
  have "keyOfReversionOp ?c \<notin> op_Key ` set tag_ops" using tag1 by (auto dest: sym)
  then have get: "db_Get (rv_db ?d) (keyOfReversionOp ?c) = Some (GobWriteOps [])"
    using db_Get_Write [OF ok, of "Put (keyOfReversionOp ?c) (GobWriteOps []) # (rev_number_op (?c + 1) d # tag_ops)"]
    by (simp add: eq untouched rev_number_op_def)
  let ?limit = "if ?c > 0 then keyOfReversionOp (?c - 1) else max_op_key"
  have "in_range (Some min_op_key) (Some ?limit) (keyOfReversionOp ?c)"
    using key_range_below [of ?c ?c] key_range_all [of ?c] unat_hex [of ?c] by auto
  with get have "(keyOfReversionOp ?c, GobWriteOps []) \<in>
      set (db_Iterate (Some min_op_key) (Some ?limit) False (rv_db ?d))"
    by (auto simp: set_db_Iterate db_Get_def dest: tbl_get_set)
  from revert_ops_unreadable [OF this] have
    fail: "revert_ops (db_Iterate (Some min_op_key) (Some ?limit) False (rv_db ?d)) = None" by simp
  have "?c < ?c + 1" using less_plus_1 [OF assms(3), of ?c] by simp
  then have "revertToRevision ?c ?d = (?d, Some ''invalid revision log'')"
    using fail base tag1 by (simp add: revertToRevision_def eq Let_def not_less [symmetric])
  then show ?thesis using eq tag1 assms(2) by (simp add: RevertToRevision_def)
qed

theorem empty_undo_blocks_revert_witness:
  "RevertToRevision 0 (revdb_Write [Put [1] (Raw [5]), Del [1]] (NewRevertibleDatabase [])) =
     (revdb_Write [Put [1] (Raw [5]), Del [1]] (NewRevertibleDatabase []), Some ''invalid revision log'')"
proof -
  note fresh = fresh_rev_inv [of "[]", simplified tbl_ok_def, simplified]
  have "\<not> changing (NewRevertibleDatabase []) [Put [1] (Raw [5]), Del [1]]"
    by (simp add: changing_def NewRevertibleDatabase_def revdb_Get_def db_Get_def)
  moreover have "user_ops [Put [1] (Raw [5]), Del [1]]"
    by (simp add: user_ops_def user_key_def info_prefix_def bytes_of_string_def)
  ultimately show ?thesis
    using empty_undo_blocks_revert [OF fresh(1,4), of "[Put [1] (Raw [5]), Del [1]]"] fresh(2) by simp
qed

end
