(* ===== verification/Iceberg.thy ===== *)
theory Iceberg
  imports Revertible Decimal
begin

text \<open>
  The database service (\<open>db/storage/dbservice.go\<close>, guarded as in \<open>dbservice_guarded.go\<close>) and the
  block iceberg above it (\<open>app/block_iceberg.go\<close>). The service stacks tagged sessions over the
  revertible database. The iceberg keeps one session per recent block in memory, moves the oldest
  ones into the revertible database when there are too many (\<open>sink\<close>), reverts blocks from either
  place and finalizes them. Locks and log lines are left out; the errors that the source only logs
  are ignored here as well.
\<close>

section \<open>The database service\<close>

type_synonym dbservice = "(revdb, dbval) squashdb"

definition svc_rdb :: "dbservice \<Rightarrow> revdb" where
  "svc_rdb s = dq_db (sq_dq s)"

definition svc_set_rdb :: "revdb \<Rightarrow> dbservice \<Rightarrow> dbservice" where
  "svc_set_rdb d s = s\<lparr>sq_dq := (sq_dq s)\<lparr>dq_db := d\<rparr>\<rparr>"

definition on_rdb :: "(revdb \<Rightarrow> revdb failing) \<Rightarrow> dbservice \<Rightarrow> dbservice failing" where
  "on_rdb f s = (let (d, e) = f (svc_rdb s) in (svc_set_rdb d s, e))"

definition svc_Start :: "dbval store \<Rightarrow> dbservice" where
  "svc_Start db = NewSquashableDatabase (NewRevertibleDatabase db) True"

definition svc_TagRevision :: "u64 \<Rightarrow> string \<Rightarrow> dbservice \<Rightarrow> dbservice failing" where
  "svc_TagRevision r tag s = on_rdb (TagRevision r tag) s"

text \<open>The guard: no revert of the database while a transaction is open.\<close>

definition checkRevert :: "dbservice \<Rightarrow> string option" where
  "checkRevert s =
     (if TransactionHeight s > 0 then Some ''Don't revert a database with on-going transactions.'' else None)"

definition svc_RevertToRevision :: "u64 \<Rightarrow> dbservice \<Rightarrow> dbservice failing" where
  "svc_RevertToRevision r s =
     (case checkRevert s of Some e \<Rightarrow> (s, Some e) | None \<Rightarrow> on_rdb (RevertToRevision r) s)"

definition svc_RevertToTag :: "string \<Rightarrow> dbservice \<Rightarrow> dbservice failing" where
  "svc_RevertToTag tag s =
     (case checkRevert s of Some e \<Rightarrow> (s, Some e) | None \<Rightarrow> on_rdb (RevertToTag tag) s)"

definition svc_RebaseToTag :: "string \<Rightarrow> dbservice \<Rightarrow> dbservice failing" where
  "svc_RebaseToTag tag s = on_rdb (RebaseToTag tag) s"

definition svc_EnableReversion :: "bool \<Rightarrow> dbservice \<Rightarrow> dbservice failing" where
  "svc_EnableReversion b s = on_rdb (EnableReversion b) s"

definition svc_EndTransaction :: "bool \<Rightarrow> dbservice \<Rightarrow> dbservice failing" where
  "svc_EndTransaction commit s = sq_EndTransaction revdb_Write commit s"

definition svc_Squash :: "string \<Rightarrow> dbservice \<Rightarrow> dbservice failing" where
  "svc_Squash tag s = sq_Squash revdb_Write tag (svc_set_rdb (PresetTag tag (svc_rdb s)) s)"

definition svc_RollbackTag :: "string \<Rightarrow> dbservice \<Rightarrow> dbservice failing" where
  "svc_RollbackTag tag s = sq_RollbackTag revdb_Write tag s"

definition svc_Get :: "dbservice \<Rightarrow> bytes \<Rightarrow> dbval option" where
  "svc_Get s key = dq_Get revdb_Get (sq_dq s) key"

definition svc_Put :: "bytes \<Rightarrow> dbval \<Rightarrow> dbservice \<Rightarrow> dbservice" where
  "svc_Put key val s = s\<lparr>sq_dq := dq_Put revdb_op key val (sq_dq s)\<rparr>"

definition svc_Delete :: "bytes \<Rightarrow> dbservice \<Rightarrow> dbservice" where
  "svc_Delete key s = s\<lparr>sq_dq := dq_Delete revdb_op key (sq_dq s)\<rparr>"

section \<open>Checksums of blocks\<close>

text \<open>\<open>crc32.ChecksumIEEE\<close>, bit by bit.\<close>

definition crc_bit :: "u32 \<Rightarrow> u32" where
  "crc_bit c = (if and c 1 = 1 then xor (drop_bit 1 c) 0xEDB88320 else drop_bit 1 c)"

definition crc_byte :: "u8 \<Rightarrow> u32 \<Rightarrow> u32" where
  "crc_byte b c = (crc_bit ^^ 8) (xor c (ucast b))"

definition ChecksumIEEE :: "bytes \<Rightarrow> u32" where
  "ChecksumIEEE data = not (fold crc_byte data 0xFFFFFFFF)"

fun raw_bytes :: "dbval \<Rightarrow> bytes" where
  "raw_bytes (Raw b) = b"
| "raw_bytes _ = []"

definition BlockApplierVersion :: u64 where
  "BlockApplierVersion = 1"

definition PackBlockApplyHash :: "u32 \<Rightarrow> u64" where
  "PackBlockApplyHash dataChangeHash = or (push_bit 32 BlockApplierVersion) (ucast dataChangeHash)"

definition UnpackBlockApplyHash :: "u64 \<Rightarrow> u32 \<times> u32" where
  "UnpackBlockApplyHash h = (ucast (drop_bit 32 h), ucast (and h 0xffffffff))"

text \<open>\<open>strconv.FormatUint(h, 16)\<close> and \<open>strconv.ParseUint(s, 16, 64)\<close>.\<close>

fun hex_show :: "nat \<Rightarrow> bytes" where
  "hex_show n = (if n < 16 then [hex_digit n] else hex_show (n div 16) @ [hex_digit (n mod 16)])"

declare hex_show.simps [simp del]

definition hex_val :: "u8 \<Rightarrow> nat option" where
  "hex_val b =
     (let n = unat b in
      if 48 \<le> n \<and> n \<le> 57 then Some (n - 48)
      else if 97 \<le> n \<and> n \<le> 102 then Some (n - 87)
      else if 65 \<le> n \<and> n \<le> 70 then Some (n - 55) else None)"

fun hex_read :: "nat \<Rightarrow> bytes \<Rightarrow> nat option" where
  "hex_read acc [] = Some acc"
| "hex_read acc (b # bs) = (case hex_val b of None \<Rightarrow> None | Some d \<Rightarrow> hex_read (acc * 16 + d) bs)"

definition ParseHex :: "bytes \<Rightarrow> u64 option" where
  "ParseHex s =
     (if s = [] then None
      else case hex_read 0 s of None \<Rightarrow> None | Some n \<Rightarrow> if n < 2 ^ 64 then Some (of_nat n) else None)"

section \<open>The block iceberg\<close>

definition GENESIS_TAG :: string where
  "GENESIS_TAG = ''after_init_genesis''"

definition keyLatestBlockApplyChecksum :: bytes where
  "keyLatestBlockApplyChecksum = bytes_of_string ''__latest_block_apply_checksum__''"

definition blockNumberToString :: "u64 \<Rightarrow> string" where
  "blockNumberToString blockNum = show_nat (unat blockNum)"

definition blockNumberFromString :: "string \<Rightarrow> u64 option" where
  "blockNumberFromString s =
     (case read_nat s of None \<Rightarrow> None | Some n \<Rightarrow> if n < 2 ^ 64 then Some (of_nat n) else None)"

record iceberg =
  ib_db :: dbservice
  ib_inProgress :: bool
  ib_next :: u64
  ib_hasFinalized :: bool
  ib_finalized :: u64
  ib_seaLevel :: u64
  ib_highWM :: u64
  ib_lowWM :: u64
  ib_lastBlockApplyHash :: u64
  ib_enableBAH :: bool

definition loadBlockApplyHash :: "iceberg \<Rightarrow> iceberg" where
  "loadBlockApplyHash b =
     (if \<not> ib_enableBAH b then b
      else b\<lparr>ib_lastBlockApplyHash :=
              (case svc_Get (ib_db b) keyLatestBlockApplyChecksum of
                 None \<Rightarrow> 0
               | Some v \<Rightarrow> (case ParseHex (raw_bytes v) of Some h \<Rightarrow> h | None \<Rightarrow> 0))\<rparr>)"

definition saveBlockApplyHash :: "u64 \<Rightarrow> iceberg \<Rightarrow> iceberg" where
  "saveBlockApplyHash h b =
     (if \<not> ib_enableBAH b then b
      else b\<lparr>ib_db := svc_Put keyLatestBlockApplyChecksum (Raw (hex_show (unat h))) (ib_db b),
             ib_lastBlockApplyHash := h\<rparr>)"

definition NewBlockIceberg :: "dbservice \<Rightarrow> bool \<Rightarrow> iceberg" where
  "NewBlockIceberg db enableBAH =
     (let (current, base) = GetRevisionAndBase (svc_rdb db);
          latest = (case blockNumberFromString (GetRevisionTag current (svc_rdb db)) of Some n \<Rightarrow> n | None \<Rightarrow> 0);
          fin = blockNumberFromString (GetRevisionTag base (svc_rdb db)) in
      loadBlockApplyHash
        \<lparr>ib_db = db, ib_inProgress = False, ib_next = latest + 1,
         ib_hasFinalized = (fin \<noteq> None), ib_finalized = (case fin of Some n \<Rightarrow> n | None \<Rightarrow> 0),
         ib_seaLevel = latest + 1, ib_highWM = 128, ib_lowWM = 127,
         ib_lastBlockApplyHash = 0, ib_enableBAH = enableBAH\<rparr>)"

text \<open>\<open>sink\<close>: the loop squashes block after block, starting at the sea level; errors are only logged.\<close>

fun sink_loop :: "nat \<Rightarrow> u64 \<Rightarrow> iceberg \<Rightarrow> iceberg" where
  "sink_loop 0 num b = b"
| "sink_loop (Suc blocks) num b =
     sink_loop blocks (num + 1)
       (b\<lparr>ib_db := fst (svc_Squash (blockNumberToString num) (ib_db b)), ib_seaLevel := ib_seaLevel b + 1\<rparr>)"

definition sink :: "u64 \<Rightarrow> iceberg \<Rightarrow> iceberg" where
  "sink blocks b = sink_loop (unat blocks) (ib_seaLevel b) b"

definition BeginBlock :: "u64 \<Rightarrow> iceberg \<Rightarrow> iceberg failing" where
  "BeginBlock blockNum b =
     (if blockNum = 0 then (b, Some ''invalid block number 0'')
      else if ib_inProgress b then (b, Some ''cannot begin block without ending block first'')
      else if ib_next b \<noteq> blockNum then (b, Some ''cannot begin block: block numbers must be consecutive'')
      else
        let b1 = b\<lparr>ib_inProgress := True, ib_next := ib_next b + 1\<rparr>;
            b2 = (if ib_next b1 - ib_seaLevel b1 \<ge> ib_highWM b1
                  then sink (ib_next b1 - ib_seaLevel b1 - ib_lowWM b1) b1 else b1) in
        (b2\<lparr>ib_db := sq_BeginTransactionWithTag (blockNumberToString blockNum) (ib_db b2)\<rparr>, None))"

definition EndBlock :: "bool \<Rightarrow> iceberg \<Rightarrow> iceberg failing" where
  "EndBlock commit b =
     (if \<not> ib_inProgress b then (b, Some ''cannot end a block without begin it first'')
      else
        let b1 = (if \<not> commit
                  then b\<lparr>ib_db := fst (svc_EndTransaction False (ib_db b)), ib_next := ib_next b - 1\<rparr>
                  else if ib_enableBAH b
                  then saveBlockApplyHash
                         (PackBlockApplyHash (HashOfTopTransaction ChecksumIEEE raw_bytes (ib_db b))) b
                  else b) in
        (b1\<lparr>ib_inProgress := False\<rparr>, None))"

definition RevertBlock :: "u64 \<Rightarrow> iceberg \<Rightarrow> iceberg failing" where
  "RevertBlock blockNum b =
     (if blockNum = 0 then (b, Some ''invalid block number 0'')
      else if ib_inProgress b then (b, Some ''cannot revert block without ending block first'')
      else if ib_hasFinalized b \<and> ib_finalized b \<ge> blockNum
      then (b, Some ''cannot revert block: it is not reversible'')
      else if ib_next b \<le> blockNum then (b, Some ''cannot revert a future block'')
      else
        let b1 = (if blockNum \<ge> ib_seaLevel b
                  then b\<lparr>ib_db := fst (svc_RollbackTag (blockNumberToString blockNum) (ib_db b))\<rparr>
                  else
                    let db1 = (if ib_seaLevel b < ib_next b
                               then fst (svc_RollbackTag (blockNumberToString (ib_seaLevel b)) (ib_db b))
                               else ib_db b);
                        db2 = (if blockNum > 1
                               then fst (svc_RevertToTag (blockNumberToString (blockNum - 1)) db1)
                               else fst (svc_RevertToTag GENESIS_TAG db1)) in
                    b\<lparr>ib_db := db2, ib_seaLevel := blockNum\<rparr>) in
        ((loadBlockApplyHash b1)\<lparr>ib_next := blockNum\<rparr>, None))"

definition FinalizeBlock :: "u64 \<Rightarrow> iceberg \<Rightarrow> iceberg failing" where
  "FinalizeBlock blockNum b =
     (if blockNum = 0 then (b, Some ''invalid block number 0'')
      else if ib_hasFinalized b \<and> ib_finalized b \<ge> blockNum then (b, None)
      else
        let n0 = ib_next b;
            n1 = (if n0 > 0 then n0 - 1 else n0);
            n = (if n1 > 0 \<and> ib_inProgress b then n1 - 1 else n1);
            tag = blockNumberToString blockNum in
        if n < blockNum then (b, Some ''cannot finalize block: beyond the maximum finalizable block'')
        else
          let b1 = (if blockNum < ib_seaLevel b
                    then b\<lparr>ib_db := fst (svc_RebaseToTag tag (ib_db b))\<rparr>
                    else
                      let db1 = fst (svc_EnableReversion False (ib_db b));
                          db2 = fst (svc_Squash tag db1);
                          db3 = fst (svc_EnableReversion True db2) in
                      b\<lparr>ib_db := db3, ib_seaLevel := blockNum + 1\<rparr>) in
          (b1\<lparr>ib_hasFinalized := True, ib_finalized := blockNum\<rparr>, None))"

definition LastFinalizedBlock :: "iceberg \<Rightarrow> u64" where
  "LastFinalizedBlock b = (if ib_hasFinalized b then ib_finalized b else 0)"

definition LatestBlock :: "iceberg \<Rightarrow> u64 \<times> bool" where
  "LatestBlock b = (if ib_next b > 1 then (ib_next b - 1, ib_inProgress b) else (0, False))"

end
