(* ===== verification/IcebergRefine.thy ===== *)
theory IcebergRefine
  imports Iceberg
begin

text \<open>
  The block iceberg refines a history of states: the list of the states after each block that can
  still be reverted to, and the state of the block in progress. The layers are related one by one:
  the revertible database as a base of the sessions (an interpretation of the interface of theory
  Session), the tags of both layers, the service as a pair of lists of states, and the iceberg.
\<close>

section \<open>The revertible database as a base\<close>

lemma revdb_Write_get:
  assumes ok: "tbl_ok (rv_db d)" and us: "user_ops ops"
  shows "tbl_ok (rv_db (revdb_Write ops d))"
    and "uview (revdb_Write ops d) = apply_ops ops (uview d)"
proof -
  have "tbl_ok (rv_db (revdb_Write ops d)) \<and> uview (revdb_Write ops d) = apply_ops ops (uview d)"
  proof (cases "ops = []")
    case True
    then show ?thesis using ok by (simp add: revdb_Write_def shrink_eq)
  next
    case False
    let ?r = "if rv_enable d then rv_Current d + 1 else rv_Current d"
    let ?us = "if rv_enable d then filter (effective d) (shrunk ops) else shrunk ops"
    obtain d1 tag_ops where tag: "applyPresetTag ?r d = (d1, tag_ops)" by force
    note tag1 = applyPresetTag_ops [OF tag]
    obtain ms where db: "rv_db (revdb_Write ops d) = db_Write (?us @ ms) (rv_db d)"
      and ms: "\<forall>w \<in> set ms. \<not> user_key (op_Key w)"
    proof (cases "rv_enable d")
      case True
      then show thesis
        using that [of "Put (keyOfReversionOp (rv_Current d)) (GobWriteOps (undo_ops d (shrunk ops))) #
            rev_number_op (rv_Current d + 1) d # tag_ops"] tag tag1 False
        by (auto simp: revdb_Write_def shrink_eq shrunk_empty_iff Let_def rev_number_op_def)
    next
      case disabled: False
      then show thesis
        using that [of tag_ops] tag tag1 False
        by (auto simp: revdb_Write_def shrink_eq shrunk_empty_iff Let_def)
    qed
    have "uview (revdb_Write ops d) = user_part (apply_ops ms (apply_ops ?us (db_Get (rv_db d))))"
      by (simp add: uview_user_part revdb_Get_def [abs_def] db db_Get_Write [OF ok])
    also have "\<dots> = user_part (apply_ops ?us (db_Get (rv_db d)))" by (rule user_part_meta [OF ms])
    also have "\<dots> = apply_ops ?us (uview d)"
      using user_undo(2) [OF user_ops_shrunk [OF us], of d] user_ops_shrunk [OF us]
      by (simp add: user_part_apply uview_user_part revdb_Get_def [abs_def])
    also have "\<dots> = apply_ops ops (uview d)"
      by (simp add: apply_effective_shrunk [OF us] apply_shrunk)
    finally show ?thesis using ok db by simp
  qed
  then show "tbl_ok (rv_db (revdb_Write ops d))" "uview (revdb_Write ops d) = apply_ops ops (uview d)"
    by simp_all
qed

interpretation rev: base_database revdb_Get revdb_Write user_key "\<lambda>d. tbl_ok (rv_db d)"
proof
  fix d :: revdb and ops :: "dbval writeOp list" and k
  assume "tbl_ok (rv_db d)" and ops: "\<forall>w \<in> set ops. user_key (op_Key w)" and k: "user_key k"
  then have "uview (revdb_Write ops d) = apply_ops ops (uview d)"
    by (intro revdb_Write_get) (simp_all add: user_ops_def)
  from fun_cong [OF this, of k] k apply_ops_cong [of "uview d" k "revdb_Get d" ops]
  show "revdb_Get (revdb_Write ops d) k = apply_ops ops (revdb_Get d) k"
    by (simp add: uview_def)
next
  fix d :: revdb and ops :: "dbval writeOp list"
  assume "tbl_ok (rv_db d)" and "\<forall>w \<in> set ops. user_key (op_Key w)"
  then show "tbl_ok (rv_db (revdb_Write ops d))"
    by (intro revdb_Write_get) (simp_all add: user_ops_def)
qed

text \<open>Writing with reversion disabled, which happens at the base only.\<close>

lemma revdb_Write_disabled:
  assumes inv: "rev_inv h d" and base: "rv_Base d = rv_Current d" and off: "\<not> rv_enable d"
    and us: "user_ops ops"
  shows "rev_inv (\<lambda>_. uview (revdb_Write ops d)) (revdb_Write ops d)"
    and "rv_Current (revdb_Write ops d) = rv_Current d" and "rv_Base (revdb_Write ops d) = rv_Base d"
    and "rv_enable (revdb_Write ops d) = rv_enable d"
proof -
  have ok: "tbl_ok (rv_db d)" using inv by (simp add: rev_inv_def)
  have frame: "rv_Current (revdb_Write ops d) = rv_Current d" "rv_Base (revdb_Write ops d) = rv_Base d"
    "rv_enable (revdb_Write ops d) = rv_enable d"
    using off by (auto simp: revdb_Write_def Let_def split: prod.splits dest!: applyPresetTag_ops)
  obtain ms where db: "rv_db (revdb_Write ops d) = db_Write (shrunk ops @ ms) (rv_db d)"
    and ms: "\<forall>w \<in> set ms. op_Key w = key_rev_tags"
  proof (cases "ops = []")
    case True
    then show thesis using that [of "[]"] by (simp add: revdb_Write_def shrink_eq db_Write_def)
  next
    case False
    obtain d1 tag_ops where tag: "applyPresetTag (rv_Current d) d = (d1, tag_ops)" by force
    show thesis
      using that [of tag_ops] applyPresetTag_ops [OF tag] tag off False
      by (auto simp: revdb_Write_def shrink_eq shrunk_empty_iff Let_def)
  qed
  have none: "db_Get (rv_db (revdb_Write ops d)) k = None" if k: "min_op_key \<le> k" "k < max_op_key" for k
  proof -
    have "k \<notin> op_Key ` set (shrunk ops)"
      using op_range_meta [OF k] user_ops_shrunk [OF us] by (auto simp: user_ops_def)
    moreover have "k \<notin> op_Key ` set ms" using ms k rev_keys_outside by auto
    moreover have "db_Get (rv_db d) k = None"
      using inv k base by (force simp: rev_inv_def)
    ultimately show ?thesis by (simp add: db db_Get_Write [OF ok] untouched)
  qed
  show "rev_inv (\<lambda>_. uview (revdb_Write ops d)) (revdb_Write ops d)"
    using none revdb_Write_get(1) [OF ok us] base by (auto simp: rev_inv_def frame)
  show "rv_Current (revdb_Write ops d) = rv_Current d" "rv_Base (revdb_Write ops d) = rv_Base d"
    "rv_enable (revdb_Write ops d) = rv_enable d" by (rule frame)+
qed

section \<open>Tags\<close>

definition tag_of :: "nat \<Rightarrow> string" where
  "tag_of j = (if j = 0 then GENESIS_TAG else show_nat j)"

lemma show_nat_inject [simp]: "show_nat m = show_nat n \<longleftrightarrow> m = n"
  by (metis option.inject read_nat_show_nat)

lemma genesis_not_number [simp]: "show_nat n \<noteq> GENESIS_TAG" "GENESIS_TAG \<noteq> show_nat n"
proof -
  have "CHR ''a'' \<notin> set (show_nat n)"
    using show_nat_digits [of "CHR ''a''" n] by (auto simp: is_digit_def char_digit_def)
  moreover have "CHR ''a'' \<in> set GENESIS_TAG" by (simp add: GENESIS_TAG_def)
  ultimately show "show_nat n \<noteq> GENESIS_TAG" "GENESIS_TAG \<noteq> show_nat n" by auto
qed

lemma tag_of_inject [simp]: "tag_of i = tag_of j \<longleftrightarrow> i = j"
  by (simp add: tag_of_def)

lemma tag_of_nonempty [simp]: "tag_of j \<noteq> []" "[] \<noteq> tag_of j"
  by (simp_all add: tag_of_def GENESIS_TAG_def) (metis show_nat_nonempty)

lemma tag_of_block: "0 < n \<Longrightarrow> blockNumberToString n = tag_of (unat n)"
  by (simp add: blockNumberToString_def tag_of_def word_less_nat_alt)

text \<open>
  The tags of the revertible database: block \<open>f + i\<close> is at revision \<open>R + i\<close>, for the \<open>m\<close> blocks it
  holds, and there are no other tags.
\<close>

definition rev_tag :: "nat \<Rightarrow> nat \<Rightarrow> nat \<Rightarrow> u64 \<Rightarrow> string \<Rightarrow> bool" where
  "rev_tag f m R r t = (\<exists>i < m. t = tag_of (f + i) \<and> r = of_nat (R + i))"

definition tags_exact :: "nat \<Rightarrow> nat \<Rightarrow> nat \<Rightarrow> revdb \<Rightarrow> bool" where
  "tags_exact f m R d =
     (tbl_ok (rv_Rev2Tag d) \<and> tbl_ok (rv_Tag2Rev d) \<and>
      (\<forall>r t. tbl_get (rv_Rev2Tag d) r = Some t \<longleftrightarrow> rev_tag f m R r t) \<and>
      (\<forall>r t. tbl_get (rv_Tag2Rev d) t = Some r \<longleftrightarrow> rev_tag f m R r t))"

lemma tags_exact_lookup: "tags_exact f m R d \<Longrightarrow> i < m \<Longrightarrow> GetTagRevision (tag_of (f + i)) d = Some (of_nat (R + i))"
  by (auto simp: tags_exact_def GetTagRevision_def rev_tag_def)

lemma tags_exact_none: "tags_exact f m R d \<Longrightarrow> (\<And>r. \<not> rev_tag f m R r t) \<Longrightarrow> tbl_get (rv_Tag2Rev d) t = None"
  by (cases "tbl_get (rv_Tag2Rev d) t") (auto simp: tags_exact_def)

lemma fold_delete_tags:
  assumes "tbl_ok T"
  shows "tbl_ok (fold (\<lambda>(r, t) m. if bad r then tbl_del t m else m) R T) \<and>
    tbl_get (fold (\<lambda>(r, t) m. if bad r then tbl_del t m else m) R T) t =
      (if \<exists>r. (r, t) \<in> set R \<and> bad r then None else tbl_get T t)"
  using assms
proof (induction R arbitrary: T)
  case (Cons rt R)
  obtain r s where rt: "rt = (r, s)" by force
  let ?T = "if bad r then tbl_del s T else T"
  have "tbl_ok ?T" using Cons.prems by (simp add: tbl_ok_del)
  from Cons.IH [OF this] show ?case
    using Cons.prems by (auto simp: rt tbl_get_del)
qed simp

text \<open>Cleaning keeps the tags of the revisions in the range.\<close>

lemma cleanRevTags_exact:
  assumes ex: "tags_exact f m R d"
    and keep: "\<And>i. i < m \<Longrightarrow> (b \<le> of_nat (R + i) \<and> of_nat (R + i) \<le> c) \<longleftrightarrow> a \<le> i \<and> i < a + n"
    and range: "a + n \<le> m"
  shows "tags_exact (f + a) n (R + a) (cleanRevTags c b d)"
proof -
  let ?bad = "\<lambda>r. r < b \<or> r > c"
  let ?d = "cleanRevTags c b d"
  have ok: "tbl_ok (rv_Rev2Tag d)" "tbl_ok (rv_Tag2Rev d)"
    and R: "\<And>r t. tbl_get (rv_Rev2Tag d) r = Some t \<longleftrightarrow> rev_tag f m R r t"
    and T: "\<And>r t. tbl_get (rv_Tag2Rev d) t = Some r \<longleftrightarrow> rev_tag f m R r t"
    using ex by (auto simp: tags_exact_def)
  have in_R: "(r, t) \<in> set (rv_Rev2Tag d) \<longleftrightarrow> rev_tag f m R r t" for r t
    using R [of r t] tbl_get_set tbl_set_get [OF ok(1)] by metis
  have tag: "rev_tag (f + a) n (R + a) r t \<longleftrightarrow> rev_tag f m R r t \<and> \<not> ?bad r" for r t
  proof
    assume "rev_tag (f + a) n (R + a) r t"
    then obtain i where "i < n" "t = tag_of (f + (a + i))" "r = of_nat (R + (a + i))"
      by (auto simp: rev_tag_def add.assoc)
    moreover from this have "b \<le> r \<and> r \<le> c" using keep [of "a + i"] range by auto
    ultimately show "rev_tag f m R r t \<and> \<not> ?bad r"
      using range by (auto simp: rev_tag_def not_less intro!: exI [of _ "a + i"])
  next
    assume rt: "rev_tag f m R r t \<and> \<not> ?bad r"
    then obtain i where i: "i < m" "t = tag_of (f + i)" "r = of_nat (R + i)" by (auto simp: rev_tag_def)
    with keep [of i] rt have "a \<le> i" "i < a + n" by (auto simp: not_less)
    with i show "rev_tag (f + a) n (R + a) r t"
      by (auto simp: rev_tag_def intro!: exI [of _ "i - a"])
  qed
  have "tbl_get (rv_Rev2Tag ?d) r = (if \<not> ?bad r then tbl_get (rv_Rev2Tag d) r else None)" for r
    using tbl_get_filter [OF ok(1), of "\<lambda>r. \<not> ?bad r"] by (simp add: cleanRevTags_def Let_def)
  then have "tbl_get (rv_Rev2Tag ?d) r = Some t \<longleftrightarrow> rev_tag (f + a) n (R + a) r t" for r t
    using R [of r t] tag [of r t] by auto
  moreover have "tbl_get (rv_Tag2Rev ?d) t = Some r \<longleftrightarrow> rev_tag (f + a) n (R + a) r t" for r t
  proof -
    have "tbl_get (rv_Tag2Rev ?d) t = (if \<exists>q. rev_tag f m R q t \<and> ?bad q then None else tbl_get (rv_Tag2Rev d) t)"
      using fold_delete_tags [OF ok(2), of ?bad "rv_Rev2Tag d" t] in_R by (simp add: cleanRevTags_def Let_def)
    moreover have "rev_tag f m R q t \<Longrightarrow> rev_tag f m R r t \<Longrightarrow> q = r" for q
      using T [of t q] T [of t r] by simp
    ultimately show ?thesis using T [of t r] tag [of r t] by auto
  qed
  moreover have "tbl_ok (rv_Rev2Tag ?d)" "tbl_ok (rv_Tag2Rev ?d)"
    using ok fold_delete_tags [OF ok(2), of ?bad "rv_Rev2Tag d"]
    by (simp_all add: cleanRevTags_def Let_def tbl_ok_filter)
  ultimately show ?thesis by (simp add: tags_exact_def)
qed

text \<open>Tagging the next revision, and replacing the only tag.\<close>

lemma tagRevision_new:
  assumes ex: "tags_exact f m R d" and room: "R + m < 2 ^ 64"
  shows "tags_exact f (Suc m) R (fst (tagRevision (of_nat (R + m)) (tag_of (f + m)) d))"
proof -
  let ?r = "of_nat (R + m) :: u64" and ?t = "tag_of (f + m)"
  have fresh: "?r \<noteq> of_nat (R + i)" if "i < m" for i
    using that room unat_of_nat64 [of "R + m"] unat_of_nat64 [of "R + i"] by fastforce
  have ok: "tbl_ok (rv_Rev2Tag d)" "tbl_ok (rv_Tag2Rev d)"
    and R: "\<And>r t. tbl_get (rv_Rev2Tag d) r = Some t \<longleftrightarrow> rev_tag f m R r t"
    and T: "\<And>t r. tbl_get (rv_Tag2Rev d) t = Some r \<longleftrightarrow> rev_tag f m R r t"
    using ex by (auto simp: tags_exact_def)
  have new: "\<not> rev_tag f m R ?r t" for t using fresh by (auto simp: rev_tag_def)
  then have none: "tbl_get (rv_Rev2Tag d) ?r = None" using R by (metis not_Some_eq)
  have no_empty: "tbl_get (tbl_put ?t ?r (rv_Tag2Rev d)) [] = None"
    using T [of "[]"] by (cases "tbl_get (rv_Tag2Rev d) []") (auto simp: tbl_get_put rev_tag_def)
  have step: "rev_tag f (Suc m) R r t \<longleftrightarrow> r = ?r \<and> t = ?t \<or> rev_tag f m R r t" for r t
    by (auto simp: rev_tag_def less_Suc_eq)
  have eq: "fst (tagRevision ?r ?t d) = d\<lparr>rv_Rev2Tag := tbl_put ?r ?t (rv_Rev2Tag d),
      rv_Tag2Rev := tbl_del [] (tbl_put ?t ?r (rv_Tag2Rev d))\<rparr>"
    using none by (simp add: tagRevision_def Let_def)
  have "tbl_get (tbl_put ?r ?t (rv_Rev2Tag d)) r = Some t \<longleftrightarrow> rev_tag f (Suc m) R r t" for r t
    using R [of r t] new [of t] by (cases "r = ?r") (auto simp: tbl_get_put step)
  moreover have "tbl_get (tbl_del [] (tbl_put ?t ?r (rv_Tag2Rev d))) t = Some r \<longleftrightarrow> rev_tag f (Suc m) R r t" for r t
    using T [of t r] no_empty by (auto simp: tbl_get_del tbl_ok_put ok tbl_get_put step rev_tag_def)
  ultimately show ?thesis
    unfolding tags_exact_def eq using ok by (simp add: tbl_ok_put tbl_ok_del)
qed

lemma tagRevision_replace:
  assumes ex: "tags_exact f 1 R d" and j: "j \<noteq> f"
  shows "tags_exact j 1 R (fst (tagRevision (of_nat R) (tag_of j) d))"
proof -
  let ?r = "of_nat R :: u64" and ?t = "tag_of j"
  have ok: "tbl_ok (rv_Rev2Tag d)" "tbl_ok (rv_Tag2Rev d)"
    and R: "\<And>r t. tbl_get (rv_Rev2Tag d) r = Some t \<longleftrightarrow> r = ?r \<and> t = tag_of f"
    and T: "\<And>t r. tbl_get (rv_Tag2Rev d) t = Some r \<longleftrightarrow> r = ?r \<and> t = tag_of f"
    using ex by (auto simp: tags_exact_def rev_tag_def)
  have old: "tbl_get (rv_Rev2Tag d) ?r = Some (tag_of f)" using R by simp
  have eq: "fst (tagRevision ?r ?t d) = d\<lparr>rv_Rev2Tag := tbl_put ?r ?t (rv_Rev2Tag d),
      rv_Tag2Rev := tbl_del (tag_of f) (tbl_put ?t ?r (rv_Tag2Rev d))\<rparr>"
    using old j by (simp add: tagRevision_def Let_def)
  have "tbl_get (tbl_put ?r ?t (rv_Rev2Tag d)) r = Some t \<longleftrightarrow> rev_tag j 1 R r t" for r t
    using R [of r t] by (auto simp: tbl_get_put rev_tag_def)
  moreover have "tbl_get (tbl_del (tag_of f) (tbl_put ?t ?r (rv_Tag2Rev d))) t = Some r \<longleftrightarrow> rev_tag j 1 R r t" for r t
    using T [of t r] j by (auto simp: tbl_get_del tbl_ok_put ok tbl_get_put rev_tag_def)
  ultimately show ?thesis
    unfolding tags_exact_def eq using ok by (simp add: tbl_ok_put tbl_ok_del)
qed

text \<open>The tags of the sessions: session \<open>i\<close> is block \<open>s + i\<close>.\<close>

definition stags_exact :: "nat \<Rightarrow> nat \<Rightarrow> dbservice \<Rightarrow> bool" where
  "stags_exact s n q =
     (tbl_ok (sq_tags q) \<and> tbl_ok (sq_tagsByIdx q) \<and>
      (\<forall>i t. tbl_get (sq_tagsByIdx q) i = Some t \<longleftrightarrow> i < n \<and> t = tag_of (s + i)) \<and>
      (\<forall>i t. tbl_get (sq_tags q) t = Some i \<longleftrightarrow> i < n \<and> t = tag_of (s + i)))"

lemma fold_put_ok: "tbl_ok T \<Longrightarrow> tbl_ok (fold (\<lambda>x. tbl_put (k x) (v x)) xs T)"
  by (induction xs arbitrary: T) (simp_all add: tbl_ok_put)

lemma fold_put_get:
  "distinct (map k xs) \<Longrightarrow> tbl_get (fold (\<lambda>x. tbl_put (k x) (v x)) xs T) j = Some y \<longleftrightarrow>
     (\<exists>x \<in> set xs. k x = j \<and> v x = y) \<or> (j \<notin> k ` set xs \<and> tbl_get T j = Some y)"
proof (induction xs arbitrary: T)
  case (Cons x xs)
  then show ?case by (cases "j = k x") (auto simp: tbl_get_put image_iff)
qed simp

lemma fold_put_get_iff:
  "distinct (map k xs) \<Longrightarrow> tbl_get (fold (\<lambda>x. tbl_put (k x) (v x)) xs []) j = Some y \<longleftrightarrow>
     (\<exists>x \<in> set xs. k x = j \<and> v x = y)"
  by (simp add: fold_put_get)

lemma set_map_filter: "set (List.map_filter f xs) = {y. \<exists>x \<in> set xs. f x = Some y}"
  by (induction xs) (auto simp: map_filter_simps split: option.splits)

lemma keep_tags_exact:
  assumes ex: "stags_exact s n q"
    and f: "\<And>i j. i < n \<Longrightarrow> f i = Some j \<longleftrightarrow> i = j + a \<and> j < m" and m: "m + a \<le> n"
  shows "stags_exact (s + a) m (keep_tags f q)"
proof -
  define kept where "kept = List.map_filter (\<lambda>(i, t). map_option (\<lambda>j. (j, t)) (f i)) (sq_tagsByIdx q)"
  have ok: "tbl_ok (sq_tagsByIdx q)"
    and idx: "\<And>i t. tbl_get (sq_tagsByIdx q) i = Some t \<longleftrightarrow> i < n \<and> t = tag_of (s + i)"
    using ex by (auto simp: stags_exact_def)
  have mem: "(i, t) \<in> set (sq_tagsByIdx q) \<longleftrightarrow> i < n \<and> t = tag_of (s + i)" for i t
    using idx [of i t] tbl_get_set tbl_set_get [OF ok] by metis
  have set_kept: "(j, t) \<in> set kept \<longleftrightarrow> j < m \<and> t = tag_of (s + a + j)" for j t
  proof -
    have "(j, t) \<in> set kept \<longleftrightarrow> (\<exists>i. (i, t) \<in> set (sq_tagsByIdx q) \<and> f i = Some j)"
      unfolding kept_def set_map_filter by force
    also have "\<dots> \<longleftrightarrow> (\<exists>i. i < n \<and> t = tag_of (s + i) \<and> i = j + a \<and> j < m)"
      unfolding mem using f by blast
    also have "\<dots> \<longleftrightarrow> j < m \<and> t = tag_of (s + (j + a))" using m by auto
    also have "s + (j + a) = s + a + j" by simp
    finally show ?thesis .
  qed
  have inj: "distinct (map fst xs) \<Longrightarrow> set xs \<subseteq> {(i, tag_of (s + i)) | i. i < n} \<Longrightarrow>
      distinct (map fst (List.map_filter (\<lambda>(i, t). map_option (\<lambda>j. (j, t)) (f i)) xs))" for xs
  proof (induction xs)
    case (Cons x xs)
    obtain i t where x: "x = (i, t)" by force
    have i: "i < n" using Cons.prems(2) x by auto
    show ?case
    proof (cases "f i")
      case None
      then show ?thesis using Cons x by (simp add: map_filter_simps)
    next
      case (Some j)
      have "j \<notin> fst ` set (List.map_filter (\<lambda>(i, t). map_option (\<lambda>j. (j, t)) (f i)) xs)"
      proof
        assume "j \<in> fst ` set (List.map_filter (\<lambda>(i, t). map_option (\<lambda>j. (j, t)) (f i)) xs)"
        then obtain i' t' where "(i', t') \<in> set xs" "f i' = Some j" by (auto simp: set_map_filter)
        moreover from this have "i' < n" using Cons.prems(2) by auto
        ultimately have "i' = i" using f [of i j] f [of i' j] i Some by simp
        with \<open>(i', t') \<in> set xs\<close> Cons.prems(1) x show False by force
      qed
      then show ?thesis using Cons x Some by (simp add: map_filter_simps)
    qed
  qed (simp add: map_filter_simps)
  have pairs: "(\<exists>x \<in> set kept. fst x = j \<and> snd x = t) \<longleftrightarrow> (j, t) \<in> set kept"
    "(\<exists>x \<in> set kept. snd x = t \<and> fst x = j) \<longleftrightarrow> (j, t) \<in> set kept" for j t
    by force+
  have "distinct (map fst kept)"
    unfolding kept_def using ok mem by (intro inj) (auto simp: tbl_ok_def)
  moreover have "distinct (map snd kept)"
  proof -
    have "inj_on (\<lambda>j. tag_of (s + a + j)) (fst ` set kept)" by (auto simp: inj_on_def)
    moreover have "map snd kept = map (\<lambda>j. tag_of (s + a + j)) (map fst kept)"
      using set_kept by (auto intro!: map_cong)
    ultimately show ?thesis using \<open>distinct (map fst kept)\<close> by (metis distinct_map list.set_map)
  qed
  ultimately have "stags_exact (s + a) m (q\<lparr>sq_tags := fold (\<lambda>x. tbl_put (snd x) (fst x)) kept [],
      sq_tagsByIdx := fold (\<lambda>x. tbl_put (fst x) (snd x)) kept []\<rparr>)"
    using set_kept pairs by (simp add: stags_exact_def fold_put_ok fold_put_get_iff tbl_ok_def [of "[]"])
  then show ?thesis
    unfolding keep_tags_def kept_def [symmetric] Let_def by (simp add: case_prod_unfold)
qed

section \<open>The service as two lists of states\<close>

type_synonym view = "bytes \<Rightarrow> dbval option"

text \<open>
  \<open>vs\<close> are the states the revertible database can be reverted to, those after the blocks \<open>f\<close>,
  \<open>f + 1\<close>, and so on, the last one being its current rows; \<open>ss\<close> are the states of the sessions.
  The number of revisions stays close to the number of blocks, so it does not overflow before the
  block numbers do.
\<close>

definition rdb_rel :: "nat \<Rightarrow> view list \<Rightarrow> revdb \<Rightarrow> bool" where
  "rdb_rel f vs d =
     (vs \<noteq> [] \<and>
      (\<exists>R h. rev_inv h d \<and> unat (rv_Base d) \<le> R \<and> R \<le> f + 2 ^ 32 \<and>
         unat (rv_Current d) = R + length vs - 1 \<and>
         (\<forall>i < length vs. h (R + i) = vs ! i) \<and> tags_exact f (length vs) R d))"

definition sessions_rel :: "view \<Rightarrow> view list \<Rightarrow> (revdb, dbval) dbDeque \<Rightarrow> bool" where
  "sessions_rel base ss dq =
     (dq_readFront dq \<and> sessions_ok user_key dq \<and> length (dq_sessions dq) = length ss \<and>
      (\<forall>i < length ss. apply_ops (concat (map ss_changes (take (Suc i) (dq_sessions dq)))) base = ss ! i))"

definition svc_rel :: "nat \<Rightarrow> view list \<Rightarrow> view list \<Rightarrow> dbservice \<Rightarrow> bool" where
  "svc_rel f vs ss q =
     (rdb_rel f vs (svc_rdb q) \<and> rv_enable (svc_rdb q) \<and> sessions_rel (last vs) ss (sq_dq q) \<and>
      stags_exact (f + length vs) (length ss) q)"

lemma rdb_rel_view: "rdb_rel f vs d \<Longrightarrow> uview d = last vs"
proof -
  assume rel: "rdb_rel f vs d"
  then obtain R h where h: "rev_inv h d" "unat (rv_Current d) = R + length vs - 1"
    "\<forall>i < length vs. h (R + i) = vs ! i" and ne: "vs \<noteq> []" by (auto simp: rdb_rel_def)
  have "h (R + (length vs - 1)) = last vs" using h(3) ne by (simp add: last_conv_nth)
  moreover have "R + (length vs - 1) = unat (rv_Current d)" using h(2) ne by (cases vs) auto
  ultimately show ?thesis using h(1) by (simp add: rev_inv_def)
qed

lemma rdb_rel_ok: "rdb_rel f vs d \<Longrightarrow> tbl_ok (rv_db d)"
  by (auto simp: rdb_rel_def rev_inv_def)

lemma sessions_rel_all:
  "sessions_rel base ss dq \<Longrightarrow> apply_ops (all_changes dq) base = last (base # ss)"
proof (cases ss rule: rev_cases)
  case Nil
  then show "sessions_rel base ss dq \<Longrightarrow> ?thesis" by (simp add: sessions_rel_def all_changes_def)
next
  case (snoc ss' x)
  then show "sessions_rel base ss dq \<Longrightarrow> ?thesis"
    by (auto simp: sessions_rel_def all_changes_def dest!: spec [of _ "length ss'"])
qed

text \<open>Reads see the newest state.\<close>

lemma last_vs: "vs \<noteq> [] \<Longrightarrow> last (last vs # ss) = last (vs @ ss)"
  by (simp add: last_append)

lemma svc_Get_rel:
  assumes rel: "svc_rel f vs ss q" and k: "user_key k"
  shows "svc_Get q k = last (vs @ ss) k"
proof -
  have "rdb_rel f vs (svc_rdb q)" and s: "sessions_rel (last vs) ss (sq_dq q)" and ne: "vs \<noteq> []"
    using rel by (auto simp: svc_rel_def rdb_rel_def)
  then have base: "uview (svc_rdb q) = last vs" by (simp add: rdb_rel_view)
  have "svc_Get q k = front_Get revdb_Get (sq_dq q) k"
    using s by (simp add: svc_Get_def dq_Get_def sessions_rel_def)
  also have "\<dots> = apply_ops (all_changes (sq_dq q)) (revdb_Get (svc_rdb q)) k"
    using s by (simp add: sessions_rel_def front_Get_eq [where user = user_key] svc_rdb_def)
  also have "\<dots> = apply_ops (all_changes (sq_dq q)) (last vs) k"
    by (rule apply_ops_cong) (use k in \<open>simp add: base [symmetric] uview_def\<close>)
  also have "\<dots> = last (vs @ ss) k" using sessions_rel_all [OF s] last_vs [OF ne] by simp
  finally show ?thesis .
qed

text \<open>Opening a session, writing to it, dropping it.\<close>

lemma sessions_rel_push:
  "sessions_rel base ss dq \<Longrightarrow> sessions_rel base (ss @ [last (base # ss)]) (pushFront dq)"
proof -
  assume rel: "sessions_rel base ss dq"
  have "apply_ops (concat (map ss_changes (take (Suc i) (dq_sessions (pushFront dq))))) base =
      (ss @ [last (base # ss)]) ! i" if "i < Suc (length ss)" for i
  proof (cases "i < length ss")
    case True
    then show ?thesis using rel by (simp add: sessions_rel_def pushFront_def nth_append)
  next
    case False
    with that have "i = length ss" by simp
    then show ?thesis
      using rel sessions_rel_all [OF rel]
      by (simp add: sessions_rel_def pushFront_def all_changes_def empty_session_def)
  qed
  then show ?thesis
    using rel by (simp add: sessions_rel_def) (simp add: pushFront_def)
qed

lemma sessions_rel_write:
  assumes rel: "sessions_rel base (ss @ [x]) dq" and w: "user_key (op_Key w)"
  shows "sessions_rel base (ss @ [op_view w x]) (dq_write_op bop w dq)"
proof -
  obtain us s where us: "dq_sessions dq = us @ [s]" and len: "length us = length ss"
    using rel by (cases "dq_sessions dq" rule: rev_cases) (auto simp: sessions_rel_def)
  have ne: "dq_sessions dq \<noteq> []" using us by simp
  note wr = dq_write_op_open [where user = user_key and w = w and bop = bop, OF _ ne w]
  have eq: "dq_sessions (dq_write_op bop w dq) = us @ [session_op w s]"
    "dq_readFront (dq_write_op bop w dq) = dq_readFront dq"
    using us by (simp_all add: dq_write_op_def)
  have x: "apply_ops (concat (map ss_changes (us @ [s]))) base = x"
    using rel us len by (auto simp: sessions_rel_def dest!: spec [of _ "length ss"])
  have "apply_ops (concat (map ss_changes (take (Suc i) (us @ [session_op w s])))) base =
      (ss @ [op_view w x]) ! i" if "i < Suc (length ss)" for i
  proof (cases "i < length ss")
    case True
    have "apply_ops (concat (map ss_changes (take (Suc i) us))) base = ss ! i"
      using rel us len True by (auto simp: sessions_rel_def nth_append dest!: spec [of _ i])
    with True len show ?thesis by (simp add: nth_append)
  next
    case False
    with that have "i = length ss" by simp
    with len x show ?thesis by simp
  qed
  with rel wr(1) eq len show ?thesis by (simp add: sessions_rel_def)
qed

lemma sessions_rel_take:
  "sessions_rel base ss dq \<Longrightarrow> n \<le> length ss \<Longrightarrow>
     sessions_rel base (take n ss) (dq\<lparr>dq_sessions := take n (dq_sessions dq)\<rparr>)"
  by (auto simp: sessions_rel_def sessions_ok_def min_def dest!: in_set_takeD)

text \<open>The operations of the service on the lists.\<close>

lemma stags_lookup: "stags_exact s n q \<Longrightarrow> i < n \<Longrightarrow> tbl_get (sq_tags q) (tag_of (s + i)) = Some i"
  by (simp add: stags_exact_def)

lemma svc_begin:
  assumes "svc_rel f vs ss q"
  shows "svc_rel f vs (ss @ [last (vs @ ss)])
           (sq_BeginTransactionWithTag (tag_of (f + length vs + length ss)) q)"
proof -
  let ?q = "sq_BeginTransactionWithTag (tag_of (f + length vs + length ss)) q"
  have ne: "vs \<noteq> []" and s: "sessions_rel (last vs) ss (sq_dq q)"
    and t: "stags_exact (f + length vs) (length ss) q"
    using assms by (auto simp: svc_rel_def rdb_rel_def)
  have len: "length (dq_sessions (sq_dq q)) = length ss" using s by (simp add: sessions_rel_def)
  have q: "sq_dq ?q = pushFront (sq_dq q)"
    "sq_tags ?q = tbl_put (tag_of (f + length vs + length ss)) (length ss) (sq_tags q)"
    "sq_tagsByIdx ?q = tbl_put (length ss) (tag_of (f + length vs + length ss)) (sq_tagsByIdx q)"
    using len by (simp_all add: sq_BeginTransactionWithTag_def Let_def dq_Size_def pushFront_def)
  have "sessions_rel (last vs) (ss @ [last (vs @ ss)]) (sq_dq ?q)"
    using sessions_rel_push [OF s] last_vs [OF ne] q(1) by simp
  moreover have "stags_exact (f + length vs) (Suc (length ss)) ?q"
    using t unfolding stags_exact_def q by (auto simp: tbl_ok_put tbl_get_put less_Suc_eq)
  ultimately show ?thesis using assms q(1) by (simp add: svc_rel_def svc_rdb_def)
qed

lemma svc_write:
  assumes "svc_rel f vs (ss @ [x]) q" and "user_key (op_Key w)"
  shows "svc_rel f vs (ss @ [op_view w x]) (q\<lparr>sq_dq := dq_write_op revdb_op w (sq_dq q)\<rparr>)"
proof -
  have s: "sessions_rel (last vs) (ss @ [x]) (sq_dq q)" using assms(1) by (simp add: svc_rel_def)
  then have "dq_sessions (sq_dq q) \<noteq> []" by (auto simp: sessions_rel_def)
  then have "dq_db (dq_write_op revdb_op w (sq_dq q)) = dq_db (sq_dq q)"
    by (simp add: dq_write_op_def)
  with assms(1) sessions_rel_write [OF s assms(2), of revdb_op] show ?thesis
    by (simp add: svc_rel_def svc_rdb_def stags_exact_def)
qed

lemma svc_abort:
  assumes "svc_rel f vs (ss @ [x]) q"
  shows "svc_rel f vs ss (fst (svc_EndTransaction False q))"
proof -
  have s: "sessions_rel (last vs) (ss @ [x]) (sq_dq q)"
    and t: "stags_exact (f + length vs) (Suc (length ss)) q"
    using assms by (auto simp: svc_rel_def)
  obtain us u where us: "dq_sessions (sq_dq q) = us @ [u]" and len: "length us = length ss"
    using s by (cases "dq_sessions (sq_dq q)" rule: rev_cases) (auto simp: sessions_rel_def)
  let ?dq = "(sq_dq q)\<lparr>dq_sessions := us\<rparr>"
  have pop: "popFront revdb_Write False (sq_dq q) = Inr ?dq"
    by (rule popFront_discard [OF _ us]) (use s in \<open>simp add: sessions_rel_def sessions_ok_def\<close>)
  have tag: "tbl_get (sq_tagsByIdx q) (length ss) = Some (tag_of (f + length vs + length ss))"
    using t by (simp add: stags_exact_def)
  have q: "fst (svc_EndTransaction False q) =
      q\<lparr>sq_dq := ?dq, sq_tagsByIdx := tbl_del (length ss) (sq_tagsByIdx q),
        sq_tags := tbl_del (tag_of (f + length vs + length ss)) (sq_tags q)\<rparr>"
    using pop len tag by (simp add: svc_EndTransaction_def sq_EndTransaction_def Let_def dq_Size_def)
  have "sessions_rel (last vs) (take (length ss) (ss @ [x])) ((sq_dq q)\<lparr>dq_sessions := take (length ss) (dq_sessions (sq_dq q))\<rparr>)"
    by (rule sessions_rel_take [OF s]) simp
  then have "sessions_rel (last vs) ss ?dq" using us len by simp
  moreover have "stags_exact (f + length vs) (length ss) (fst (svc_EndTransaction False q))"
    using t unfolding stags_exact_def q by (auto simp: tbl_ok_del tbl_get_del less_Suc_eq)
  ultimately show ?thesis using assms q by (simp add: svc_rel_def svc_rdb_def)
qed

lemma svc_rollback:
  assumes "svc_rel f vs ss q" and i: "i < length ss"
  shows "svc_rel f vs (take i ss) (fst (svc_RollbackTag (tag_of (f + length vs + i)) q))"
proof -
  have s: "sessions_rel (last vs) ss (sq_dq q)" and t: "stags_exact (f + length vs) (length ss) q"
    using assms by (auto simp: svc_rel_def)
  have len: "length (dq_sessions (sq_dq q)) = length ss" using s by (simp add: sessions_rel_def)
  let ?dq = "(sq_dq q)\<lparr>dq_sessions := take i (dq_sessions (sq_dq q))\<rparr>"
  have pop: "popFrontN revdb_Write (length ss - i) (sq_dq q) = Inr ?dq"
    using popFrontN_discard [of "sq_dq q" "length ss - i" revdb_Write] s len i
    by (simp add: sessions_rel_def sessions_ok_def)
  have q: "fst (svc_RollbackTag (tag_of (f + length vs + i)) q) =
      keep_tags (\<lambda>j. if j < i then Some j else None) (q\<lparr>sq_dq := ?dq\<rparr>)"
    using stags_lookup [OF t i] pop len by (simp add: svc_RollbackTag_def sq_RollbackTag_def dq_Size_def)
  have "stags_exact (f + length vs + 0) i (keep_tags (\<lambda>j. if j < i then Some j else None) (q\<lparr>sq_dq := ?dq\<rparr>))"
    by (rule keep_tags_exact [where n = "length ss"]) (use t i in \<open>auto simp: stags_exact_def\<close>)
  moreover have "sessions_rel (last vs) (take i ss) ?dq"
    using sessions_rel_take [OF s, of i] i by simp
  moreover have "sq_dq (keep_tags g q') = sq_dq q'" for g and q' :: dbservice
    by (simp add: keep_tags_def Let_def)
  ultimately show ?thesis using assms i by (simp add: svc_rel_def svc_rdb_def q)
qed

text \<open>Squashing the sessions up to a tag.\<close>

lemma sq_dq_keep_tags [simp]: "sq_dq (keep_tags g q) = sq_dq q"
  by (simp add: keep_tags_def Let_def)

lemma sessions_rel_drop:
  assumes rel: "sessions_rel base ss dq" and i: "i < length ss"
  shows "sessions_rel (ss ! i) (drop (Suc i) ss) (dq\<lparr>dq_db := d, dq_sessions := drop (Suc i) (dq_sessions dq)\<rparr>)"
proof -
  let ?us = "dq_sessions dq"
  have len: "length ?us = length ss" using rel by (simp add: sessions_rel_def)
  have at: "apply_ops (concat (map ss_changes (take (Suc j) ?us))) base = ss ! j" if "j < length ss" for j
    using rel that by (simp add: sessions_rel_def)
  have "apply_ops (concat (map ss_changes (take (Suc j) (drop (Suc i) ?us)))) (ss ! i) = drop (Suc i) ss ! j"
    if j: "j < length ss - Suc i" for j
  proof -
    have "take (Suc (Suc i + j)) ?us = take (Suc i) ?us @ take (Suc j) (drop (Suc i) ?us)"
      by (simp add: take_add [symmetric])
    then have "apply_ops (concat (map ss_changes (take (Suc j) (drop (Suc i) ?us)))) (ss ! i) =
        apply_ops (concat (map ss_changes (take (Suc (Suc i + j)) ?us))) base"
      using at [OF i] by simp
    also have "\<dots> = ss ! (Suc i + j)" using j by (intro at) simp
    finally show ?thesis using j by simp
  qed
  then show ?thesis
    using rel by (auto simp: sessions_rel_def sessions_ok_def dest!: in_set_dropD)
qed

lemma svc_Squash_eq:
  assumes s: "sessions_rel base ss (sq_dq q)" and t: "stags_exact n (length ss) q" and i: "i < length ss"
  defines "ops \<equiv> concat (map ss_changes (take (Suc i) (dq_sessions (sq_dq q))))"
  defines "d \<equiv> revdb_Write ops (PresetTag (tag_of (n + i)) (svc_rdb q))"
  shows "svc_rdb (fst (svc_Squash (tag_of (n + i)) q)) = d"
    and "sessions_rel (ss ! i) (drop (Suc i) ss) (sq_dq (fst (svc_Squash (tag_of (n + i)) q)))"
    and "stags_exact (n + Suc i) (length ss - Suc i) (fst (svc_Squash (tag_of (n + i)) q))"
    and "user_ops ops" and "apply_ops ops base = ss ! i"
proof -
  let ?q = "svc_set_rdb (PresetTag (tag_of (n + i)) (svc_rdb q)) q"
  let ?dq = "(sq_dq ?q)\<lparr>dq_db := d, dq_sessions := drop (Suc i) (dq_sessions (sq_dq q))\<rparr>"
  let ?f = "\<lambda>j. if j > i then Some (j - i - 1) else None"
  have len: "length (dq_sessions (sq_dq q)) = length ss" and below: "dq_below (sq_dq q) = []"
    using s by (simp_all add: sessions_rel_def sessions_ok_def)
  have pop: "popBackN revdb_Write (int i + 1) True (sq_dq ?q) = Inr ?dq"
    using popBackN_commit [of "sq_dq ?q" "Suc i" revdb_Write] below len i
    by (simp add: svc_set_rdb_def d_def ops_def add.commute)
  have q: "fst (svc_Squash (tag_of (n + i)) q) = keep_tags ?f (?q\<lparr>sq_dq := ?dq\<rparr>)"
    using stags_lookup [OF t i] pop
    by (simp add: svc_Squash_def sq_Squash_def) (simp add: svc_set_rdb_def)
  show "svc_rdb (fst (svc_Squash (tag_of (n + i)) q)) = d" by (simp add: q svc_rdb_def)
  show "sessions_rel (ss ! i) (drop (Suc i) ss) (sq_dq (fst (svc_Squash (tag_of (n + i)) q)))"
    using sessions_rel_drop [OF s i, of d] by (simp add: q svc_set_rdb_def)
  show "stags_exact (n + Suc i) (length ss - Suc i) (fst (svc_Squash (tag_of (n + i)) q))"
    unfolding q by (rule keep_tags_exact [where n = "length ss"])
      (use t i in \<open>auto simp: stags_exact_def svc_set_rdb_def\<close>)
  show "user_ops ops"
    using s by (auto simp: ops_def user_ops_def sessions_rel_def sessions_ok_def dest!: in_set_takeD)
  show "apply_ops ops base = ss ! i" using s i by (simp add: ops_def sessions_rel_def)
qed

lemma revdb_Write_tags:
  fixes d :: revdb
  assumes "ops \<noteq> []" and "t \<noteq> []"
  defines "d1 \<equiv> fst (tagRevision (if rv_enable d then rv_Current d + 1 else rv_Current d) t (PresetTag t d))"
  shows "rv_Rev2Tag (revdb_Write ops (PresetTag t d)) = rv_Rev2Tag d1"
    and "rv_Tag2Rev (revdb_Write ops (PresetTag t d)) = rv_Tag2Rev d1"
  using assms
  by (auto simp: revdb_Write_def shrink_eq shrunk_empty_iff applyPresetTag_def PresetTag_def Let_def
      split: prod.splits)

lemma tags_exact_cong:
  "rv_Rev2Tag d = rv_Rev2Tag d' \<Longrightarrow> rv_Tag2Rev d = rv_Tag2Rev d' \<Longrightarrow> tags_exact f m R d \<Longrightarrow> tags_exact f m R d'"
  by (simp add: tags_exact_def)

lemma rev_inv_cong:
  assumes "rv_db d = rv_db d'" and "rv_Current d = rv_Current d'" and "rv_Base d = rv_Base d'"
  shows "rev_inv h d = rev_inv h d'"
proof -
  have "uview d = uview d'" "log_at d = log_at d'"
    using assms(1) by (simp_all add: fun_eq_iff uview_def revdb_Get_def log_at_def)
  with assms show ?thesis by (simp add: rev_inv_def)
qed

lemma rev_inv_preset [simp]: "rev_inv h (PresetTag t d) = rev_inv h d"
  by (rule rev_inv_cong) (simp_all add: PresetTag_def)

lemma PresetTag_frame [simp]:
  "rv_Current (PresetTag t d) = rv_Current d" "rv_Base (PresetTag t d) = rv_Base d"
  "rv_enable (PresetTag t d) = rv_enable d" "uview (PresetTag t d) = uview d"
  "rv_Rev2Tag (PresetTag t d) = rv_Rev2Tag d" "rv_Tag2Rev (PresetTag t d) = rv_Tag2Rev d"
  by (simp_all add: PresetTag_def uview_def revdb_Get_def fun_eq_iff)

text \<open>A block that leaves a row behind: it is never an empty batch.\<close>

definition leaves_row :: "dbval writeOp list \<Rightarrow> bool" where
  "leaves_row ops = list_ex (\<lambda>w. case w of Put k v \<Rightarrow> True | Del k \<Rightarrow> False) (shrunk ops)"

lemma leaves_row_changing: "leaves_row ops \<Longrightarrow> changing d ops"
  unfolding leaves_row_def list_ex_iff changing_def
  by (metis (no_types, lifting) effective.simps(1) writeOp.exhaust writeOp.simps(6))

lemma leaves_row_nonempty: "leaves_row ops \<Longrightarrow> ops \<noteq> []"
  by (auto simp: leaves_row_def)

lemma rdb_sink:
  assumes rel: "rdb_rel f vs d" and on: "rv_enable d" and us: "user_ops ops" and row: "leaves_row ops"
    and room: "f + length vs < 2 ^ 64 - 2 ^ 33"
  defines "d' \<equiv> revdb_Write ops (PresetTag (tag_of (f + length vs)) d)"
  shows "rdb_rel f (vs @ [apply_ops ops (last vs)]) d'" and "rv_enable d'"
proof -
  obtain R h where ne: "vs \<noteq> []" and inv: "rev_inv h d" and b: "unat (rv_Base d) \<le> R" "R \<le> f + 2 ^ 32"
    and cur: "unat (rv_Current d) = R + length vs - 1"
    and h: "\<And>i. i < length vs \<Longrightarrow> h (R + i) = vs ! i" and tags: "tags_exact f (length vs) R d"
    using rel by (auto simp: rdb_rel_def)
  let ?d = "PresetTag (tag_of (f + length vs)) d"
  have len: "length vs > 0" using ne by simp
  have small: "R + length vs < 2 ^ 64 - 1" using b(2) room by simp
  have cr: "unat (rv_Current ?d) < 2 ^ 64 - 1" using cur small len by simp
  have inv': "rev_inv h ?d" and on': "rv_enable ?d" using inv on by simp_all
  note w = revdb_Write_enabled [OF inv' cr on' us leaves_row_changing [OF row], folded d'_def]
  have cur': "unat (rv_Current d') = R + length vs"
    using w(3) unat_plus_1 [OF cr] cur len by simp
  have next_rev: "rv_Current d + 1 = of_nat (R + length vs)"
    using cur' w(3) by (metis PresetTag_frame(1) of_nat_unat ucast_id)
  have tags': "tags_exact f (Suc (length vs)) R d'"
  proof (rule tags_exact_cong)
    show "tags_exact f (Suc (length vs)) R (fst (tagRevision (of_nat (R + length vs)) (tag_of (f + length vs)) ?d))"
      by (rule tagRevision_new) (use tags small in \<open>simp_all add: tags_exact_def\<close>)
  qed (use revdb_Write_tags [OF leaves_row_nonempty [OF row], of "tag_of (f + length vs)" d] on next_rev
      in \<open>simp_all add: d'_def\<close>)
  have view: "uview d' = apply_ops ops (last vs)" using w(2) rdb_rel_view [OF rel] by simp
  have "(h(Suc (unat (rv_Current ?d)) := uview d')) (R + i) = (vs @ [apply_ops ops (last vs)]) ! i"
    if "i < Suc (length vs)" for i
    using that h [of i] view cur len by (auto simp: nth_append less_Suc_eq)
  with w(1,4) b cur' tags' show "rdb_rel f (vs @ [apply_ops ops (last vs)]) d'"
    unfolding rdb_rel_def by (intro conjI exI [of _ R] exI [of _ "h(Suc (unat (rv_Current ?d)) := uview d')"]) auto
  show "rv_enable d'" by (rule w(5))
qed

lemma svc_sink:
  assumes rel: "svc_rel f vs (x # ss) q" and row: "leaves_row (ss_changes (hd (dq_sessions (sq_dq q))))"
    and room: "f + length vs < 2 ^ 64 - 2 ^ 33"
  shows "svc_rel f (vs @ [x]) ss (fst (svc_Squash (tag_of (f + length vs)) q))"
    and "dq_sessions (sq_dq (fst (svc_Squash (tag_of (f + length vs)) q))) = tl (dq_sessions (sq_dq q))"
proof -
  have s: "sessions_rel (last vs) (x # ss) (sq_dq q)" and t: "stags_exact (f + length vs) (length (x # ss)) q"
    and r: "rdb_rel f vs (svc_rdb q)" "rv_enable (svc_rdb q)"
    using rel by (simp_all add: svc_rel_def)
  obtain u us where us: "dq_sessions (sq_dq q) = u # us"
    using s by (cases "dq_sessions (sq_dq q)") (auto simp: sessions_rel_def)
  note sq = svc_Squash_eq [OF s t, of 0, simplified us, simplified]
  have row': "leaves_row (ss_changes u)" using row us by simp
  show "svc_rel f (vs @ [x]) ss (fst (svc_Squash (tag_of (f + length vs)) q))"
    using rdb_sink [OF r sq(4) row' room] sq by (simp add: svc_rel_def)
  have "dq_below (sq_dq q) = []" using s by (simp add: sessions_rel_def sessions_ok_def)
  then show "dq_sessions (sq_dq (fst (svc_Squash (tag_of (f + length vs)) q))) = tl (dq_sessions (sq_dq q))"
    using stags_lookup [OF t, of 0] us
      popBackN_commit [of "sq_dq (svc_set_rdb (PresetTag (tag_of (f + length vs)) (svc_rdb q)) q)" 1 revdb_Write]
    by (simp add: svc_Squash_def sq_Squash_def svc_set_rdb_def)
qed

text \<open>Reverting and rebasing the revertible database to a block it holds.\<close>

lemma of_nat_le_range:
  assumes "R + m \<le> 2 ^ 64" and "i < m" and "j < m"
  shows "(of_nat (R + i) :: u64) \<le> of_nat (R + j) \<longleftrightarrow> i \<le> j"
  using unat_of_nat64 [of "R + i"] unat_of_nat64 [of "R + j"] assms by (simp add: word_le_nat_alt)

lemma rdb_revert:
  assumes rel: "rdb_rel f vs d" and on: "rv_enable d" and i: "i < length vs"
  shows "rdb_rel f (take (Suc i) vs) (fst (RevertToTag (tag_of (f + i)) d))"
    and "rv_enable (fst (RevertToTag (tag_of (f + i)) d))"
proof -
  obtain R h where ne: "vs \<noteq> []" and inv: "rev_inv h d" and b: "unat (rv_Base d) \<le> R" "R \<le> f + 2 ^ 32"
    and cur: "unat (rv_Current d) = R + length vs - 1"
    and h: "\<And>i. i < length vs \<Longrightarrow> h (R + i) = vs ! i" and tags: "tags_exact f (length vs) R d"
    using rel by (auto simp: rdb_rel_def)
  let ?r = "of_nat (R + i) :: u64"
  have len: "R + length vs \<le> 2 ^ 64" using cur unat_hex [of "rv_Current d"] by simp
  have r: "unat ?r = R + i" using i len by (intro unat_of_nat64) simp
  have top: "rv_Current d = of_nat (R + (length vs - 1))"
    using cur ne by (metis Nat.add_diff_assoc One_nat_def Suc_leI length_greater_0_conv of_nat_unat ucast_id)
  have lo: "rv_Base d \<le> ?r" and hi: "?r \<le> rv_Current d"
    using b r i cur by (auto simp: word_le_nat_alt)
  obtain d' where d': "revertToRevision ?r d = (d', None)" "rev_inv h d'" "uview d' = h (unat ?r)"
    "rv_Current d' = ?r" "rv_Base d' = rv_Base d" "rv_enable d' = rv_enable d"
    "rv_Rev2Tag d' = (if ?r = rv_Current d then rv_Rev2Tag d else rv_Rev2Tag (cleanRevTags ?r (rv_Base d) d))"
    "rv_Tag2Rev d' = (if ?r = rv_Current d then rv_Tag2Rev d else rv_Tag2Rev (cleanRevTags ?r (rv_Base d) d))"
    by (rule revert_restores [OF inv lo hi])
  have run: "RevertToTag (tag_of (f + i)) d = (d', None)"
    using tags_exact_lookup [OF tags i] d'(1) on by (simp add: RevertToTag_def RevertToRevision_def)
  have "tags_exact f (Suc i) R d'"
  proof (cases "?r = rv_Current d")
    case True
    then have "Suc i = length vs" using r cur i by simp
    then show ?thesis using tags d'(7,8) True by (simp add: tags_exact_def)
  next
    case False
    have "tags_exact (f + 0) (Suc i) (R + 0) (cleanRevTags ?r (rv_Base d) d)"
    proof (rule cleanRevTags_exact [OF tags])
      fix j
      assume j: "j < length vs"
      have "rv_Base d \<le> of_nat (R + j)"
        using b unat_of_nat64 [of "R + j"] j len by (simp add: word_le_nat_alt)
      then show "(rv_Base d \<le> of_nat (R + j) \<and> of_nat (R + j) \<le> ?r) \<longleftrightarrow> 0 \<le> j \<and> j < 0 + Suc i"
        using of_nat_le_range [OF len j i] by auto
    qed (use i in simp)
    then show ?thesis using d'(7,8) False by (simp add: tags_exact_def)
  qed
  moreover have "length (take (Suc i) vs) = Suc i" using i by simp
  ultimately have "rdb_rel f (take (Suc i) vs) d'"
    unfolding rdb_rel_def using d' b r h i ne
    by (intro conjI exI [of _ R] exI [of _ h]) auto
  then show "rdb_rel f (take (Suc i) vs) (fst (RevertToTag (tag_of (f + i)) d))" using run by simp
  show "rv_enable (fst (RevertToTag (tag_of (f + i)) d))" using run d'(6) on by simp
qed

lemma rdb_rebase:
  assumes rel: "rdb_rel f vs d" and i: "i < length vs"
  shows "rdb_rel (f + i) (drop i vs) (fst (rebaseToRevision (the (GetTagRevision (tag_of (f + i)) d)) d))"
    and "rv_enable (fst (rebaseToRevision (the (GetTagRevision (tag_of (f + i)) d)) d)) = rv_enable d"
    and "snd (rebaseToRevision (the (GetTagRevision (tag_of (f + i)) d)) d) = None"
    and "rv_Base (fst (rebaseToRevision (the (GetTagRevision (tag_of (f + i)) d)) d)) = the (GetTagRevision (tag_of (f + i)) d)"
    and "rv_Current (fst (rebaseToRevision (the (GetTagRevision (tag_of (f + i)) d)) d)) = rv_Current d"
proof -
  obtain R h where ne: "vs \<noteq> []" and inv: "rev_inv h d" and b: "unat (rv_Base d) \<le> R" "R \<le> f + 2 ^ 32"
    and cur: "unat (rv_Current d) = R + length vs - 1"
    and h: "\<And>i. i < length vs \<Longrightarrow> h (R + i) = vs ! i" and tags: "tags_exact f (length vs) R d"
    using rel by (auto simp: rdb_rel_def)
  let ?r = "of_nat (R + i) :: u64"
  have len: "R + length vs \<le> 2 ^ 64" using cur unat_hex [of "rv_Current d"] by simp
  have r: "unat ?r = R + i" using i len by (intro unat_of_nat64) simp
  have lo: "rv_Base d \<le> ?r" and hi: "?r \<le> rv_Current d"
    using b r i cur by (auto simp: word_le_nat_alt)
  obtain d' where d': "rebaseToRevision ?r d = (d', None)" "rev_inv h d'" "uview d' = uview d"
    "rv_Current d' = rv_Current d" "rv_Base d' = ?r" "rv_enable d' = rv_enable d"
    "rv_Rev2Tag d' = (if ?r = rv_Base d then rv_Rev2Tag d else rv_Rev2Tag (cleanRevTags (rv_Current d) ?r d))"
    "rv_Tag2Rev d' = (if ?r = rv_Base d then rv_Tag2Rev d else rv_Tag2Rev (cleanRevTags (rv_Current d) ?r d))"
    by (rule rebase_keeps [OF inv lo hi])
  have look: "the (GetTagRevision (tag_of (f + i)) d) = ?r" using tags_exact_lookup [OF tags i] by simp
  have "tags_exact (f + i) (length vs - i) (R + i) d'"
  proof (cases "?r = rv_Base d")
    case True
    then have "i = 0" using r b by simp
    then show ?thesis using tags d'(7,8) True by (simp add: tags_exact_def)
  next
    case False
    have "tags_exact (f + i) (length vs - i) (R + i) (cleanRevTags (rv_Current d) ?r d)"
    proof (rule cleanRevTags_exact [OF tags])
      fix j
      assume j: "j < length vs"
      have "(of_nat (R + j) :: u64) \<le> rv_Current d"
        using cur unat_of_nat64 [of "R + j"] j len by (simp add: word_le_nat_alt)
      then show "(?r \<le> of_nat (R + j) \<and> of_nat (R + j) \<le> rv_Current d) \<longleftrightarrow> i \<le> j \<and> j < i + (length vs - i)"
        using of_nat_le_range [OF len i j] j i by auto
    qed (use i in simp)
    then show ?thesis using d'(7,8) False by (simp add: tags_exact_def)
  qed
  then have "rdb_rel (f + i) (drop i vs) d'"
    unfolding rdb_rel_def using d' b r h i ne cur
    by (intro conjI exI [of _ "R + i"] exI [of _ h]) (auto simp: add.assoc)
  then show "rdb_rel (f + i) (drop i vs) (fst (rebaseToRevision (the (GetTagRevision (tag_of (f + i)) d)) d))"
    "rv_enable (fst (rebaseToRevision (the (GetTagRevision (tag_of (f + i)) d)) d)) = rv_enable d"
    "snd (rebaseToRevision (the (GetTagRevision (tag_of (f + i)) d)) d) = None"
    "rv_Base (fst (rebaseToRevision (the (GetTagRevision (tag_of (f + i)) d)) d)) = the (GetTagRevision (tag_of (f + i)) d)"
    "rv_Current (fst (rebaseToRevision (the (GetTagRevision (tag_of (f + i)) d)) d)) = rv_Current d"
    using d' look by simp_all
qed

lemma svc_revert:
  assumes rel: "svc_rel f vs [] q" and i: "i < length vs"
  shows "svc_rel f (take (Suc i) vs) [] (fst (svc_RevertToTag (tag_of (f + i)) q))"
proof -
  have r: "rdb_rel f vs (svc_rdb q)" "rv_enable (svc_rdb q)" and s: "sessions_rel (last vs) [] (sq_dq q)"
    and t: "stags_exact (f + length vs) 0 q"
    using rel by (simp_all add: svc_rel_def)
  have q: "fst (svc_RevertToTag (tag_of (f + i)) q) = svc_set_rdb (fst (RevertToTag (tag_of (f + i)) (svc_rdb q))) q"
    using s by (auto simp: svc_RevertToTag_def checkRevert_def TransactionHeight_def dq_Size_def
        sessions_rel_def on_rdb_def split: prod.splits)
  show ?thesis
    using rdb_revert [OF r i] s t
    by (simp add: q svc_rel_def svc_set_rdb_def svc_rdb_def sessions_rel_def sessions_ok_def stags_exact_def)
qed

lemma svc_rebase:
  assumes rel: "svc_rel f vs ss q" and i: "i < length vs"
  shows "svc_rel (f + i) (drop i vs) ss (fst (svc_RebaseToTag (tag_of (f + i)) q))"
proof -
  have r: "rdb_rel f vs (svc_rdb q)" "rv_enable (svc_rdb q)" and s: "sessions_rel (last vs) ss (sq_dq q)"
    and t: "stags_exact (f + length vs) (length ss) q"
    using rel by (simp_all add: svc_rel_def)
  obtain R where "tags_exact f (length vs) R (svc_rdb q)" using r(1) by (auto simp: rdb_rel_def)
  from tags_exact_lookup [OF this i] have q: "fst (svc_RebaseToTag (tag_of (f + i)) q) =
      svc_set_rdb (fst (rebaseToRevision (the (GetTagRevision (tag_of (f + i)) (svc_rdb q))) (svc_rdb q))) q"
    by (auto simp: svc_RebaseToTag_def on_rdb_def RebaseToTag_def split: prod.splits)
  have "last (drop i vs) = last vs" "f + i + length (drop i vs) = f + length vs" using i by simp_all
  then show ?thesis
    using rdb_rebase [OF r(1) i] r(2) s t
    by (simp add: q svc_rel_def svc_set_rdb_def svc_rdb_def sessions_rel_def sessions_ok_def stags_exact_def)
qed

text \<open>
  Finalizing a block that is still in memory: reversion is switched off, which rebases to the current
  revision, the sessions up to the block are written, and reversion is switched on again.
\<close>

lemma rdb_disable:
  assumes rel: "rdb_rel f vs d" and on: "rv_enable d"
  defines "d' \<equiv> fst (EnableReversion False d)"
  shows "rdb_rel (f + length vs - 1) [last vs] d'" and "\<not> rv_enable d'" and "rv_Base d' = rv_Current d'"
proof -
  obtain R where ne: "vs \<noteq> []" and cur: "unat (rv_Current d) = R + length vs - 1"
    and tags: "tags_exact f (length vs) R d"
    using rel by (auto simp: rdb_rel_def)
  let ?i = "length vs - 1"
  have i: "?i < length vs" and fi: "f + ?i = f + length vs - 1" using ne by (cases vs; simp)+
  have "the (GetTagRevision (tag_of (f + ?i)) d) = of_nat (R + ?i)" using tags_exact_lookup [OF tags i] by simp
  moreover have "R + ?i = unat (rv_Current d)" using cur i by simp
  ultimately have c: "the (GetTagRevision (tag_of (f + ?i)) d) = rv_Current d"
    by (metis of_nat_unat ucast_id)
  note rb = rdb_rebase [OF rel i, unfolded c]
  obtain d1 where d1: "rebaseToRevision (rv_Current d) d = (d1, None)" using rb(3) by (metis prod.collapse)
  have d': "d' = d1\<lparr>rv_enable := False\<rparr>" using on d1 by (simp add: d'_def EnableReversion_def)
  have "drop ?i vs = [last vs]" using ne by (metis append_butlast_last_id append_eq_conv_conj length_butlast)
  then have "rdb_rel (f + length vs - 1) [last vs] d1" using rb(1) d1 fi by simp
  then show "rdb_rel (f + length vs - 1) [last vs] d'"
    unfolding d' rdb_rel_def using rev_inv_cong [of "d1\<lparr>rv_enable := False\<rparr>" d1] by (simp add: tags_exact_def)
  show "\<not> rv_enable d'" "rv_Base d' = rv_Current d'" using rb(4,5) d1 by (simp_all add: d')
qed

lemma rdb_overwrite:
  assumes rel: "rdb_rel f [v] d" and off: "\<not> rv_enable d" and base: "rv_Base d = rv_Current d"
    and us: "user_ops ops" and ne: "ops \<noteq> []" and j: "f < j"
  defines "d' \<equiv> revdb_Write ops (PresetTag (tag_of j) d)"
  shows "rdb_rel j [apply_ops ops v] d'" and "\<not> rv_enable d'"
proof -
  obtain R h where inv: "rev_inv h d" and b: "unat (rv_Base d) \<le> R" "R \<le> f + 2 ^ 32"
    and cur: "unat (rv_Current d) = R" and tags: "tags_exact f 1 R d"
    using rel by (auto simp: rdb_rel_def)
  have inv': "rev_inv h (PresetTag (tag_of j) d)" using inv by simp
  note w = revdb_Write_disabled [OF inv', simplified, OF base off us, folded d'_def]
  have ok: "tbl_ok (rv_db (PresetTag (tag_of j) d))" using inv' by (simp add: rev_inv_def)
  have view: "uview d' = apply_ops ops v"
    using revdb_Write_get(2) [OF ok us] rdb_rel_view [OF rel] by (simp add: d'_def)
  have r: "rv_Current d = of_nat R" using cur by (metis of_nat_unat ucast_id)
  have "tags_exact j 1 R (fst (tagRevision (of_nat R) (tag_of j) (PresetTag (tag_of j) d)))"
    by (rule tagRevision_replace [where f = f]) (use tags j in \<open>simp_all add: tags_exact_def\<close>)
  then have "tags_exact j 1 R d'"
    using revdb_Write_tags [OF ne, of "tag_of j" d] off r by (simp add: tags_exact_def d'_def)
  then show "rdb_rel j [apply_ops ops v] d'"
    unfolding rdb_rel_def using w(1,2,3) b cur j view
    by (intro conjI exI [of _ R] exI [of _ "\<lambda>_. uview d'"]) auto
  show "\<not> rv_enable d'" using w(4) off by simp
qed

lemma svc_set_enable:
  assumes "rdb_rel f vs (svc_rdb q)" and "sessions_rel (last vs) ss (sq_dq q)"
    and "stags_exact (f + length vs) (length ss) q" and "\<not> rv_enable (svc_rdb q)"
  shows "svc_rel f vs ss (fst (svc_EnableReversion True q))"
    and "dq_sessions (sq_dq (fst (svc_EnableReversion True q))) = dq_sessions (sq_dq q)"
proof -
  have q: "fst (svc_EnableReversion True q) = svc_set_rdb ((svc_rdb q)\<lparr>rv_enable := True\<rparr>) q"
    using assms(4) by (simp add: svc_EnableReversion_def on_rdb_def EnableReversion_def)
  have "rdb_rel f vs ((svc_rdb q)\<lparr>rv_enable := True\<rparr>)"
    using assms(1) rev_inv_cong [of "(svc_rdb q)\<lparr>rv_enable := True\<rparr>" "svc_rdb q"]
    by (simp add: rdb_rel_def tags_exact_def)
  then show "svc_rel f vs ss (fst (svc_EnableReversion True q))"
    using assms(2,3)
    by (simp add: q svc_rel_def svc_set_rdb_def svc_rdb_def sessions_rel_def sessions_ok_def stags_exact_def)
  show "dq_sessions (sq_dq (fst (svc_EnableReversion True q))) = dq_sessions (sq_dq q)"
    by (simp add: q svc_set_rdb_def)
qed

lemma dq_sessions_Squash:
  assumes "sessions_rel base ss (sq_dq q)" and "stags_exact n (length ss) q" and "i < length ss"
  shows "dq_sessions (sq_dq (fst (svc_Squash (tag_of (n + i)) q))) = drop (Suc i) (dq_sessions (sq_dq q))"
proof -
  let ?q = "svc_set_rdb (PresetTag (tag_of (n + i)) (svc_rdb q)) q"
  have "length (dq_sessions (sq_dq q)) = length ss" "dq_below (sq_dq q) = []"
    using assms(1) by (simp_all add: sessions_rel_def sessions_ok_def)
  then show ?thesis
    using stags_lookup [OF assms(2,3)] popBackN_commit [of "sq_dq ?q" "Suc i" revdb_Write] assms(3)
    by (simp add: svc_Squash_def sq_Squash_def svc_set_rdb_def add.commute)
qed

lemma svc_finalize_memory:
  assumes rel: "svc_rel f vs ss q" and i: "i < length ss"
    and ne: "concat (map ss_changes (take (Suc i) (dq_sessions (sq_dq q)))) \<noteq> []"
  defines "q' \<equiv> fst (svc_EnableReversion True (fst (svc_Squash (tag_of (f + length vs + i))
                  (fst (svc_EnableReversion False q)))))"
  shows "svc_rel (f + length vs + i) [ss ! i] (drop (Suc i) ss) q'"
    and "dq_sessions (sq_dq q') = drop (Suc i) (dq_sessions (sq_dq q))"
proof -
  have r: "rdb_rel f vs (svc_rdb q)" "rv_enable (svc_rdb q)" and s: "sessions_rel (last vs) ss (sq_dq q)"
    and t: "stags_exact (f + length vs) (length ss) q" and vs: "vs \<noteq> []"
    using rel by (auto simp: svc_rel_def rdb_rel_def)
  let ?q1 = "fst (svc_EnableReversion False q)"
  let ?d1 = "fst (EnableReversion False (svc_rdb q))"
  let ?q2 = "fst (svc_Squash (tag_of (f + length vs + i)) ?q1)"
  have q1: "?q1 = svc_set_rdb ?d1 q" by (simp add: svc_EnableReversion_def on_rdb_def split: prod.splits)
  note dis = rdb_disable [OF r]
  have rdb1: "svc_rdb ?q1 = ?d1" and dq1: "dq_sessions (sq_dq ?q1) = dq_sessions (sq_dq q)"
    by (simp_all add: q1 svc_set_rdb_def svc_rdb_def)
  have s1: "sessions_rel (last vs) ss (sq_dq ?q1)" and t1: "stags_exact (f + length vs) (length ss) ?q1"
    using s t by (simp_all add: q1 svc_set_rdb_def sessions_rel_def sessions_ok_def stags_exact_def)
  note sq = svc_Squash_eq [OF s1 t1 i, unfolded rdb1 dq1]
  have less: "f + length vs - 1 < f + length vs + i" using vs by (cases vs) auto
  note over = rdb_overwrite [OF dis sq(4) ne less]
  have "sessions_rel (last [ss ! i]) (drop (Suc i) ss) (sq_dq ?q2)"
    "stags_exact (f + length vs + i + length [ss ! i]) (length (drop (Suc i) ss)) ?q2"
    "rdb_rel (f + length vs + i) [ss ! i] (svc_rdb ?q2)" "\<not> rv_enable (svc_rdb ?q2)"
    using sq over by simp_all
  then show "svc_rel (f + length vs + i) [ss ! i] (drop (Suc i) ss) q'"
    "dq_sessions (sq_dq q') = drop (Suc i) (dq_sessions (sq_dq q))"
    unfolding q'_def using svc_set_enable dq_sessions_Squash [OF s1 t1 i] dq1 by simp_all
qed

end
