(* ===== verification/BlockHistory.thy ===== *)
theory BlockHistory
  imports IcebergRefine
begin

text \<open>
  What the block iceberg promises: a history of blocks. The specification keeps the state after the
  last finalized block, the writes of each later block and those of the block in progress. The
  iceberg, with its sessions, undo log, tags and water marks, is shown to refine it, for any sequence
  of begin, write, end, revert and finalize, its error results included.
\<close>

section \<open>The specification\<close>

record history =
  h_first :: nat
  h_base :: view
  h_blocks :: "dbval writeOp list list"
  h_open :: "dbval writeOp list option"

definition h_batches :: "history \<Rightarrow> dbval writeOp list list" where
  "h_batches h = h_blocks h @ (case h_open h of None \<Rightarrow> [] | Some ops \<Rightarrow> [ops])"

definition h_next :: "history \<Rightarrow> nat" where
  "h_next h = h_first h + length (h_batches h) + 1"

fun run_states :: "view \<Rightarrow> dbval writeOp list list \<Rightarrow> view list" where
  "run_states v [] = [v]"
| "run_states v (b # bs) = v # run_states (apply_ops b v) bs"

definition h_state :: "history \<Rightarrow> view" where
  "h_state h = fold apply_ops (h_batches h) (h_base h)"

text \<open>The row with the checksum of the block, written at its end.\<close>

definition seal :: "bool \<Rightarrow> dbval writeOp list \<Rightarrow> dbval writeOp list" where
  "seal bah ops =
     (if bah then [Put keyLatestBlockApplyChecksum
                     (Raw (hex_show (unat (PackBlockApplyHash (session_Hash ChecksumIEEE raw_bytes ops)))))]
      else [])"

datatype command = CBegin u64 | CWrite "dbval writeOp" | CEnd bool | CRevert u64 | CFinalize u64

fun h_step :: "bool \<Rightarrow> command \<Rightarrow> history \<Rightarrow> history failing" where
  "h_step bah (CBegin n) h =
     (if n = 0 then (h, Some ''invalid block number 0'')
      else if h_open h \<noteq> None then (h, Some ''cannot begin block without ending block first'')
      else if unat n \<noteq> h_next h then (h, Some ''cannot begin block: block numbers must be consecutive'')
      else (h\<lparr>h_open := Some []\<rparr>, None))"
| "h_step bah (CWrite w) h = (h\<lparr>h_open := map_option (\<lambda>ops. ops @ [w]) (h_open h)\<rparr>, None)"
| "h_step bah (CEnd commit) h =
     (case h_open h of
        None \<Rightarrow> (h, Some ''cannot end a block without begin it first'')
      | Some ops \<Rightarrow>
          (if commit then h\<lparr>h_blocks := h_blocks h @ [ops @ seal bah ops], h_open := None\<rparr>
           else h\<lparr>h_open := None\<rparr>, None))"
| "h_step bah (CRevert n) h =
     (if n = 0 then (h, Some ''invalid block number 0'')
      else if h_open h \<noteq> None then (h, Some ''cannot revert block without ending block first'')
      else if unat n \<le> h_first h then (h, Some ''cannot revert block: it is not reversible'')
      else if h_next h \<le> unat n then (h, Some ''cannot revert a future block'')
      else (h\<lparr>h_blocks := take (unat n - h_first h - 1) (h_blocks h)\<rparr>, None))"
| "h_step bah (CFinalize n) h =
     (if n = 0 then (h, Some ''invalid block number 0'')
      else if unat n \<le> h_first h then (h, None)
      else if h_first h + length (h_blocks h) < unat n
      then (h, Some ''cannot finalize block: beyond the maximum finalizable block'')
      else let m = unat n - h_first h in
           (h\<lparr>h_first := unat n, h_base := fold apply_ops (take m (h_blocks h)) (h_base h),
              h_blocks := drop m (h_blocks h)\<rparr>, None))"

fun h_run :: "bool \<Rightarrow> command list \<Rightarrow> history \<Rightarrow> history \<times> string option list" where
  "h_run bah [] h = (h, [])"
| "h_run bah (c # cs) h =
     (let (h1, e) = h_step bah c h; (h2, es) = h_run bah cs h1 in (h2, e # es))"

text \<open>
  What the chain observes: it writes rows of its own while a block is in progress, a committed block
  leaves at least one row behind (with checksums it always does), and block numbers stay below the
  range where the revision counter could wrap.
\<close>

fun command_ok :: "bool \<Rightarrow> history \<Rightarrow> command \<Rightarrow> bool" where
  "command_ok bah h (CBegin n) = (h_next h < 2 ^ 64 - 2 ^ 33)"
| "command_ok bah h (CWrite w) = (h_open h \<noteq> None \<and> user_key (op_Key w))"
| "command_ok bah h (CEnd commit) =
     (case h_open h of None \<Rightarrow> True | Some ops \<Rightarrow> bah \<or> \<not> commit \<or> leaves_row ops)"
| "command_ok bah h (CRevert n) = True"
| "command_ok bah h (CFinalize n) = True"

fun commands_ok :: "bool \<Rightarrow> command list \<Rightarrow> history \<Rightarrow> bool" where
  "commands_ok bah [] h = True"
| "commands_ok bah (c # cs) h = (command_ok bah h c \<and> commands_ok bah cs (fst (h_step bah c h)))"

section \<open>The implementation\<close>

fun svc_op :: "dbval writeOp \<Rightarrow> dbservice \<Rightarrow> dbservice" where
  "svc_op (Put k v) q = svc_Put k v q"
| "svc_op (Del k) q = svc_Delete k q"

fun ib_step :: "command \<Rightarrow> iceberg \<Rightarrow> iceberg failing" where
  "ib_step (CBegin n) b = BeginBlock n b"
| "ib_step (CWrite w) b = (b\<lparr>ib_db := svc_op w (ib_db b)\<rparr>, None)"
| "ib_step (CEnd commit) b = EndBlock commit b"
| "ib_step (CRevert n) b = RevertBlock n b"
| "ib_step (CFinalize n) b = FinalizeBlock n b"

fun ib_run :: "command list \<Rightarrow> iceberg \<Rightarrow> iceberg \<times> string option list" where
  "ib_run [] b = (b, [])"
| "ib_run (c # cs) b = (let (b1, e) = ib_step c b; (b2, es) = ib_run cs b1 in (b2, e # es))"

text \<open>
  The database a new chain starts with (\<open>Open\<close> and \<open>initGenesis\<close> of \<open>app/trx_pool.go\<close>): the genesis
  rows are written in one transaction and the revision that gives is tagged.
\<close>

definition open_genesis :: "dbval writeOp list \<Rightarrow> dbservice" where
  "open_genesis rows =
     (let q = fst (svc_EndTransaction True (fold svc_op rows (sq_BeginTransaction (svc_Start [])))) in
      fst (svc_TagRevision (rv_Current (svc_rdb q)) GENESIS_TAG q))"

definition genesis_history :: "dbval writeOp list \<Rightarrow> history" where
  "genesis_history rows = \<lparr>h_first = 0, h_base = apply_ops rows (\<lambda>_. None), h_blocks = [], h_open = None\<rparr>"

section \<open>States of a history\<close>

lemma length_run_states [simp]: "length (run_states v bs) = Suc (length bs)"
  by (induction bs arbitrary: v) auto

lemma run_states_nth: "i \<le> length bs \<Longrightarrow> run_states v bs ! i = fold apply_ops (take i bs) v"
proof (induction bs arbitrary: v i)
  case (Cons b bs)
  then show ?case by (cases i) auto
qed simp

lemma last_run_states: "last (run_states v bs) = fold apply_ops bs v"
  using run_states_nth [of "length bs" bs v] by (simp add: last_conv_nth flip: length_greater_0_conv)

lemma take_run_states: "i \<le> length bs \<Longrightarrow> take (Suc i) (run_states v bs) = run_states v (take i bs)"
proof (induction bs arbitrary: v i)
  case (Cons b bs)
  then show ?case by (cases i) auto
qed simp

lemma drop_run_states:
  "i \<le> length bs \<Longrightarrow> drop i (run_states v bs) = run_states (fold apply_ops (take i bs) v) (drop i bs)"
proof (induction bs arbitrary: v i)
  case (Cons b bs)
  then show ?case by (cases i) auto
qed simp

lemma run_states_nonempty [simp]: "run_states v bs \<noteq> []"
  by (cases bs) auto

lemma run_states_snoc: "run_states v (bs @ [b]) = run_states v bs @ [apply_ops b (fold apply_ops bs v)]"
  by (induction bs arbitrary: v) auto

section \<open>The relation\<close>

definition ice_at :: "bool \<Rightarrow> history \<Rightarrow> view list \<Rightarrow> view list \<Rightarrow> iceberg \<Rightarrow> bool" where
  "ice_at bah h vs ss b =
     (svc_rel (h_first h) vs ss (ib_db b) \<and>
      vs @ ss = run_states (h_base h) (h_batches h) \<and>
      map ss_changes (dq_sessions (sq_dq (ib_db b))) = drop (length vs - 1) (h_batches h) \<and>
      length vs \<le> Suc (length (h_blocks h)) \<and> list_all leaves_row (h_blocks h) \<and>
      h_next h \<le> 2 ^ 64 - 2 ^ 33 \<and>
      ib_next b = of_nat (h_next h) \<and> ib_seaLevel b = of_nat (h_first h + length vs) \<and>
      ib_inProgress b = (h_open h \<noteq> None) \<and> ib_hasFinalized b = (0 < h_first h) \<and>
      (0 < h_first h \<longrightarrow> ib_finalized b = of_nat (h_first h)) \<and>
      ib_highWM b = 128 \<and> ib_lowWM b = 127 \<and> ib_enableBAH b = bah)"

definition ice_rel :: "bool \<Rightarrow> history \<Rightarrow> iceberg \<Rightarrow> bool" where
  "ice_rel bah h b = (\<exists>vs ss. ice_at bah h vs ss b)"

lemma block_tag: "0 < j \<Longrightarrow> j < 2 ^ 64 \<Longrightarrow> blockNumberToString (of_nat j) = tag_of j"
  using tag_of_block [of "of_nat j"] unat_of_nat64 [of j] by (simp add: word_less_nat_alt)

lemma svc_rel_sessions: "svc_rel f vs ss q \<Longrightarrow> length (dq_sessions (sq_dq q)) = length ss"
  by (simp add: svc_rel_def sessions_rel_def)

lemma svc_rel_nonempty: "svc_rel f vs ss q \<Longrightarrow> vs \<noteq> []"
  by (simp add: svc_rel_def rdb_rel_def)

lemma ice_atD:
  assumes "ice_at bah h vs ss b"
  shows "svc_rel (h_first h) vs ss (ib_db b)" and "vs @ ss = run_states (h_base h) (h_batches h)"
    and "h_next h \<le> 2 ^ 64 - 2 ^ 33" and "ib_next b = of_nat (h_next h)"
    and "ib_seaLevel b = of_nat (h_first h + length vs)"
    and "0 < h_first h \<Longrightarrow> ib_finalized b = of_nat (h_first h)"
  using assms unfolding ice_at_def by blast+

lemma ice_at_lengths:
  assumes "ice_at bah h vs ss b"
  shows "length vs + length ss = Suc (length (h_batches h))" and "0 < length vs"
proof -
  show "length vs + length ss = Suc (length (h_batches h))"
    using arg_cong [OF ice_atD(2) [OF assms], of length] by simp
  show "0 < length vs" using svc_rel_nonempty [OF ice_atD(1) [OF assms]] by simp
qed

text \<open>Block numbers and their words.\<close>

lemma ice_at_numbers:
  assumes "ice_at bah h vs ss b"
  shows "unat (ib_next b) = h_next h" and "unat (ib_seaLevel b) = h_first h + length vs"
    and "0 < h_first h \<Longrightarrow> unat (ib_finalized b) = h_first h"
    and "h_first h + length vs + length ss = h_next h"
proof -
  note d = ice_atD [OF assms]
  show all: "h_first h + length vs + length ss = h_next h"
    using ice_at_lengths [OF assms] by (simp add: h_next_def)
  have small: "h_next h < 2 ^ 64" using d(3) by simp
  show "unat (ib_next b) = h_next h" unfolding d(4) by (rule unat_of_nat64 [OF small])
  show "unat (ib_seaLevel b) = h_first h + length vs"
    unfolding d(5) by (rule unat_of_nat64) (use all small in simp)
  show "unat (ib_finalized b) = h_first h" if "0 < h_first h"
    unfolding d(6) [OF that] by (rule unat_of_nat64) (use all small in simp)
qed

lemma h_batches_simps [simp]:
  "h_open h = None \<Longrightarrow> h_batches h = h_blocks h"
  "h_open h = Some ops \<Longrightarrow> h_batches h = h_blocks h @ [ops]"
  by (simp_all add: h_batches_def)

lemma ice_at_open:
  assumes rel: "ice_at bah h vs ss b" and op: "h_open h = Some ops"
  obtains ss0 where "ss = ss0 @ [apply_ops ops (fold apply_ops (h_blocks h) (h_base h))]"
    and "vs @ ss0 = run_states (h_base h) (h_blocks h)"
proof -
  have eq: "vs @ ss = run_states (h_base h) (h_blocks h) @ [apply_ops ops (fold apply_ops (h_blocks h) (h_base h))]"
    and le: "length vs \<le> Suc (length (h_blocks h))"
    using rel op by (simp_all add: ice_at_def run_states_snoc)
  have "ss \<noteq> []"
  proof
    assume "ss = []"
    with arg_cong [OF eq, of length] le show False by simp
  qed
  with eq that show thesis by (cases ss rule: rev_cases) auto
qed

text \<open>What the operations of the service do to the sessions.\<close>

lemma svc_op_eq: "svc_op w q = q\<lparr>sq_dq := dq_write_op revdb_op w (sq_dq q)\<rparr>"
  by (cases w) (simp_all add: svc_Put_def svc_Delete_def dq_Put_def dq_Delete_def)

lemma write_sessions:
  "dq_sessions dq = us @ [u] \<Longrightarrow> dq_sessions (dq_write_op revdb_op w dq) = us @ [session_op w u]"
  by (simp add: dq_write_op_def)

lemma begin_sessions:
  "dq_sessions (sq_dq (sq_BeginTransactionWithTag t q)) = dq_sessions (sq_dq q) @ [empty_session]"
  by (simp add: sq_BeginTransactionWithTag_def Let_def pushFront_def)

lemma abort_sessions:
  assumes "svc_rel f vs ss q" and "ss \<noteq> []"
  shows "dq_sessions (sq_dq (fst (svc_EndTransaction False q))) = butlast (dq_sessions (sq_dq q))"
proof -
  have "dq_below (sq_dq q) = []" using assms(1) by (simp add: svc_rel_def sessions_rel_def sessions_ok_def)
  moreover have "dq_sessions (sq_dq q) \<noteq> []" using svc_rel_sessions [OF assms(1)] assms(2) by auto
  ultimately show ?thesis
    by (auto simp: svc_EndTransaction_def sq_EndTransaction_def popFront_def Let_def drop_sessions_def split: option.splits)
qed

lemma rollback_sessions:
  assumes rel: "svc_rel f vs ss q" and i: "i < length ss"
  shows "dq_sessions (sq_dq (fst (svc_RollbackTag (tag_of (f + length vs + i)) q))) = take i (dq_sessions (sq_dq q))"
proof -
  have t: "stags_exact (f + length vs) (length ss) q" and below: "dq_below (sq_dq q) = []"
    using rel by (simp_all add: svc_rel_def sessions_rel_def sessions_ok_def)
  have len: "length (dq_sessions (sq_dq q)) = length ss" by (rule svc_rel_sessions [OF rel])
  show ?thesis
    using stags_lookup [OF t i] popFrontN_discard [of "sq_dq q" "length ss - i" revdb_Write] below len i
    by (simp add: svc_RollbackTag_def sq_RollbackTag_def dq_Size_def)
qed

lemma rebase_sessions: "dq_sessions (sq_dq (fst (svc_RebaseToTag t q))) = dq_sessions (sq_dq q)"
  by (simp add: svc_RebaseToTag_def on_rdb_def svc_set_rdb_def split: prod.splits)

section \<open>Writing and ending a block\<close>

lemma ice_write:
  assumes rel: "ice_at bah h vs ss b" and op: "h_open h = Some ops" and w: "user_key (op_Key w)"
  shows "\<exists>ss'. ice_at bah (h\<lparr>h_open := Some (ops @ [w])\<rparr>) vs ss' (b\<lparr>ib_db := svc_op w (ib_db b)\<rparr>)"
proof -
  let ?v = "fold apply_ops (h_blocks h) (h_base h)"
  obtain ss0 where ss: "ss = ss0 @ [apply_ops ops ?v]" and st: "vs @ ss0 = run_states (h_base h) (h_blocks h)"
    by (rule ice_at_open [OF rel op])
  have svc: "svc_rel (h_first h) vs (ss0 @ [apply_ops ops ?v]) (ib_db b)"
    and ch: "map ss_changes (dq_sessions (sq_dq (ib_db b))) = drop (length vs - 1) (h_blocks h) @ [ops]"
    using rel op ss by (auto simp: ice_at_def)
  obtain us u where us: "dq_sessions (sq_dq (ib_db b)) = us @ [u]"
    using ch by (cases "dq_sessions (sq_dq (ib_db b))" rule: rev_cases) auto
  note svc' = svc_write [OF svc w]
  have "vs @ ss0 @ [op_view w (apply_ops ops ?v)] = run_states (h_base h) (h_blocks h @ [ops @ [w]])"
    using st by (simp add: run_states_snoc)
  moreover have "map ss_changes (us @ [session_op w u]) = drop (length vs - 1) (h_blocks h @ [ops @ [w]])"
    using ch us rel by (auto simp: ice_at_def)
  ultimately have "ice_at bah (h\<lparr>h_open := Some (ops @ [w])\<rparr>) vs (ss0 @ [op_view w (apply_ops ops ?v)])
      (b\<lparr>ib_db := svc_op w (ib_db b)\<rparr>)"
    using rel svc' op write_sessions [OF us]
    by (simp add: ice_at_def svc_op_eq h_next_def)
  then show ?thesis by blast
qed

lemma checksum_key [simp]: "user_key keyLatestBlockApplyChecksum"
  by code_simp

lemma shrunk_snoc_Put: "shrunk (ops @ [Put k v]) = shrunk ops @ [Put k v]"
  by (induction ops rule: shrunk.induct) auto

lemma leaves_row_snoc: "leaves_row (ops @ [Put k v])"
  by (simp add: leaves_row_def shrunk_snoc_Put)

lemma leaves_row_seal: "bah \<or> leaves_row ops \<Longrightarrow> leaves_row (ops @ seal bah ops)"
  by (cases bah) (simp_all add: seal_def leaves_row_snoc)

lemma ice_close:
  assumes rel: "ice_at bah h vs ss b" and op: "h_open h = Some ops" and row: "leaves_row ops"
  shows "ice_at bah (h\<lparr>h_blocks := h_blocks h @ [ops], h_open := None\<rparr>) vs ss (b\<lparr>ib_inProgress := False\<rparr>)"
  using rel op row by (auto simp: ice_at_def h_next_def)

lemma ice_end_commit:
  assumes rel: "ice_at bah h vs ss b" and op: "h_open h = Some ops" and row: "bah \<or> leaves_row ops"
  shows "ice_rel bah (h\<lparr>h_blocks := h_blocks h @ [ops @ seal bah ops], h_open := None\<rparr>) (fst (EndBlock True b))"
    and "snd (EndBlock True b) = None"
proof -
  have b: "ib_inProgress b" "ib_enableBAH b = bah"
    and ch: "map ss_changes (dq_sessions (sq_dq (ib_db b))) = drop (length vs - 1) (h_blocks h) @ [ops]"
    using rel op by (auto simp: ice_at_def)
  show "snd (EndBlock True b) = None" using b by (simp add: EndBlock_def)
  show "ice_rel bah (h\<lparr>h_blocks := h_blocks h @ [ops @ seal bah ops], h_open := None\<rparr>) (fst (EndBlock True b))"
  proof (cases bah)
    case False
    then show ?thesis using ice_close [OF rel op] row b by (auto simp: ice_rel_def EndBlock_def seal_def)
  next
    case True
    let ?hash = "PackBlockApplyHash (session_Hash ChecksumIEEE raw_bytes ops)"
    let ?w = "Put keyLatestBlockApplyChecksum (Raw (hex_show (unat ?hash)))"
    obtain us u where us: "dq_sessions (sq_dq (ib_db b)) = us @ [u]" "ss_changes u = ops"
      using ch by (cases "dq_sessions (sq_dq (ib_db b))" rule: rev_cases) auto
    have hash: "HashOfTopTransaction ChecksumIEEE raw_bytes (ib_db b) = session_Hash ChecksumIEEE raw_bytes ops"
      using us by (simp add: HashOfTopTransaction_def)
    obtain ss' where w: "ice_at bah (h\<lparr>h_open := Some (ops @ [?w])\<rparr>) vs ss' (b\<lparr>ib_db := svc_op ?w (ib_db b)\<rparr>)"
      using ice_write [OF rel op, of ?w] by auto
    from ice_close [OF w, of "ops @ [?w]"] leaves_row_snoc
    have "ice_at bah (h\<lparr>h_blocks := h_blocks h @ [ops @ [?w]], h_open := None\<rparr>) vs ss'
        (b\<lparr>ib_db := svc_op ?w (ib_db b), ib_inProgress := False\<rparr>)" by simp
    moreover have "fst (EndBlock True b) = b\<lparr>ib_db := svc_op ?w (ib_db b), ib_lastBlockApplyHash := ?hash, ib_inProgress := False\<rparr>"
      using b True hash by (simp add: EndBlock_def saveBlockApplyHash_def)
    ultimately show ?thesis using True by (auto simp: ice_rel_def seal_def ice_at_def)
  qed
qed

lemma ice_end_abort:
  assumes rel: "ice_at bah h vs ss b" and op: "h_open h = Some ops"
  shows "ice_rel bah (h\<lparr>h_open := None\<rparr>) (fst (EndBlock False b))" and "snd (EndBlock False b) = None"
proof -
  let ?v = "fold apply_ops (h_blocks h) (h_base h)"
  obtain ss0 where ss: "ss = ss0 @ [apply_ops ops ?v]" and st: "vs @ ss0 = run_states (h_base h) (h_blocks h)"
    by (rule ice_at_open [OF rel op])
  have svc: "svc_rel (h_first h) vs (ss0 @ [apply_ops ops ?v]) (ib_db b)"
    and ch: "map ss_changes (dq_sessions (sq_dq (ib_db b))) = drop (length vs - 1) (h_blocks h) @ [ops]"
    and b: "ib_inProgress b" and nx: "ib_next b = of_nat (h_next h)"
    using rel op ss by (auto simp: ice_at_def)
  let ?q = "fst (svc_EndTransaction False (ib_db b))"
  have "map ss_changes (dq_sessions (sq_dq ?q)) = drop (length vs - 1) (h_blocks h)"
    using abort_sessions [OF svc] ch by (simp add: map_butlast)
  moreover have "ib_next b - 1 = of_nat (h_next (h\<lparr>h_open := None\<rparr>))"
    using nx op by (simp add: h_next_def)
  moreover have "h_next (h\<lparr>h_open := None\<rparr>) \<le> h_next h" using op by (simp add: h_next_def)
  ultimately have "ice_at bah (h\<lparr>h_open := None\<rparr>) vs ss0
      (b\<lparr>ib_db := ?q, ib_next := ib_next b - 1, ib_inProgress := False\<rparr>)"
    using rel st svc_abort [OF svc] by (simp add: ice_at_def)
  then show "ice_rel bah (h\<lparr>h_open := None\<rparr>) (fst (EndBlock False b))"
    using b by (auto simp: ice_rel_def EndBlock_def)
  show "snd (EndBlock False b) = None" using b by (simp add: EndBlock_def)
qed

section \<open>Beginning a block\<close>

lemma sink_loop_moves:
  assumes "svc_rel f vs ss (ib_db b)" and "n \<le> length ss"
    and "list_all leaves_row (take n (map ss_changes (dq_sessions (sq_dq (ib_db b)))))"
    and "ib_seaLevel b = of_nat (f + length vs)" and "f + length vs + n \<le> 2 ^ 64 - 2 ^ 33"
  shows "\<exists>q. sink_loop n (of_nat (f + length vs)) b = b\<lparr>ib_db := q, ib_seaLevel := of_nat (f + length vs + n)\<rparr> \<and>
    svc_rel f (vs @ take n ss) (drop n ss) q \<and> dq_sessions (sq_dq q) = drop n (dq_sessions (sq_dq (ib_db b)))"
  using assms
proof (induction n arbitrary: vs ss b)
  case 0
  then show ?case by (intro exI [of _ "ib_db b"]) simp
next
  case (Suc n)
  obtain x ss' where ss: "ss = x # ss'" using Suc.prems(2) by (cases ss) auto
  obtain u us where us: "dq_sessions (sq_dq (ib_db b)) = u # us"
    using svc_rel_sessions [OF Suc.prems(1)] ss by (cases "dq_sessions (sq_dq (ib_db b))") auto
  have vs: "vs \<noteq> []" by (rule svc_rel_nonempty [OF Suc.prems(1)])
  have tag: "blockNumberToString (of_nat (f + length vs)) = tag_of (f + length vs)"
    by (rule block_tag) (use vs Suc.prems(5) in simp_all)
  let ?q = "fst (svc_Squash (tag_of (f + length vs)) (ib_db b))"
  let ?b = "b\<lparr>ib_db := ?q, ib_seaLevel := ib_seaLevel b + 1\<rparr>"
  have row: "leaves_row (ss_changes (hd (dq_sessions (sq_dq (ib_db b)))))" using Suc.prems(3) us by simp
  have room: "f + length vs < 2 ^ 64 - 2 ^ 33" using Suc.prems(5) by simp
  note sq = svc_sink [OF Suc.prems(1) [unfolded ss] row room]
  have "\<exists>q. sink_loop n (of_nat (f + length (vs @ [x]))) ?b =
        ?b\<lparr>ib_db := q, ib_seaLevel := of_nat (f + length (vs @ [x]) + n)\<rparr> \<and>
      svc_rel f ((vs @ [x]) @ take n ss') (drop n ss') q \<and> dq_sessions (sq_dq q) = drop n (dq_sessions (sq_dq (ib_db ?b)))"
    by (rule Suc.IH) (use Suc.prems ss sq us in \<open>simp_all add: add.commute\<close>)
  then obtain q where q: "sink_loop n (of_nat (f + length vs) + 1) ?b = b\<lparr>ib_db := q, ib_seaLevel := of_nat (f + length vs + Suc n)\<rparr>"
      "svc_rel f (vs @ take (Suc n) ss) (drop (Suc n) ss) q" "dq_sessions (sq_dq q) = drop n (dq_sessions (sq_dq ?q))"
    using ss by (auto simp: algebra_simps)
  then show ?case using sq(2) us tag by (intro exI [of _ q]) simp
qed

lemma sink_loop_frame:
  "sink_loop m j (b\<lparr>ib_inProgress := p, ib_next := x\<rparr>) = (sink_loop m j b)\<lparr>ib_inProgress := p, ib_next := x\<rparr>"
proof (induction m arbitrary: j b)
  case (Suc m)
  let ?db = "fst (svc_Squash (blockNumberToString j) (ib_db b))"
  have swap: "b\<lparr>ib_inProgress := p, ib_next := x, ib_db := ?db, ib_seaLevel := ib_seaLevel b + 1\<rparr> =
      b\<lparr>ib_db := ?db, ib_seaLevel := ib_seaLevel b + 1, ib_inProgress := p, ib_next := x\<rparr>"
    by (cases b) simp
  from Suc [of "j + 1" "b\<lparr>ib_db := ?db, ib_seaLevel := ib_seaLevel b + 1\<rparr>"] show ?case
    by (simp add: swap)
qed simp

lemma ice_sink:
  assumes rel: "ice_at bah h vs ss b" and idle: "h_open h = None" and n: "n \<le> length ss"
  shows "\<exists>vs' ss'. ice_at bah h vs' ss' (sink (of_nat n) b)"
proof -
  note d = ice_atD [OF rel] and num = ice_at_numbers [OF rel] and len = ice_at_lengths [OF rel]
  have ch: "map ss_changes (dq_sessions (sq_dq (ib_db b))) = drop (length vs - 1) (h_blocks h)"
    and rows: "list_all leaves_row (h_blocks h)"
    using rel idle by (simp_all add: ice_at_def)
  have "list_all leaves_row (take n (map ss_changes (dq_sessions (sq_dq (ib_db b)))))"
    unfolding ch using rows by (auto simp: list_all_iff dest!: in_set_takeD in_set_dropD)
  then obtain q where q: "sink_loop n (of_nat (h_first h + length vs)) b =
        b\<lparr>ib_db := q, ib_seaLevel := of_nat (h_first h + length vs + n)\<rparr>"
      "svc_rel (h_first h) (vs @ take n ss) (drop n ss) q"
      "dq_sessions (sq_dq q) = drop n (dq_sessions (sq_dq (ib_db b)))"
    using sink_loop_moves [OF d(1) n _ d(5)] num(4) n d(3) by auto
  have "unat (of_nat n :: u64) = n" using num(4) n d(3) by (intro unat_of_nat64) simp
  then have "sink (of_nat n) b = b\<lparr>ib_db := q, ib_seaLevel := of_nat (h_first h + length vs + n)\<rparr>"
    using q(1) d(5) by (simp add: sink_def)
  moreover have "map ss_changes (drop n (dq_sessions (sq_dq (ib_db b)))) = drop (length vs - 1 + n) (h_blocks h)"
    using ch by (simp add: drop_map [symmetric] add.commute)
  moreover have "length (vs @ take n ss) - 1 = length vs - 1 + n" using len n by (cases vs) (simp_all add: min_def)
  ultimately have "ice_at bah h (vs @ take n ss) (drop n ss) (sink (of_nat n) b)"
    using rel q(2,3) idle len n by (simp add: ice_at_def min_def)
  then show ?thesis by blast
qed

lemma ice_begin:
  assumes rel: "ice_at bah h vs ss b" and room: "h_next h < 2 ^ 64 - 2 ^ 33" and idle: "h_open h = None"
    and n: "unat n = h_next h"
  shows "ice_rel bah (h\<lparr>h_open := Some []\<rparr>) (fst (BeginBlock n b))" and "snd (BeginBlock n b) = None"
proof -
  note d = ice_atD [OF rel] and num = ice_at_numbers [OF rel] and len = ice_at_lengths [OF rel]
  let ?b1 = "b\<lparr>ib_inProgress := True, ib_next := ib_next b + 1\<rparr>"
  let ?full = "ib_next b + 1 - ib_seaLevel b \<ge> 128"
  have n': "n = of_nat (h_next h)" using n by (metis of_nat_unat ucast_id)
  have pos: "0 < h_next h" by (simp add: h_next_def)
  then have nz: "n \<noteq> 0" using n by auto
  have b: "\<not> ib_inProgress b" "ib_highWM b = 128" "ib_lowWM b = 127" using rel idle by (auto simp: ice_at_def)
  have diff: "ib_next b + 1 - ib_seaLevel b = of_nat (length ss + 1)"
  proof -
    have "h_next h + 1 = (h_first h + length vs) + (length ss + 1)" using num(4) by simp
    then have "(of_nat (h_next h) :: u64) + 1 = of_nat (h_first h + length vs) + of_nat (length ss + 1)"
      by (metis of_nat_1 of_nat_add)
    then show ?thesis unfolding d(4,5) by (simp add: algebra_simps)
  qed
  have size: "unat (of_nat (length ss + 1) :: u64) = length ss + 1"
    using num(4) d(3) by (intro unat_of_nat64) simp
  obtain vs' ss' b' where b': "ice_at bah h vs' ss' b'"
    "(if ?full then sink (ib_next b + 1 - ib_seaLevel b - 127) ?b1 else ?b1) = b'\<lparr>ib_inProgress := True, ib_next := ib_next b + 1\<rparr>"
  proof (cases ?full)
    case False
    then show thesis using that [OF rel] by simp
  next
    case True
    then have big: "128 \<le> length ss + 1" using size by (simp add: diff word_le_nat_alt)
    then have k: "ib_next b + 1 - ib_seaLevel b - 127 = of_nat (length ss - 126)"
      by (simp add: diff of_nat_diff)
    obtain vs' ss' where s: "ice_at bah h vs' ss' (sink (of_nat (length ss - 126)) b)"
      using ice_sink [OF rel idle, of "length ss - 126"] by auto
    show thesis using that [OF s] True k sink_loop_frame by (simp add: sink_def)
  qed
  note d' = ice_atD [OF b'(1)] and num' = ice_at_numbers [OF b'(1)] and len' = ice_at_lengths [OF b'(1)]
  let ?q = "sq_BeginTransactionWithTag (blockNumberToString n) (ib_db b')"
  have step: "BeginBlock n b = (b'\<lparr>ib_inProgress := True, ib_next := ib_next b + 1, ib_db := ?q\<rparr>, None)"
  proof -
    have "BeginBlock n b =
        (let b2 = (if ?full then sink (ib_next b + 1 - ib_seaLevel b - 127) ?b1 else ?b1) in
         (b2\<lparr>ib_db := sq_BeginTransactionWithTag (blockNumberToString n) (ib_db b2)\<rparr>, None))"
      using nz b d(4) n' by (simp add: BeginBlock_def Let_def)
    then show ?thesis unfolding b'(2) Let_def by simp
  qed
  have "blockNumberToString n = tag_of (h_first h + length vs' + length ss')"
    unfolding n' using num'(4) pos room by (simp add: block_tag)
  then have "svc_rel (h_first h) vs' (ss' @ [last (vs' @ ss')]) ?q" using svc_begin [OF d'(1)] by simp
  moreover have "vs' @ ss' @ [last (vs' @ ss')] = run_states (h_base h) (h_blocks h @ [[]])"
    using d'(2) idle by (simp add: run_states_snoc last_run_states)
  moreover have "map ss_changes (dq_sessions (sq_dq ?q)) = drop (length vs' - 1) (h_blocks h @ [[]])"
    using b'(1) idle by (simp add: begin_sessions ice_at_def empty_session_def)
  ultimately have "ice_at bah (h\<lparr>h_open := Some []\<rparr>) vs' (ss' @ [last (vs' @ ss')])
      (b'\<lparr>ib_inProgress := True, ib_next := ib_next b + 1, ib_db := ?q\<rparr>)"
    using b'(1) idle room d(4) by (simp add: ice_at_def h_next_def)
  then show "ice_rel bah (h\<lparr>h_open := Some []\<rparr>) (fst (BeginBlock n b))" using step by (auto simp: ice_rel_def)
  show "snd (BeginBlock n b) = None" using step by simp
qed

section \<open>Reverting blocks\<close>

lemma unat_minus_1: "0 < n \<Longrightarrow> unat (n - 1) = unat n - 1" for n :: u64
  by (simp add: unat_sub word_le_nat_alt word_less_nat_alt)

lemma unat_minus_2: "2 \<le> unat n \<Longrightarrow> unat (n - 2) = unat n - 2" for n :: u64
  by (simp add: unat_sub word_le_nat_alt)

lemma revert_tag:
  assumes "0 < n"
  shows "(if n > 1 then blockNumberToString (n - 1) else GENESIS_TAG) = tag_of (unat n - 1)"
proof (cases "n > 1")
  case True
  then have "0 < n - 1" using assms by (simp add: word_less_nat_alt unat_minus_1)
  with True assms show ?thesis by (simp add: tag_of_block unat_minus_1)
next
  case False
  then have "unat n = 1" using assms by (simp add: word_less_nat_alt)
  then show ?thesis using False by (simp add: tag_of_def)
qed

lemma ice_at_reload:
  "ice_at bah h vs ss ((loadBlockApplyHash b)\<lparr>ib_next := n\<rparr>) = ice_at bah h vs ss (b\<lparr>ib_next := n\<rparr>)"
  by (simp add: loadBlockApplyHash_def ice_at_def)

lemma svc_drop_all:
  assumes rel: "svc_rel f vs ss q" and t: "t = tag_of (f + length vs)"
  shows "svc_rel f vs [] (if ss \<noteq> [] then fst (svc_RollbackTag t q) else q)"
  using svc_rollback [OF rel, of 0] rel t by auto

lemma ice_revert:
  assumes rel: "ice_at bah h vs ss b" and idle: "h_open h = None"
    and lo: "h_first h < unat n" and hi: "unat n < h_next h"
  defines "m \<equiv> unat n - h_first h - 1"
  shows "ice_rel bah (h\<lparr>h_blocks := take m (h_blocks h)\<rparr>) (fst (RevertBlock n b))"
    and "snd (RevertBlock n b) = None"
proof -
  note d = ice_atD [OF rel] and num = ice_at_numbers [OF rel] and len = ice_at_lengths [OF rel]
  let ?h = "h\<lparr>h_blocks := take m (h_blocks h)\<rparr>"
  have ch: "map ss_changes (dq_sessions (sq_dq (ib_db b))) = drop (length vs - 1) (h_blocks h)"
    and p: "\<not> ib_inProgress b" using rel idle by (simp_all add: ice_at_def)
  have n: "n \<noteq> 0" "0 < n" using lo by (auto simp: word_neq_0_conv word_less_nat_alt)
  have m: "m < length (h_blocks h)" "h_first h + Suc m = unat n"
    using hi lo idle by (simp_all add: m_def h_next_def)
  have rev: "\<not> (ib_hasFinalized b \<and> ib_finalized b \<ge> n)"
    using rel lo num(3) by (auto simp: ice_at_def word_le_nat_alt)
  have future: "\<not> ib_next b \<le> n" using hi num(1) by (simp add: word_le_nat_alt)
  have states: "take (Suc m) (vs @ ss) = run_states (h_base h) (take m (h_blocks h))"
    using d(2) idle m by (simp add: take_run_states)
  have rows: "list_all leaves_row (take m (h_blocks h))"
    using rel by (auto simp: ice_at_def list_all_iff dest!: in_set_takeD)
  have next': "h_next ?h = unat n" using m idle by (simp add: h_next_def)
  have "\<exists>vs' ss' b'. ice_at bah ?h vs' ss' (b'\<lparr>ib_next := n\<rparr>) \<and>
      RevertBlock n b = ((loadBlockApplyHash b')\<lparr>ib_next := n\<rparr>, None)"
  proof (cases "ib_seaLevel b \<le> n")
    case True
    define i where "i = unat n - h_first h - length vs"
    have i: "unat n = h_first h + length vs + i" "i < length ss" "Suc m = length vs + i"
      using True num hi m len by (auto simp: i_def word_le_nat_alt)
    let ?q = "fst (svc_RollbackTag (blockNumberToString n) (ib_db b))"
    have tag: "blockNumberToString n = tag_of (h_first h + length vs + i)" using tag_of_block [OF n(2)] i by simp
    have "svc_rel (h_first h) vs (take i ss) ?q" unfolding tag by (rule svc_rollback [OF d(1) i(2)])
    moreover have "vs @ take i ss = run_states (h_base h) (take m (h_blocks h))" using states i by simp
    moreover have "map ss_changes (dq_sessions (sq_dq ?q)) = drop (length vs - 1) (take m (h_blocks h))"
    proof -
      have "m = length vs - 1 + i" using i(3) len by linarith
      then show ?thesis
        unfolding tag rollback_sessions [OF d(1) i(2)] using ch by (simp add: take_map [symmetric] take_drop add.commute)
    qed
    ultimately have "ice_at bah ?h vs (take i ss) (b\<lparr>ib_db := ?q, ib_next := n\<rparr>)"
      using rel idle rows next' m(1) i(3) d(3) hi by (simp add: ice_at_def)
    moreover have "RevertBlock n b = ((loadBlockApplyHash (b\<lparr>ib_db := ?q\<rparr>))\<lparr>ib_next := n\<rparr>, None)"
      using True n p rev future by (simp add: RevertBlock_def Let_def)
    ultimately show ?thesis by (intro exI [of _ vs] exI [of _ "take i ss"] exI [of _ "b\<lparr>ib_db := ?q\<rparr>"]) simp
  next
    case False
    then have mv: "m < length vs" "m \<le> length vs" using num m(2) by (auto simp: word_le_nat_alt)
    have some: "(ib_seaLevel b < ib_next b) = (ss \<noteq> [])"
      using num(1,2,4) by (cases ss) (auto simp: word_less_nat_alt)
    let ?t = "blockNumberToString (ib_seaLevel b)"
    have t: "?t = tag_of (h_first h + length vs)"
      using tag_of_block [of "ib_seaLevel b"] num(2) len by (simp add: word_less_nat_alt)
    let ?db1 = "if ss \<noteq> [] then fst (svc_RollbackTag ?t (ib_db b)) else ib_db b"
    let ?db2 = "fst (svc_RevertToTag (tag_of (h_first h + m)) ?db1)"
    have q: "svc_rel (h_first h) (take (Suc m) vs) [] ?db2"
      by (rule svc_revert [OF svc_drop_all [OF d(1) t] mv(1)])
    have "unat n - 1 = h_first h + m" using m(2) by simp
    then have run: "RevertBlock n b = ((loadBlockApplyHash (b\<lparr>ib_db := ?db2, ib_seaLevel := n\<rparr>))\<lparr>ib_next := n\<rparr>, None)"
      using False n p rev future some revert_tag [OF n(2)] by (auto simp: RevertBlock_def Let_def split: if_splits)
    have "take (Suc m) vs = run_states (h_base h) (take m (h_blocks h))" using states mv by simp
    moreover have "dq_sessions (sq_dq ?db2) = []" using svc_rel_sessions [OF q] by simp
    moreover have "length (take (Suc m) vs) = Suc m" using mv by simp
    moreover have "n = of_nat (h_first h + Suc m)" using m(2) by (metis of_nat_unat ucast_id)
    ultimately have "ice_at bah ?h (take (Suc m) vs) [] (b\<lparr>ib_db := ?db2, ib_seaLevel := n, ib_next := n\<rparr>)"
      using rel q idle rows next' m d(3) hi by (simp add: ice_at_def)
    then show ?thesis
      using run by (intro exI [of _ "take (Suc m) vs"] exI [of _ "[]"] exI [of _ "b\<lparr>ib_db := ?db2, ib_seaLevel := n\<rparr>"]) simp
  qed
  then show "ice_rel bah ?h (fst (RevertBlock n b))" "snd (RevertBlock n b) = None"
    by (fastforce simp: ice_rel_def ice_at_reload)+
qed

section \<open>Finalizing blocks\<close>

lemma h_batches_drop:
  "m \<le> length (h_blocks h) \<Longrightarrow> h_batches (h\<lparr>h_first := k, h_base := v, h_blocks := drop m (h_blocks h)\<rparr>) = drop m (h_batches h)"
  by (simp add: h_batches_def split: option.splits)

lemma max_finalizable:
  assumes rel: "ice_at bah h vs ss b"
  shows "unat (let n1 = (if ib_next b > 0 then ib_next b - 1 else ib_next b) in
               if n1 > 0 \<and> ib_inProgress b then n1 - 1 else n1) = h_first h + length (h_blocks h)"
proof -
  have "unat (ib_next b) = Suc (h_first h + length (h_batches h))" "ib_inProgress b = (h_open h \<noteq> None)"
    using ice_at_numbers(1) [OF rel] rel by (simp_all add: h_next_def ice_at_def)
  then show ?thesis
    by (cases "h_open h") (auto simp: Let_def unat_minus_1 unat_minus_2 word_less_nat_alt)
qed

lemma ice_finalize:
  assumes rel: "ice_at bah h vs ss b"
    and lo: "h_first h < unat n" and hi: "unat n \<le> h_first h + length (h_blocks h)"
  defines "m \<equiv> unat n - h_first h"
  defines "h' \<equiv> h\<lparr>h_first := unat n, h_base := fold apply_ops (take m (h_blocks h)) (h_base h),
                  h_blocks := drop m (h_blocks h)\<rparr>"
  shows "ice_rel bah h' (fst (FinalizeBlock n b))" and "snd (FinalizeBlock n b) = None"
proof -
  note d = ice_atD [OF rel] and num = ice_at_numbers [OF rel] and len = ice_at_lengths [OF rel]
  have n: "n \<noteq> 0" "0 < n" using lo by (auto simp: word_neq_0_conv word_less_nat_alt)
  have m: "m \<le> length (h_blocks h)" "0 < m" "h_first h + m = unat n" using lo hi by (auto simp: m_def)
  have mb: "m \<le> length (h_batches h)" using m(1) by (simp add: h_batches_def)
  have ch: "map ss_changes (dq_sessions (sq_dq (ib_db b))) = drop (length vs - 1) (h_batches h)"
    and rows: "list_all leaves_row (h_blocks h)" using rel by (simp_all add: ice_at_def)
  have rows': "list_all leaves_row (drop m (h_blocks h))"
    using rows by (auto simp: list_all_iff dest!: in_set_dropD)
  have bat: "h_batches h' = drop m (h_batches h)" unfolding h'_def by (rule h_batches_drop [OF m(1)])
  have nxt: "h_next h' = h_next h" using bat mb m(3) by (simp add: h_next_def) (simp add: h'_def)
  have base: "h_base h' = fold apply_ops (take m (h_batches h)) (h_base h)"
    using m(1) by (simp add: h'_def h_batches_def)
  have states: "drop m (vs @ ss) = run_states (h_base h') (h_batches h')"
    unfolding d(2) bat base by (rule drop_run_states [OF mb])
  have old: "\<not> (ib_hasFinalized b \<and> ib_finalized b \<ge> n)"
    using rel lo num(3) by (auto simp: ice_at_def word_le_nat_alt)
  let ?t = "blockNumberToString n"
  have tag: "?t = tag_of (unat n)" by (rule tag_of_block [OF n(2)])
  let ?b = "if n < ib_seaLevel b then b\<lparr>ib_db := fst (svc_RebaseToTag ?t (ib_db b))\<rparr>
            else b\<lparr>ib_db := fst (svc_EnableReversion True (fst (svc_Squash ?t (fst (svc_EnableReversion False (ib_db b)))))),
                   ib_seaLevel := n + 1\<rparr>"
  have run: "FinalizeBlock n b = (?b\<lparr>ib_hasFinalized := True, ib_finalized := n\<rparr>, None)"
  proof -
    let ?max = "let n1 = (if ib_next b > 0 then ib_next b - 1 else ib_next b) in
               if n1 > 0 \<and> ib_inProgress b then n1 - 1 else n1"
    have "\<not> ?max < n" using max_finalizable [OF rel] hi by (simp add: word_less_nat_alt)
    then show ?thesis
      unfolding FinalizeBlock_def if_not_P [OF n(1)] if_not_P [OF old] by (simp add: Let_def)
  qed
  have n': "n = of_nat (unat n)" by simp
  have "\<exists>vs' ss'. ice_at bah h' vs' ss' (?b\<lparr>ib_hasFinalized := True, ib_finalized := n\<rparr>)"
  proof (cases "n < ib_seaLevel b")
    case True
    then have mv: "m < length vs" using num(2) m(3) by (simp add: word_less_nat_alt)
    let ?q = "fst (svc_RebaseToTag ?t (ib_db b))"
    have "svc_rel (unat n) (drop m vs) ss ?q" unfolding tag m(3) [symmetric] by (rule svc_rebase [OF d(1) mv])
    moreover have "drop m vs @ ss = run_states (h_base h') (h_batches h')" using states mv by simp
    moreover have "map ss_changes (dq_sessions (sq_dq ?q)) = drop (length (drop m vs) - 1) (h_batches h')"
      using ch mv by (simp add: rebase_sessions bat)
    moreover have "ib_seaLevel b = of_nat (unat n + length (drop m vs))" 
    proof -
      have "unat n + length (drop m vs) = h_first h + length vs" using m(3) mv by simp
      then show ?thesis using d(5) by simp
    qed
    moreover have "length (drop m vs) \<le> Suc (length (drop m (h_blocks h)))" using rel by (auto simp: ice_at_def)
    ultimately have "ice_at bah h' (drop m vs) ss (b\<lparr>ib_db := ?q, ib_hasFinalized := True, ib_finalized := n\<rparr>)"
      using rel rows' nxt n lo by (simp add: ice_at_def) (simp add: h'_def)
    then show ?thesis using True by auto
  next
    case False
    define i where "i = m - length vs"
    have i: "unat n = h_first h + length vs + i" "i < length ss" "m = length vs + i"
      using False num(2) m(3) len mb by (auto simp: i_def word_less_nat_alt)
    let ?q = "fst (svc_EnableReversion True (fst (svc_Squash ?t (fst (svc_EnableReversion False (ib_db b))))))"
    have idx: "length vs - 1 < length (h_blocks h)" using i(3) m(1) len(2) by linarith
    have "concat (map ss_changes (take (Suc i) (dq_sessions (sq_dq (ib_db b))))) \<noteq> []"
    proof -
      have "h_batches h ! (length vs - 1) = h_blocks h ! (length vs - 1)" using idx by (simp add: h_batches_def nth_append)
      then have "h_batches h ! (length vs - 1) \<noteq> []" using rows idx leaves_row_nonempty by (simp add: list_all_length)
      moreover have "h_batches h ! (length vs - 1) \<in> set (take (Suc i) (drop (length vs - 1) (h_batches h)))"
        using idx by (cases "drop (length vs - 1) (h_batches h)") (auto simp: h_batches_def nth_via_drop split: option.splits)
      ultimately show ?thesis unfolding take_map [symmetric] ch by (auto simp: concat_eq_Nil_conv)
    qed
    note fin = svc_finalize_memory [OF d(1) i(2) this, folded i(1) tag]
    have "[ss ! i] @ drop (Suc i) ss = run_states (h_base h') (h_batches h')"
      using states i by (simp add: Cons_nth_drop_Suc)
    moreover have "map ss_changes (dq_sessions (sq_dq ?q)) = drop (length [ss ! i] - 1) (h_batches h')"
      unfolding fin(2) bat drop_map [symmetric] ch using i(3) len(2) by (cases vs) (simp_all add: add.commute)
    moreover have "n + 1 = of_nat (unat n + length [ss ! i])" by simp
    ultimately have "ice_at bah h' [ss ! i] (drop (Suc i) ss)
        (b\<lparr>ib_db := ?q, ib_seaLevel := n + 1, ib_hasFinalized := True, ib_finalized := n\<rparr>)"
      using rel fin(1) rows' nxt n lo by (simp add: ice_at_def) (simp add: h'_def)
    then show ?thesis using False by auto
  qed
  then show "ice_rel bah h' (fst (FinalizeBlock n b))" "snd (FinalizeBlock n b) = None"
    using run by (auto simp: ice_rel_def)
qed

section \<open>Simulation\<close>

text \<open>When each operation refuses, read off the history.\<close>

lemma ice_at_guards:
  assumes rel: "ice_at bah h vs ss b"
  shows "ib_inProgress b = (h_open h \<noteq> None)"
    and "n \<noteq> 0 \<Longrightarrow> (ib_hasFinalized b \<and> ib_finalized b \<ge> n) = (unat n \<le> h_first h)"
    and "(ib_next b = n) = (unat n = h_next h)" and "(ib_next b \<le> n) = (h_next h \<le> unat n)"
proof -
  note num = ice_at_numbers [OF rel]
  have f: "ib_hasFinalized b = (0 < h_first h)" using rel by (simp add: ice_at_def)
  show "ib_inProgress b = (h_open h \<noteq> None)" using rel by (simp add: ice_at_def)
  show "(ib_hasFinalized b \<and> ib_finalized b \<ge> n) = (unat n \<le> h_first h)" if "n \<noteq> 0"
  proof (cases "0 < h_first h")
    case True
    then show ?thesis using f num(3) by (simp add: word_le_nat_alt)
  next
    case False
    then show ?thesis using f that by (simp add: unat_eq_zero)
  qed
  show "(ib_next b = n) = (unat n = h_next h)" using num(1) by (auto simp: word_unat_eq_iff)
  show "(ib_next b \<le> n) = (h_next h \<le> unat n)" using num(1) by (simp add: word_le_nat_alt)
qed

definition step_ok :: "bool \<Rightarrow> command \<Rightarrow> history \<Rightarrow> iceberg \<Rightarrow> bool" where
  "step_ok bah c h b =
     (ice_rel bah (fst (h_step bah c h)) (fst (ib_step c b)) \<and> snd (ib_step c b) = snd (h_step bah c h))"

lemma step_begin:
  assumes rel: "ice_at bah h vs ss b" and room: "h_next h < 2 ^ 64 - 2 ^ 33"
  shows "step_ok bah (CBegin n) h b"
proof (cases "n \<noteq> 0 \<and> h_open h = None \<and> unat n = h_next h")
  case True
  then show ?thesis using ice_begin [OF rel room] by (simp add: step_ok_def)
next
  case False
  have "ice_rel bah h b" using rel by (auto simp: ice_rel_def)
  moreover have "BeginBlock n b = (b, snd (h_step bah (CBegin n) h))" "fst (h_step bah (CBegin n) h) = h"
    using False ice_at_guards(1,3) [OF rel] by (auto simp: BeginBlock_def)
  ultimately show ?thesis by (simp add: step_ok_def)
qed

lemma step_end:
  assumes rel: "ice_at bah h vs ss b" and ok: "command_ok bah h (CEnd commit)"
  shows "step_ok bah (CEnd commit) h b"
proof (cases "h_open h")
  case None
  then show ?thesis using ice_at_guards(1) [OF rel] rel by (auto simp: step_ok_def EndBlock_def ice_rel_def)
next
  case (Some ops)
  then show ?thesis
    using ok ice_end_commit [OF rel Some] ice_end_abort [OF rel Some] by (cases commit) (auto simp: step_ok_def)
qed

lemma step_revert:
  assumes rel: "ice_at bah h vs ss b"
  shows "step_ok bah (CRevert n) h b"
proof (cases "n \<noteq> 0 \<and> h_open h = None \<and> h_first h < unat n \<and> unat n < h_next h")
  case True
  then show ?thesis using ice_revert [OF rel] by (simp add: step_ok_def)
next
  case False
  have "ice_rel bah h b" using rel by (auto simp: ice_rel_def)
  moreover have "RevertBlock n b = (b, snd (h_step bah (CRevert n) h)) \<and> fst (h_step bah (CRevert n) h) = h"
  proof -
    note g = ice_at_guards(1) [OF rel] ice_at_guards(2-4) [OF rel, of n]
    from False consider "n = 0" | "h_open h \<noteq> None" | "n \<noteq> 0" "h_open h = None" "unat n \<le> h_first h"
      | "n \<noteq> 0" "h_open h = None" "\<not> unat n \<le> h_first h" "h_next h \<le> unat n" by linarith
    then show ?thesis by cases (simp_all add: RevertBlock_def g(1) g(2) g(4))
  qed
  ultimately show ?thesis by (simp add: step_ok_def)
qed

lemma step_finalize:
  assumes rel: "ice_at bah h vs ss b"
  shows "step_ok bah (CFinalize n) h b"
proof (cases "n \<noteq> 0 \<and> h_first h < unat n \<and> unat n \<le> h_first h + length (h_blocks h)")
  case True
  then show ?thesis using ice_finalize [OF rel, of n] by (simp add: step_ok_def Let_def)
next
  case False
  let ?max = "let n1 = (if ib_next b > 0 then ib_next b - 1 else ib_next b) in
               if n1 > 0 \<and> ib_inProgress b then n1 - 1 else n1"
  have "?max < n \<longleftrightarrow> h_first h + length (h_blocks h) < unat n"
    using max_finalizable [OF rel] by (simp add: word_less_nat_alt)
  moreover have "FinalizeBlock n b =
      (if n = 0 then (b, Some ''invalid block number 0'')
       else if ib_hasFinalized b \<and> ib_finalized b \<ge> n then (b, None)
       else if ?max < n then (b, Some ''cannot finalize block: beyond the maximum finalizable block'')
       else FinalizeBlock n b)"
    by (simp add: FinalizeBlock_def Let_def)
  ultimately have "FinalizeBlock n b = (b, snd (h_step bah (CFinalize n) h)) \<and> fst (h_step bah (CFinalize n) h) = h"
    using False ice_at_guards(2) [OF rel, of n] by (simp split: if_splits)
  moreover have "ice_rel bah h b" using rel by (auto simp: ice_rel_def)
  ultimately show ?thesis by (simp add: step_ok_def)
qed

lemma ice_step:
  assumes "ice_rel bah h b" and ok: "command_ok bah h c"
  shows "ice_rel bah (fst (h_step bah c h)) (fst (ib_step c b))" and "snd (ib_step c b) = snd (h_step bah c h)"
proof -
  obtain vs ss where rel: "ice_at bah h vs ss b" using assms(1) by (auto simp: ice_rel_def)
  have "step_ok bah c h b"
  proof (cases c)
    case (CWrite w)
    then obtain ops where op: "h_open h = Some ops" "user_key (op_Key w)" using ok by auto
    from ice_write [OF rel op] show ?thesis using CWrite op by (auto simp: ice_rel_def step_ok_def)
  qed (use ok step_begin [OF rel] step_end [OF rel] step_revert [OF rel] step_finalize [OF rel] in simp_all)
  then show "ice_rel bah (fst (h_step bah c h)) (fst (ib_step c b))" "snd (ib_step c b) = snd (h_step bah c h)"
    by (simp_all add: step_ok_def)
qed

lemma ice_run:
  "ice_rel bah h b \<Longrightarrow> commands_ok bah cs h \<Longrightarrow>
     ice_rel bah (fst (h_run bah cs h)) (fst (ib_run cs b)) \<and> snd (ib_run cs b) = snd (h_run bah cs h)"
proof (induction cs arbitrary: h b)
  case (Cons c cs)
  then have "ice_rel bah (fst (h_step bah c h)) (fst (ib_step c b))" "snd (ib_step c b) = snd (h_step bah c h)"
    using ice_step by simp_all
  with Cons.IH [OF this(1)] Cons.prems(2) show ?case by (simp add: case_prod_beta Let_def)
qed simp

lemma ice_rel_observe:
  assumes "ice_rel bah h b"
  shows "user_key k \<Longrightarrow> svc_Get (ib_db b) k = h_state h k"
    and "LatestBlock b = (of_nat (h_next h - 1), h_open h \<noteq> None)"
    and "LastFinalizedBlock b = of_nat (h_first h)"
proof -
  obtain vs ss where rel: "ice_at bah h vs ss b" using assms by (auto simp: ice_rel_def)
  note d = ice_atD [OF rel] and num = ice_at_numbers [OF rel]
  show "svc_Get (ib_db b) k = h_state h k" if "user_key k"
    using svc_Get_rel [OF d(1) that] d(2) by (simp add: last_run_states h_state_def)
  have f: "ib_hasFinalized b = (0 < h_first h)" and p: "ib_inProgress b = (h_open h \<noteq> None)"
    using rel by (simp_all add: ice_at_def)
  show "LastFinalizedBlock b = of_nat (h_first h)" using f d(6) by (simp add: LastFinalizedBlock_def)
  have "1 < ib_next b \<longleftrightarrow> 1 < h_next h" using num(1) by (simp add: word_less_nat_alt)
  moreover have "h_open h = None" if "\<not> 1 < h_next h"
    using that by (cases "h_open h") (simp_all add: h_next_def)
  moreover have "ib_next b - 1 = of_nat (h_next h - 1)" "\<not> 1 < h_next h \<Longrightarrow> h_next h - 1 = 0"
    using d(4) by (simp_all add: h_next_def)
  ultimately show "LatestBlock b = (of_nat (h_next h - 1), h_open h \<noteq> None)"
    using p by (cases "1 < h_next h") (simp_all add: LatestBlock_def)
qed

section \<open>Genesis\<close>

lemma fold_svc_op:
  assumes "dq_sessions (sq_dq q) = us @ [u]" and "dq_below (sq_dq q) = []"
  shows "fold svc_op ops q = q\<lparr>sq_dq := (sq_dq q)\<lparr>dq_sessions := us @ [session_Write ops u]\<rparr>\<rparr>"
  using assms
proof (induction ops arbitrary: q u)
  case Nil
  then show ?case by (simp add: session_Write_def)
next
  case (Cons w ops)
  let ?q = "svc_op w q"
  have q: "?q = q\<lparr>sq_dq := (sq_dq q)\<lparr>dq_sessions := us @ [session_op w u]\<rparr>\<rparr>"
    using Cons.prems(1) by (simp add: svc_op_eq dq_write_op_def)
  have "fold svc_op ops ?q = ?q\<lparr>sq_dq := (sq_dq ?q)\<lparr>dq_sessions := us @ [session_Write ops (session_op w u)]\<rparr>\<rparr>"
    by (rule Cons.IH) (use Cons.prems(2) in \<open>simp_all add: q\<close>)
  then show ?case by (simp add: q session_Write_def)
qed

lemma changes_session_Write: "ss_changes (session_Write ops s) = ss_changes s @ ops"
  by (induction ops arbitrary: s) (auto simp: session_Write_def)

lemma open_genesis_eq:
  "open_genesis rows =
     svc_set_rdb (fst (TagRevision (rv_Current (revdb_Write rows (NewRevertibleDatabase []))) GENESIS_TAG
       (revdb_Write rows (NewRevertibleDatabase [])))) (svc_Start [])"
proof -
  let ?q = "sq_BeginTransaction (svc_Start [])"
  have q: "?q = \<lparr>sq_dq = \<lparr>dq_db = NewRevertibleDatabase [], dq_readFront = True, dq_sessions = [empty_session],
      dq_below = []\<rparr>, sq_tags = [], sq_tagsByIdx = []\<rparr>"
    by (simp add: sq_BeginTransaction_def svc_Start_def NewSquashableDatabase_def NewDBDeque_def pushFront_def)
  have w: "fold svc_op rows ?q = ?q\<lparr>sq_dq := (sq_dq ?q)\<lparr>dq_sessions := [] @ [session_Write rows empty_session]\<rparr>\<rparr>"
    by (rule fold_svc_op) (simp_all add: q)
  have w': "fold svc_op rows ?q = \<lparr>sq_dq = \<lparr>dq_db = NewRevertibleDatabase [], dq_readFront = True,
      dq_sessions = [session_Write rows empty_session], dq_below = []\<rparr>, sq_tags = [], sq_tagsByIdx = []\<rparr>"
    unfolding w by (simp add: q)
  have "fst (svc_EndTransaction True (fold svc_op rows ?q)) =
      svc_set_rdb (revdb_Write rows (NewRevertibleDatabase [])) (svc_Start [])"
    unfolding w' by (simp add: svc_EndTransaction_def sq_EndTransaction_def popFront_def Let_def commitToDbWriter_def
        changes_session_Write drop_sessions_def write_below_def svc_set_rdb_def svc_Start_def
        NewSquashableDatabase_def NewDBDeque_def empty_session_def)
  then show ?thesis
    unfolding open_genesis_def Let_def
    by (simp add: svc_TagRevision_def on_rdb_def svc_rdb_def svc_set_rdb_def split: prod.splits)
qed

lemma rdb_genesis:
  assumes us: "user_ops rows" and row: "leaves_row rows"
  defines "d \<equiv> revdb_Write rows (NewRevertibleDatabase [])"
  defines "d' \<equiv> fst (TagRevision (rv_Current d) GENESIS_TAG d)"
  shows "rdb_rel 0 [apply_ops rows (\<lambda>_. None)] d'" and "rv_enable d'"
    and "rv_Current d' = 1" and "rv_Base d' = 0" and "rv_Rev2Tag d' = [(1, GENESIS_TAG)]"
proof -
  let ?d0 = "NewRevertibleDatabase []"
  have fresh: "rev_inv (\<lambda>_. uview ?d0) ?d0" "rv_Current ?d0 = 0" "rv_Base ?d0 = 0" "rv_enable ?d0"
    using fresh_rev_inv [of "[]"] by (simp_all add: tbl_ok_def)
  have d0: "rv_Rev2Tag ?d0 = []" "rv_Tag2Rev ?d0 = []" "rv_presetTag ?d0 = ''''" "uview ?d0 = (\<lambda>_. None)"
    by (simp_all add: NewRevertibleDatabase_def db_Get_def uview_def revdb_Get_def fun_eq_iff)
  note w = revdb_Write_enabled [OF fresh(1) _ fresh(4) us leaves_row_changing [OF row], folded d_def]
  have w': "rev_inv ((\<lambda>_. uview ?d0)(Suc 0 := uview d)) d" "uview d = apply_ops rows (\<lambda>_. None)"
    "rv_Current d = 1" "rv_Base d = 0" "rv_enable d"
    using w fresh d0 by simp_all
  have tags: "rv_Rev2Tag d = []" "rv_Tag2Rev d = []"
    using d0 fresh(4) by (simp_all add: d_def revdb_Write_def Let_def applyPresetTag_def)
  let ?d1 = "fst (tagRevision 1 GENESIS_TAG d)"
  have d1: "?d1 = d\<lparr>rv_Rev2Tag := [(1, GENESIS_TAG)], rv_Tag2Rev := tbl_del [] [(GENESIS_TAG, 1)]\<rparr>"
    and op: "snd (tagRevision 1 GENESIS_TAG d) = [tags_op ?d1]"
    using tags by (simp_all add: tagRevision_def Let_def GENESIS_TAG_def tbl_get_def)
  have d': "d' = ?d1\<lparr>rv_db := db_Write [tags_op ?d1] (rv_db d)\<rparr>"
    using w'(3,4) op d1 by (simp add: d'_def TagRevision_def case_prod_beta Let_def)
  have ok: "tbl_ok (rv_db d)" using w'(1) by (simp add: rev_inv_def)
  have get: "db_Get (rv_db d') k = (if k = key_rev_tags then Some (op_Value (tags_op ?d1)) else db_Get (rv_db d) k)" for k
    using db_Get_Write [OF ok, of "[tags_op ?d1]"] by (simp add: d' tags_op_def)
  have "uview d' = uview d" by (simp add: fun_eq_iff uview_def revdb_Get_def get)
  moreover have "log_at d' = log_at d" by (simp add: fun_eq_iff log_at_def get)
  moreover have "rv_Current d' = rv_Current d" "rv_Base d' = rv_Base d" "tbl_ok (rv_db d')" "rv_enable d' = rv_enable d"
    using ok by (simp_all add: d' d1)
  ultimately have inv: "rev_inv ((\<lambda>_. uview ?d0)(Suc 0 := uview d)) d'"
    using w'(1) rev_keys_outside(2) by (auto simp: rev_inv_def get)
  show "rv_enable d'" "rv_Current d' = 1" "rv_Base d' = 0" "rv_Rev2Tag d' = [(1, GENESIS_TAG)]"
    using w' by (simp_all add: d' d1)
  have "tags_exact 0 0 1 d" using tags by (simp add: tags_exact_def rev_tag_def tbl_ok_def)
  from tagRevision_new [OF this] have "tags_exact 0 1 1 ?d1" by (simp add: tag_of_def)
  then have "tags_exact 0 1 1 d'" by (simp add: tags_exact_def d')
  then show "rdb_rel 0 [apply_ops rows (\<lambda>_. None)] d'"
    unfolding rdb_rel_def using inv w'(2) \<open>rv_Current d' = 1\<close> \<open>rv_Base d' = 0\<close>
    by (intro conjI exI [of _ 1] exI [of _ "(\<lambda>_. uview ?d0)(Suc 0 := uview d)"]) auto
qed

lemma ice_genesis:
  assumes "user_ops rows" and "leaves_row rows"
  shows "ice_rel bah (genesis_history rows) (NewBlockIceberg (open_genesis rows) bah)"
proof -
  note g = rdb_genesis [OF assms]
  let ?d = "fst (TagRevision (rv_Current (revdb_Write rows (NewRevertibleDatabase []))) GENESIS_TAG
       (revdb_Write rows (NewRevertibleDatabase [])))"
  let ?v = "apply_ops rows (\<lambda>_. None)"
  have q: "open_genesis rows = \<lparr>sq_dq = \<lparr>dq_db = ?d, dq_readFront = True, dq_sessions = [], dq_below = []\<rparr>,
      sq_tags = [], sq_tagsByIdx = []\<rparr>"
    by (simp add: open_genesis_eq svc_set_rdb_def svc_Start_def NewSquashableDatabase_def NewDBDeque_def)
  have svc: "svc_rel 0 [?v] [] (open_genesis rows)"
    using g(1,2) by (simp add: q svc_rel_def svc_rdb_def sessions_rel_def sessions_ok_def stags_exact_def tbl_ok_def)
  have no_num: "blockNumberFromString GENESIS_TAG = None" "blockNumberFromString '''' = None" by code_simp+
  let ?b = "\<lparr>ib_db = open_genesis rows, ib_inProgress = False, ib_next = 1, ib_hasFinalized = False, ib_finalized = 0,
       ib_seaLevel = 1, ib_highWM = 128, ib_lowWM = 127, ib_lastBlockApplyHash = 0, ib_enableBAH = bah\<rparr>"
  have "NewBlockIceberg (open_genesis rows) bah = loadBlockApplyHash ?b"
    using g(3-5) no_num
    by (simp add: NewBlockIceberg_def GetRevisionAndBase_def GetRevisionTag_def svc_rdb_def q tbl_get_def)
  moreover have "ice_at bah (genesis_history rows) [?v] [] ?b"
    using svc by (simp add: ice_at_def genesis_history_def h_batches_def h_next_def) (simp add: q)
  moreover have "ice_at bah h vs ss (loadBlockApplyHash b) = ice_at bah h vs ss b" for h vs ss b
    by (simp add: loadBlockApplyHash_def ice_at_def)
  ultimately show ?thesis unfolding ice_rel_def by metis
qed

text \<open>
  C32. The block iceberg implements a history of blocks. Whatever sequence of begin, write, end,
  revert and finalize is executed on a new chain, with any interleaving of failing calls, every call
  returns the error the history returns, every key reads as the history's current state says, and
  the reported latest and last finalized block are those of the history.
\<close>

theorem iceberg_refines_history:
  assumes "user_ops rows" and "leaves_row rows" and "commands_ok bah cs (genesis_history rows)"
    and "h_run bah cs (genesis_history rows) = (h, hs)"
    and "ib_run cs (NewBlockIceberg (open_genesis rows) bah) = (b, bs)"
  shows "bs = hs \<and> (\<forall>k. user_key k \<longrightarrow> svc_Get (ib_db b) k = h_state h k) \<and>
    LatestBlock b = (of_nat (h_next h - 1), h_open h \<noteq> None) \<and> LastFinalizedBlock b = of_nat (h_first h)"
  using ice_run [OF ice_genesis [OF assms(1,2)] assms(3)] ice_rel_observe assms(4,5) by auto

theorem iceberg_refines_history_witness:
  "let run = ib_run [CBegin 1, CWrite (Put [1] (Raw [6])), CEnd True, CBegin 2, CWrite (Del [1]), CRevert 1, CEnd True,
                     CFinalize 1, CRevert 1, CRevert 2, CFinalize 2]
               (NewBlockIceberg (open_genesis [Put [1] (Raw [5])]) True) in
   snd run = [None, None, None, None, None, Some ''cannot revert block without ending block first'', None, None,
              Some ''cannot revert block: it is not reversible'', None,
              Some ''cannot finalize block: beyond the maximum finalizable block''] \<and>
   svc_Get (ib_db (fst run)) [1] = Some (Raw [6]) \<and> LastFinalizedBlock (fst run) = 1"
proof -
  let ?cs = "[CBegin 1, CWrite (Put [1] (Raw [6])), CEnd True, CBegin 2, CWrite (Del [1]), CRevert 1, CEnd True,
                     CFinalize 1, CRevert 1, CRevert 2, CFinalize 2]"
  let ?rows = "[Put [1] (Raw [5])]"
  have key: "user_key [1]" by (simp add: user_key_def info_prefix_def bytes_of_string_def)
  have ok: "user_ops ?rows" "leaves_row ?rows" using key by (simp_all add: user_ops_def leaves_row_def)
  have "commands_ok True ?cs (genesis_history ?rows)"
    using key by (simp add: genesis_history_def h_next_def h_batches_def)
  from iceberg_refines_history [OF ok this prod.collapse [symmetric] prod.collapse [symmetric]] key
  show ?thesis by (simp add: Let_def genesis_history_def h_next_def h_batches_def h_state_def seal_def keyLatestBlockApplyChecksum_def bytes_of_string_def)
qed

end
