(* ===== verification/Controller.thy ===== *)
theory Controller
  imports Examples BlockHistory
begin

text \<open>
  The controller as consensus sees it (\<open>PushBlock\<close>, \<open>PopBlock\<close> and \<open>Commit\<close> of \<open>app/trx_pool.go\<close>): it
  keeps the state after the last finalized block and after every later one, pushes a block on top,
  goes back to the state before a block, and makes a block final. The list of states is the
  specification of the block iceberg (theory BlockHistory) with rows read as tables; the theory shows
  that it follows it, and that whatever consensus does every state it can return to is one the ledger
  theorems hold for.
\<close>

record controller =
  ct_pool :: pool
  ct_first :: nat
  ct_states :: "db list"

definition ct_next :: "controller \<Rightarrow> nat" where
  "ct_next c = ct_first c + length (ct_states c)"

definition new_controller :: "pubkey \<Rightarrow> trx_mgr \<Rightarrow> controller" where
  "new_controller key tm =
     \<lparr>ct_pool = \<lparr>pl_db = initGenesis key, pl_tm = tm\<rparr>, ct_first = 0, ct_states = [initGenesis key]\<rparr>"

text \<open>
  \<open>PushBlock\<close> ignores the error of \<open>BeginBlock\<close>; a block with a wrong number would be applied to the
  current state without a way back.
\<close>

definition ctrl_PushBlock :: "pool_env \<Rightarrow> signed_block \<Rightarrow> controller \<Rightarrow> controller \<times> panic option" where
  "ctrl_PushBlock env blk c =
     (let n = BlockNum (Block_Id (pe_HeaderHash env) blk);
          begun = (n \<noteq> 0 \<and> unat n = ct_next c);
          latest = (if begun then n else of_nat (ct_next c - 1)) in
      case applyBlock (env\<lparr>pe_LatestBlock := latest\<rparr>) False False blk (ct_pool c) of
        (p, Inl e) \<Rightarrow>
          (if begun then c\<lparr>ct_pool := p\<lparr>pl_db := pl_db (ct_pool c)\<rparr>\<rparr>
           else c\<lparr>ct_pool := p, ct_states := butlast (ct_states c) @ [pl_db p]\<rparr>, Some e)
      | (p, Inr _) \<Rightarrow>
          (c\<lparr>ct_pool := p,
             ct_states := (if begun then ct_states c else butlast (ct_states c)) @ [pl_db p]\<rparr>, None))"

text \<open>Reverting the transaction manager may write to the state it has gone back to.\<close>

definition ctrl_reverted :: "u64 \<Rightarrow> controller \<Rightarrow> controller" where
  "ctrl_reverted num c =
     (case mgr_BlockReverted num (pl_tm (ct_pool c)) (pl_db (ct_pool c)) of
        (m, s) \<Rightarrow> c\<lparr>ct_pool := \<lparr>pl_db = s, pl_tm = m\<rparr>, ct_states := butlast (ct_states c) @ [s]\<rparr>)"

definition ctrl_Revert :: "u64 \<Rightarrow> controller \<Rightarrow> controller \<times> string option" where
  "ctrl_Revert num c =
     (if num = 0 then (c, Some ''invalid block number 0'')
      else if unat num \<le> ct_first c then (c, Some ''cannot revert block: it is not reversible'')
      else if ct_next c \<le> unat num then (c, Some ''cannot revert a future block'')
      else
        let states = take (unat num - ct_first c) (ct_states c) in
        (c\<lparr>ct_states := states, ct_pool := (ct_pool c)\<lparr>pl_db := last states\<rparr>\<rparr>, None))"

definition ctrl_PopBlock :: "u64 \<Rightarrow> controller \<Rightarrow> controller \<times> string option" where
  "ctrl_PopBlock num c = (let (c1, err) = ctrl_Revert num c in (ctrl_reverted num c1, err))"

definition ctrl_Finalize :: "u64 \<Rightarrow> controller \<Rightarrow> controller \<times> string option" where
  "ctrl_Finalize num c =
     (if num = 0 then (c, Some ''invalid block number 0'')
      else if unat num \<le> ct_first c then (c, None)
      else if ct_next c \<le> unat num then (c, Some ''cannot finalize block: beyond the maximum finalizable block'')
      else (c\<lparr>ct_first := unat num, ct_states := drop (unat num - ct_first c) (ct_states c)\<rparr>, None))"

definition ctrl_Commit :: "u64 \<Rightarrow> controller \<Rightarrow> controller res" where
  "ctrl_Commit num c =
     (case ctrl_Finalize num c of
        (c1, Some err) \<Rightarrow> Inl (Assert err)
      | (c1, None) \<Rightarrow>
          Inr (c1\<lparr>ct_pool := (ct_pool c1)\<lparr>pl_tm := mgr_BlockCommitted num (pl_tm (ct_pool c1))\<rparr>\<rparr>))"

definition GetHeadBlockNum :: "controller \<Rightarrow> u64" where
  "GetHeadBlockNum c = of_nat (ct_next c - 1)"

definition GetFinalizedNum :: "controller \<Rightarrow> u64" where
  "GetFinalizedNum c = of_nat (ct_first c)"

definition GetShuffledBpList :: "controller \<Rightarrow> name list \<times> pubkey list \<times> u64" where
  "GetShuffledBpList c =
     (let s = db_schedule (pl_db (ct_pool c)) in (bs_CurrentShuffledBlockProducer s, bs_PubKey s, bs_Seq s))"

section \<open>The head of a state\<close>

abbreviation head_id :: "db \<Rightarrow> hash" where
  "head_id s \<equiv> dp_HeadBlockId (db_props s)"

lemma BlockNum_take [simp]: "BlockNum (take 32 x) = BlockNum x"
  by (simp add: BlockNum_def le_Uint64_def min_def)

lemma BlockNum_Block_Id: "sb_Previous b \<noteq> [] \<Longrightarrow> BlockNum (Block_Id h b) = BlockNum (sb_Previous b) + 1"
  using BlockNum_take [of "sb_Previous b"]
  by (simp add: Block_Id_def Let_def) (simp add: BlockNum_def le_Uint64_PutUint64)

lemma Block_Id_nonempty [simp]: "Block_Id h b \<noteq> []"
  by (simp add: Block_Id_def Let_def le_PutUint64_def numeral_eq_Suc)

lemma ShareTicketBonus_head: "head_id (ShareTicketBonus s) = head_id s"
proof -
  have "db_props (share_all xs u) = db_props u" for xs u using share_all_paid [of xs u] by (auto simp: paid_out_def)
  then show ?thesis by (simp add: ShareTicketBonus_def Let_def)
qed

lemma shuffle_head:
  assumes "shuffle env blk s = Inr (r, s')"
  shows "head_id s' = head_id s"
  using shuffle_shape [OF assms [unfolded shuffle_def Let_def]] ShareTicketBonus_head [of s]
  by (auto simp: updateProducers_def Let_def)

lemma update_after_trxs_head:
  assumes "update_after_trxs env blk s = Inr s'"
  shows "head_id s' = Block_Id (pe_HeaderHash env) blk"
proof -
  from update_shape [OF assms [unfolded update_after_trxs_def]] obtain s1 names s2 s3 where
    u: "updateGlobalProperties env blk s = Inr s1" "shuffle env blk s1 = Inr (names, s2)"
    "updateAvgTps env blk s3 = Inr s'" and
    r: "(case names of None \<Rightarrow> Inr s2
        | Some ns \<Rightarrow> if length ns > 0 then updateGlobalResourceParam ns s2 else Inr s2) = Inr s3"
    by blast
  have "head_id s1 = Block_Id (pe_HeaderHash env) blk"
    using u(1) by (auto simp: updateGlobalProperties_def Let_def res_inv)
  moreover have "head_id s3 = head_id s2"
    using r by (auto simp: updateGlobalResourceParam_def res_inv split: option.splits if_splits)
  moreover have "head_id s' = head_id s3"
    using u(3) by (auto simp: updateAvgTps_def Let_def res_inv split: prod.splits)
  ultimately show ?thesis using shuffle_head [OF u(2)] by simp
qed

lemma history_head: "history_BlockApplied b c s = Inr (c', s') \<Longrightarrow> head_id s' = head_id s"
  by (auto simp: history_BlockApplied_def ib_remove_def Let_def res_inv split: if_splits)

lemma pool_BlockApplied_head: "pool_BlockApplied env blk c = (c', Inr u) \<Longrightarrow> head_id (pl_db c') = head_id (pl_db c)"
  by (auto simp: pool_BlockApplied_def mgr_BlockApplied_def Let_def rbind_Inr_iff
      dest!: history_head split: sum.splits prod.splits)

lemma economist_steps_head:
  assumes "economist_steps s = Inr s'" and ok: "chain_ok s" and year: "dp_IthYear (db_props s) \<noteq> - 1"
  shows "head_id s' = head_id s"
proof -
  from assms(1) obtain s1 s2 s3 s4 where m: "Mint s = Inr s1" and d: "Distribute s1 = Inr s2"
    and c: "Do s2 = Inr s3" and p: "PowerDown s3 = Inr s4" and v: "DeliverDelegatedVests s4 = Inr s'"
    by (auto simp: economist_steps_def rbind_Inr_iff)
  have led: "ledger_ok s" and sch: "mint_schedule s" using ok by (simp_all add: chain_ok_def state_ok_def)
  note mint = Mint_ledger [OF m led] Mint_schedule [OF m led sch year] Mint_frame [OF m]
  have ok1: "chain_ok s1"
    using ok mint by (auto simp: chain_ok_def state_ok_def mint_frame_def rows_rel_def globals_ok_def)
  note k2 = Distribute_kept [OF d]
  have pre: "eco_pre s2"
    using chain_ok_step(1) [OF eco_step [OF k2] ok1] by (simp add: eco_pre_def chain_ok_def state_ok_def)
  show ?thesis
    using mint(3) k2 Do_kept [OF c pre] PowerDown_kept [OF p] DeliverDelegatedVests_kept [OF v]
    by (simp add: mint_frame_def eco_kept_def)
qed

lemma updateGlobalBpBootMark_head: "updateGlobalBpBootMark s = Inr s' \<Longrightarrow> head_id s' = head_id s"
  by (auto simp: updateGlobalBpBootMark_def res_inv split: if_splits option.splits)

lemma applyBlock_head:
  assumes run: "applyBlock env skip_check False blk c = (c', Inr u)"
    and env: "env_admin_safe (pe_vm env)" and ok: "chain_ok (pl_db c)"
    and year: "dp_IthYear (db_props (pl_db c)) \<noteq> - 1"
  shows "head_id (pl_db c') = Block_Id (pe_HeaderHash env) blk"
proof -
  obtain c1 c2 c3 s4 where t: "(if False then (c, Inr ()) else pbind (pool_check env blk c) (\<lambda>es.
        pool_db (\<lambda>s. rbind (apply_batches env (map tw_Receipt (sb_Transactions blk)) es s)
                       (update_after_trxs env blk)))) = (c1, Inr ())"
    and b: "pool_db (createBlockSummary env blk) c1 = (c2, Inr ())" and a: "pool_BlockApplied env blk c2 = (c3, Inr ())"
    and e: "economist_steps (pl_db c3) = Inr s4" and m: "updateGlobalBpBootMark s4 = Inr (pl_db c')"
    by (rule applyBlock_steps [OF run])
  have "head_id (pl_db c1) = Block_Id (pe_HeaderHash env) blk"
    using t by (auto simp: pbind_Inr pool_db_Inr rbind_Inr_iff dest: update_after_trxs_head)
  moreover have "head_id (pl_db c2) = head_id (pl_db c1)"
    using b by (auto simp: pool_db_Inr createBlockSummary_def Let_def res_inv)
  moreover note pool_BlockApplied_head [OF a] updateGlobalBpBootMark_head [OF m]
  moreover have "head_id s4 = head_id (pl_db c3)"
  proof -
    note k = chain_ok_step [OF applyBlock_before_economist [OF t b a env] ok]
    show ?thesis by (rule economist_steps_head [OF e k(1)]) (use year k(4) in simp)
  qed
  ultimately show ?thesis by simp
qed

lemma applyBlock_previous:
  "applyBlock env False skip_trxs blk c = (c', Inr u) \<Longrightarrow> head_id (pl_db c) = sb_Previous blk"
  by (erule applyBlock_steps) (auto simp: block_check_def validateBlockHeader_def rbind_Inr_iff res_inv)

section \<open>The states a node can return to\<close>

definition block_ok :: "nat \<Rightarrow> db \<Rightarrow> bool" where
  "block_ok n s = (chain_ok s \<and> unat (dp_IthYear (db_props s)) \<le> Suc n \<and> head_id s \<noteq> [] \<and>
     BlockNum (head_id s) = of_nat n)"

definition states_ok :: "nat \<Rightarrow> db list \<Rightarrow> bool" where
  "states_ok n ss = (\<forall>i < length ss. block_ok (n + i) (ss ! i))"

definition ct_ok :: "controller \<Rightarrow> bool" where
  "ct_ok c = (ct_states c \<noteq> [] \<and> last (ct_states c) = pl_db (ct_pool c) \<and> states_ok (ct_first c) (ct_states c))"

lemma states_ok_take: "states_ok n ss \<Longrightarrow> states_ok n (take k ss)"
  by (simp add: states_ok_def)

lemma states_ok_drop: "states_ok n ss \<Longrightarrow> states_ok (n + k) (drop k ss)"
  unfolding states_ok_def by (metis add.assoc length_drop less_diff_conv add.commute nth_drop add_leD1 less_imp_le_nat linorder_not_le drop_all list.size(3) not_less_zero)

lemma states_ok_snoc: "states_ok n (ss @ [s]) \<longleftrightarrow> states_ok n ss \<and> block_ok (n + length ss) s"
  by (auto simp: states_ok_def nth_append less_Suc_eq)

lemma states_ok_last: "states_ok n ss \<Longrightarrow> ss \<noteq> [] \<Longrightarrow> block_ok (n + length ss - 1) (last ss)"
  by (cases ss rule: rev_cases) (auto simp: states_ok_snoc)

lemma states_ok_replace_last:
  "states_ok n ss \<Longrightarrow> ss \<noteq> [] \<Longrightarrow> (\<And>m. block_ok m (last ss) \<Longrightarrow> block_ok m s) \<Longrightarrow> states_ok n (butlast ss @ [s])"
  by (cases ss rule: rev_cases) (auto simp: states_ok_snoc)

lemma block_ok_genesis: "block_ok 0 (initGenesis key)"
  using genesis_ok [of key]
  by (simp add: block_ok_def initGenesis_def genesis_props_def zero_id_def BlockNum_def le_Uint64_def numeral_eq_Suc)

text \<open>The rows of the replay check do not matter to the invariant.\<close>

lemma block_ok_blocktrxs: "block_ok n s \<Longrightarrow> block_ok n (s\<lparr>db_blocktrxs := t\<rparr>)"
proof -
  assume ok: "block_ok n s"
  have "step_kept s (s\<lparr>db_blocktrxs := t\<rparr>)"
    by (auto simp: step_kept_def state_ok_def ledger_defs globals_ok_def weights_ok_def tables_ok_def)
  from chain_ok_step [OF this] ok show ?thesis by (simp add: block_ok_def)
qed

lemma mgr_BlockReverted_db: "\<exists>t. snd (mgr_BlockReverted num m s) = s\<lparr>db_blocktrxs := t\<rparr>"
proof -
  have "\<exists>t. snd (history_BlockReverted num h s) = s\<lparr>db_blocktrxs := t\<rparr>" for h
  proof (cases "num \<le> ib_last h")
    case True
    then show ?thesis by (auto simp: history_BlockReverted_def ib_remove_def Let_def)
  next
    case False
    then show ?thesis by (intro exI [of _ "db_blocktrxs s"]) (simp add: history_BlockReverted_def)
  qed
  then show ?thesis by (simp add: mgr_BlockReverted_def Let_def split_def)
qed

lemma ctrl_reverted_ok:
  assumes "ct_ok c"
  shows "ct_ok (ctrl_reverted num c)" and "ct_first (ctrl_reverted num c) = ct_first c"
    and "butlast (ct_states (ctrl_reverted num c)) = butlast (ct_states c)"
proof -
  obtain m t where r: "mgr_BlockReverted num (pl_tm (ct_pool c)) (pl_db (ct_pool c)) =
      (m, (pl_db (ct_pool c))\<lparr>db_blocktrxs := t\<rparr>)"
    using mgr_BlockReverted_db [of num "pl_tm (ct_pool c)" "pl_db (ct_pool c)"] by (metis prod.collapse)
  show "ct_ok (ctrl_reverted num c)"
    using assms states_ok_replace_last [OF _ _ block_ok_blocktrxs, of "ct_first c" "ct_states c"]
    by (simp add: ctrl_reverted_def r ct_ok_def)
  show "ct_first (ctrl_reverted num c) = ct_first c"
    and "butlast (ct_states (ctrl_reverted num c)) = butlast (ct_states c)"
    by (simp_all add: ctrl_reverted_def r)
qed

lemma ctrl_Revert_ok:
  assumes "ct_ok c" and "ctrl_Revert num c = (c', r)"
  shows "ct_ok c'"
proof (cases "num = 0 \<or> unat num \<le> ct_first c \<or> ct_next c \<le> unat num")
  case True
  then have "c' = c" using assms(2) by (auto simp: ctrl_Revert_def split: if_splits)
  with assms(1) show ?thesis by simp
next
  case False
  let ?ss = "take (unat num - ct_first c) (ct_states c)"
  have "c' = c\<lparr>ct_states := ?ss, ct_pool := (ct_pool c)\<lparr>pl_db := last ?ss\<rparr>\<rparr>"
    using assms(2) False by (auto simp: ctrl_Revert_def Let_def)
  with assms(1) False states_ok_take show ?thesis by (auto simp: ct_ok_def)
qed

lemma ctrl_PopBlock_ok: "ct_ok c \<Longrightarrow> ctrl_PopBlock num c = (c', r) \<Longrightarrow> ct_ok c'"
  by (auto simp: ctrl_PopBlock_def Let_def split: prod.splits intro: ctrl_reverted_ok(1) dest: ctrl_Revert_ok)

lemma ctrl_Commit_ok:
  assumes "ct_ok c" and "ctrl_Commit num c = Inr c'"
  shows "ct_ok c'"
proof -
  obtain c1 where c1: "ctrl_Finalize num c = (c1, None)"
    and c': "c' = c1\<lparr>ct_pool := (ct_pool c1)\<lparr>pl_tm := mgr_BlockCommitted num (pl_tm (ct_pool c1))\<rparr>\<rparr>"
    using assms(2) by (auto simp: ctrl_Commit_def split: prod.splits option.splits)
  have "ct_ok c1"
  proof (cases "unat num \<le> ct_first c")
    case True
    with c1 assms(1) show ?thesis by (auto simp: ctrl_Finalize_def split: if_splits)
  next
    case False
    let ?k = "unat num - ct_first c"
    have k: "?k < length (ct_states c)" "c1 = c\<lparr>ct_first := unat num, ct_states := drop ?k (ct_states c)\<rparr>"
      using c1 False by (auto simp: ctrl_Finalize_def ct_next_def split: if_splits)
    have "states_ok (unat num) (drop ?k (ct_states c))"
      using states_ok_drop [of "ct_first c" "ct_states c" ?k] assms(1) False by (simp add: ct_ok_def)
    with k assms(1) show ?thesis by (simp add: ct_ok_def)
  qed
  then show ?thesis by (simp add: c' ct_ok_def)
qed

lemma year_small: "unat (y :: u32) \<le> n \<Longrightarrow> n < 2 ^ 32 - 1 \<Longrightarrow> y \<noteq> - 1"
  by (auto simp: unsigned_minus_1_eq_mask mask_eq_exp_minus_1)

text \<open>A block that passes the check of its header has the number the iceberg expects.\<close>

lemma checked_block_begins:
  assumes "ct_ok c" and "ct_next c < 2 ^ 32 - 2" and "block_check env blk (pl_db (ct_pool c)) = Inr ()"
  shows "BlockNum (Block_Id h blk) \<noteq> 0" and "unat (BlockNum (Block_Id h blk)) = ct_next c"
proof -
  define n where "n = BlockNum (Block_Id h blk)"
  have ok: "block_ok (ct_next c - 1) (pl_db (ct_pool c))"
    using states_ok_last [of "ct_first c" "ct_states c"] assms(1) by (simp add: ct_ok_def ct_next_def)
  have "head_id (pl_db (ct_pool c)) = sb_Previous blk"
    using assms(3) by (auto simp: block_check_def validateBlockHeader_def rbind_Inr_iff res_inv)
  then have "n = of_nat (ct_next c - 1) + 1"
    using ok BlockNum_Block_Id [of blk h] by (simp add: n_def block_ok_def)
  moreover have pos: "0 < ct_next c" using assms(1) by (simp add: ct_ok_def ct_next_def)
  ultimately have n: "n = of_nat (ct_next c)"
    by (metis Suc_pred' add.commute of_nat_Suc)
  have un: "unat n = ct_next c" using assms(2) by (simp add: n unat_of_nat)
  then show "unat (BlockNum (Block_Id h blk)) = ct_next c" by (simp add: n_def)
  show "BlockNum (Block_Id h blk) \<noteq> 0" using un pos by (auto simp: n_def)
qed

lemma ctrl_PushBlock_ok:
  assumes ok: "ct_ok c" and small: "ct_next c < 2 ^ 32 - 2" and env: "env_admin_safe (pe_vm env)"
    and push: "ctrl_PushBlock env blk c = (c', r)"
  shows "ct_ok c' \<and> (r = None \<longrightarrow> ct_first c' = ct_first c \<and> (\<exists>s. ct_states c' = ct_states c @ [s] \<and>
            head_id s = Block_Id (pe_HeaderHash env) blk \<and> head_id (last (ct_states c)) = sb_Previous blk)) \<and>
    (r \<noteq> None \<longrightarrow> ct_first c' = ct_first c \<and> ct_states c' = ct_states c)"
proof -
  let ?n = "BlockNum (Block_Id (pe_HeaderHash env) blk)"
  define begun where "begun = (?n \<noteq> 0 \<and> unat ?n = ct_next c)"
  define env1 where "env1 = env\<lparr>pe_LatestBlock := (if begun then ?n else of_nat (ct_next c - 1))\<rparr>"
  have e1: "pe_HeaderHash env1 = pe_HeaderHash env" "pe_vm env1 = pe_vm env" by (simp_all add: env1_def)
  have last: "last (ct_states c) = pl_db (ct_pool c)" "ct_states c \<noteq> []" using ok by (simp_all add: ct_ok_def)
  have lst: "block_ok (ct_next c - 1) (pl_db (ct_pool c))"
    using states_ok_last [of "ct_first c" "ct_states c"] ok by (simp add: ct_ok_def ct_next_def)
  have chain: "chain_ok (pl_db (ct_pool c))" and "unat (dp_IthYear (db_props (pl_db (ct_pool c)))) \<le> ct_next c"
    using lst last(2) by (auto simp: block_ok_def ct_next_def)
  then have year: "dp_IthYear (db_props (pl_db (ct_pool c))) \<noteq> -1" using small by (intro year_small) auto
  note push' = push [unfolded ctrl_PushBlock_def Let_def, folded begun_def, folded env1_def]
  obtain p v where run: "applyBlock env1 False False blk (ct_pool c) = (p, v)" by fastforce
  show ?thesis
  proof (cases v)
    case (Inr u)
    note run' = run [unfolded Inr]
    have "block_check env1 blk (pl_db (ct_pool c)) = Inr ()" by (rule applyBlock_steps [OF run']) simp
    note beg = checked_block_begins [OF ok small this, of "pe_HeaderHash env"]
    then have b: begun by (simp add: begun_def)
    have c': "c' = c\<lparr>ct_pool := p, ct_states := ct_states c @ [pl_db p]\<rparr>" "r = None"
      using push' unfolding run' by (simp_all add: b)
    have hd: "head_id (pl_db p) = Block_Id (pe_HeaderHash env) blk"
      using applyBlock_head [OF run' _ chain year] env by (simp add: e1)
    have "block_books (pl_db (ct_pool c)) (pl_db p)" using applyBlock_ok [OF run' _ chain year] env by (simp add: e1)
    then have "chain_ok (pl_db p)" "unat (dp_IthYear (db_props (pl_db p))) \<le> Suc (ct_next c)"
      using \<open>unat (dp_IthYear (db_props (pl_db (ct_pool c)))) \<le> ct_next c\<close> by (auto simp: block_books_def)
    moreover have "?n = of_nat (ct_next c)" using beg(2) by (metis of_nat_unat ucast_id)
    ultimately have "block_ok (ct_next c) (pl_db p)" using hd by (simp add: block_ok_def)
    then have "ct_ok c'" using ok by (simp add: c' ct_ok_def states_ok_snoc ct_next_def)
    with hd c' last applyBlock_previous [OF run'] show ?thesis by simp
  next
    case (Inl e)
    note run' = run [unfolded Inl]
    show ?thesis
    proof (cases begun)
      case True
      then have "c' = c\<lparr>ct_pool := p\<lparr>pl_db := pl_db (ct_pool c)\<rparr>\<rparr>" "r = Some e"
        using push' unfolding run' by simp_all
      with ok show ?thesis by (simp add: ct_ok_def)
    next
      case False
      have "block_check env1 blk (pl_db (ct_pool c)) \<noteq> Inr ()"
        using checked_block_begins [OF ok small, of env1 blk "pe_HeaderHash env"] False by (auto simp: begun_def)
      then have "p = ct_pool c"
        using run' by (auto simp: applyBlock_def pbind_def split: sum.splits)
      then have "c' = c" "r = Some e"
        using push' append_butlast_last_id [OF last(2)] unfolding run' last(1) by (simp_all add: False)
      with ok show ?thesis by simp
    qed
  qed
qed

section \<open>The list of states follows the block history\<close>

text \<open>
  \<open>rows\<close> reads the tables off the rows of the database. Reverting, finalizing and closing a block in
  the history of theory BlockHistory, which the iceberg refines, are the operations above.
\<close>

definition stores :: "(view \<Rightarrow> db) \<Rightarrow> history \<Rightarrow> controller \<Rightarrow> bool" where
  "stores rows h c = (h_open h = None \<and> ct_first c = h_first h \<and>
     ct_states c = map rows (run_states (h_base h) (h_blocks h)))"

lemma stores_next: "stores rows h c \<Longrightarrow> ct_next c = h_next h"
  by (simp add: stores_def ct_next_def h_next_def h_batches_def)

lemma revert_follows_history:
  assumes st: "stores rows h c" and "h_step bah (CRevert n) h = (h', e)" and "ctrl_Revert n c = (c', e')"
  shows "e' = e \<and> stores rows h' c'"
proof (cases "n = 0 \<or> unat n \<le> h_first h \<or> h_next h \<le> unat n")
  case True
  with assms stores_next [OF st] show ?thesis by (auto simp: ctrl_Revert_def stores_def split: if_splits)
next
  case False
  let ?k = "unat n - h_first h"
  have k: "?k - 1 \<le> length (h_blocks h)" "?k = Suc (?k - 1)"
    using False st by (auto simp: h_next_def h_batches_def stores_def)
  have "take ?k (run_states (h_base h) (h_blocks h)) = run_states (h_base h) (take (?k - 1) (h_blocks h))"
    using take_run_states [OF k(1), of "h_base h"] k(2) by simp
  with assms stores_next [OF st] False show ?thesis
    by (auto simp: ctrl_Revert_def stores_def Let_def take_map)
qed

lemma finalize_follows_history:
  assumes st: "stores rows h c" and "h_step bah (CFinalize n) h = (h', e)" and "ctrl_Finalize n c = (c', e')"
  shows "e' = e \<and> stores rows h' c'"
proof (cases "n = 0 \<or> unat n \<le> h_first h \<or> h_next h \<le> unat n")
  case True
  then have "h_first h + length (h_blocks h) < unat n \<or> n = 0 \<or> unat n \<le> h_first h"
    using st by (auto simp: h_next_def h_batches_def stores_def)
  with True assms stores_next [OF st] show ?thesis
    by (auto simp: ctrl_Finalize_def stores_def h_next_def h_batches_def Let_def split: if_splits)
next
  case False
  let ?k = "unat n - h_first h"
  have k: "?k \<le> length (h_blocks h)" "\<not> h_first h + length (h_blocks h) < unat n"
    using False st by (auto simp: h_next_def h_batches_def stores_def)
  show ?thesis
    using assms stores_next [OF st] False k drop_run_states [OF k(1), of "h_base h"]
    by (auto simp: ctrl_Finalize_def stores_def Let_def drop_map)
qed

lemma block_follows_history:
  assumes "stores rows h c" and "h_open h' = None" and "h_first h' = h_first h" and "h_base h' = h_base h"
    and "h_blocks h' = h_blocks h @ [ops]"
  shows "stores rows h' (c\<lparr>ct_states := ct_states c @ [rows (Session.apply_ops ops (h_state h))]\<rparr>)"
  using assms by (simp add: stores_def run_states_snoc h_state_def h_batches_def)

section \<open>Reachable controllers\<close>

inductive ctrl_reach :: "pubkey \<Rightarrow> controller \<Rightarrow> bool" for key where
  start: "ctrl_reach key (new_controller key tm)"
| push: "ctrl_reach key c \<Longrightarrow> env_admin_safe (pe_vm env) \<Longrightarrow> ct_next c < 2 ^ 32 - 2 \<Longrightarrow>
    ctrl_PushBlock env blk c = (c', r) \<Longrightarrow> ctrl_reach key c'"
| pop: "ctrl_reach key c \<Longrightarrow> ctrl_PopBlock num c = (c', e) \<Longrightarrow> ctrl_reach key c'"
| commit: "ctrl_reach key c \<Longrightarrow> ctrl_Commit num c = Inr c' \<Longrightarrow> ctrl_reach key c'"

lemma ctrl_reach_ok: "ctrl_reach key c \<Longrightarrow> ct_ok c"
proof (induction rule: ctrl_reach.induct)
  case (start tm)
  show ?case using block_ok_genesis by (simp add: new_controller_def ct_ok_def states_ok_def)
next
  case (push c env blk c' r)
  with ctrl_PushBlock_ok [OF push.IH push.hyps(3,2,4)] show ?case by simp
qed (auto dest: ctrl_PopBlock_ok ctrl_Commit_ok)

lemma ctrl_reach_state:
  assumes "ctrl_reach key c" and "i < length (ct_states c)"
  shows "block_ok (ct_first c + i) (ct_states c ! i)"
  using ctrl_reach_ok [OF assms(1)] assms(2) by (simp add: ct_ok_def states_ok_def)

section \<open>Properties\<close>

text \<open>An example: the controller after one block.\<close>

lemma ex_ctrl_accepted: "snd (ctrl_PushBlock ex_env ex_block (new_controller [1] ex_tm)) = None"
  by (simp add: ctrl_PushBlock_def new_controller_def ct_next_def exec cong: exec_cong)

lemma ex_ctrl: "\<exists>c. ctrl_reach [1] c \<and> ct_first c = 0 \<and> length (ct_states c) = 2"
proof -
  let ?c = "new_controller [1] ex_tm"
  obtain c where push: "ctrl_PushBlock ex_env ex_block ?c = (c, None)"
    using ex_ctrl_accepted by (cases "ctrl_PushBlock ex_env ex_block ?c") simp
  have reach: "ctrl_reach [1] ?c" by (rule ctrl_reach.start)
  have small: "ct_next ?c < 2 ^ 32 - 2" by (simp add: new_controller_def ct_next_def)
  have "ctrl_reach [1] c" by (rule ctrl_reach.push [OF reach ex_vm_safe small push])
  moreover have "ct_first c = 0" "length (ct_states c) = 2"
    using ctrl_PushBlock_ok [OF ctrl_reach_ok [OF reach] small ex_vm_safe push] by (auto simp: new_controller_def)
  ultimately show ?thesis by blast
qed

text \<open>
  C2. Whatever blocks consensus pushes, pops and commits, in every state the node can return to,
  the recorded totals agree with what accounts, contracts and pools hold and the supply stays within
  the total supply. The chain is assumed shorter than 2^32 - 2 blocks and contracts not to change an
  administrator after they moved vests (\<open>env_admin_safe\<close>); both are conditions of \<open>ctrl_reach\<close>.
\<close>

theorem node_states_keep_books:
  assumes "ctrl_reach key c" and "i < length (ct_states c)"
  shows "uint (dp_TotalCos (db_props (ct_states c ! i))) = held_cos (ct_states c ! i) \<and>
    held_vest (ct_states c ! i) \<le> uint (dp_TotalVest (db_props (ct_states c ! i))) \<and>
    totalSupply (ct_states c ! i) \<le> uint COSTotalSupply \<and>
    pl_db (ct_pool c) = last (ct_states c)"
  using ctrl_reach_state [OF assms] ctrl_reach_ok [OF assms(1)] mint_schedule_supply [of "ct_states c ! i"]
  by (simp add: block_ok_def chain_ok_def state_ok_def ledger_ok_def ct_ok_def)

theorem node_states_keep_books_witness:
  "\<exists>c. ctrl_reach [1] c \<and> length (ct_states c) = 2 \<and> totalSupply (ct_states c ! 1) \<le> uint COSTotalSupply"
proof -
  obtain c where "ctrl_reach [1] c" "length (ct_states c) = 2" using ex_ctrl by blast
  with node_states_keep_books [of "[1]" c 1] show ?thesis by auto
qed

text \<open>
  C26. Every state the node can return to is well formed: each table is a function of its keys, the
  recorded weights are natural numbers, the schedule holds at most twenty-one producers, and the state
  carries the id of a block whose number is the place of the state in the chain. Here too \<open>ctrl_reach\<close>
  asks for fewer than 2^32 - 2 blocks and for contracts that do not change an administrator after they
  moved vests (\<open>env_admin_safe\<close>).
\<close>

theorem node_states_well_formed:
  assumes "ctrl_reach key c" and "i < length (ct_states c)"
  shows "tables_ok (ct_states c ! i) \<and> weights_ok (ct_states c ! i) \<and> globals_ok (db_props (ct_states c ! i)) \<and>
    length (bs_CurrentShuffledBlockProducer (db_schedule (ct_states c ! i))) \<le> 21 \<and>
    BlockNum (dp_HeadBlockId (db_props (ct_states c ! i))) = of_nat (ct_first c + i)"
  using ctrl_reach_state [OF assms] by (simp add: block_ok_def chain_ok_def state_ok_def)

theorem node_states_well_formed_witness:
  "\<exists>c. ctrl_reach [1] c \<and> length (ct_states c) = 2 \<and> BlockNum (dp_HeadBlockId (db_props (ct_states c ! 1))) = 1"
proof -
  obtain c where "ctrl_reach [1] c" "ct_first c = 0" "length (ct_states c) = 2" using ex_ctrl by blast
  with node_states_well_formed [of "[1]" c 1] show ?thesis by auto
qed

end
