(* ===== verification/Spec2Isabelle.thy ===== *)
theory Spec2Isabelle
  imports IndexWalk ForkRun CheckPoint Controller
begin

text \<open>
  \<^bold>\<open>A verification library for the Contentos node.\<close> The program is a blockchain node written in
  Go. Consensus (\<open>src/consensus\<close>) receives blocks, keeps those that are not yet final in a fork
  database (\<open>src/db/forkdb\<close>) and hands them to the controller (\<open>src/app/trx_pool.go\<close>). The controller
  checks and schedules the transactions of a block, runs their operations against the tables of the
  chain state, then the economy, and keeps the database such that blocks can be reverted
  (\<open>src/app/block_iceberg.go\<close> over \<open>src/db/storage\<close>). The library models these parts as HOL functions,
  with a panic as the left value of a sum (type \<open>'a res\<close>), a recovered panic as a case distinction, and
  machine integers as words.

  \<^bold>\<open>Foundations.\<close>
  \<^item> \<open>Prelude\<close>: word types, panics, sequencing, collections of rewrite rules.
  \<^item> \<open>Decimal\<close>, \<open>Amount\<close>: numerals; checked arithmetic, printing and parsing of COS and VEST
    (\<open>prototype/coin.go\<close>, \<open>prototype/vest.go\<close>).
  \<^item> \<open>Table\<close>: the tables generated into \<open>app/table\<close> as association lists, with their ordered walks and
    an interface for weighted sums; \<open>ChainState\<close>: the rows, constants and dynamic properties.

  \<^bold>\<open>Transactions and blocks.\<close>
  \<^item> \<open>Operations\<close>, \<open>Evaluator\<close>, \<open>Contracts\<close>, \<open>TrxContext\<close>: messages and their validation
    (\<open>prototype\<close>), the \<open>Apply\<close> methods (\<open>app/evaluator.go\<close>), deployment, calls and native functions of
    contracts (\<open>vm\<close>), stamina accounting (\<open>app/trx_context.go\<close>, \<open>utils/resource_limit.go\<close> in
    \<open>ResourceLimit\<close>).
  \<^item> \<open>Sched\<close>, \<open>TrxMgr\<close>, \<open>Blocks\<close>: scheduler, transaction manager with its plugins, block ids and
    Merkle root. \<open>Economist\<close>: minting, tickets, cash-outs, power-down, delegation.
  \<^item> \<open>TrxPool\<close>: genesis, \<open>applyTransactionOnDb\<close>, \<open>applyBlock\<close>, the shuffle of the producers.
  \<^item> \<open>Ledger\<close>, \<open>OpFrame\<close>, \<open>TrxInvariant\<close>, \<open>MintSchedule\<close>, \<open>Cashout\<close>, \<open>BlockLedger\<close>: what each
    operation, each step of the economy and each block keeps; the locale \<open>trx_contract\<close> carries a
    relation kept by operations to whole batches and is interpreted twice. \<open>Examples\<close>: concrete inputs.

  \<^bold>\<open>Storage.\<close>
  \<^item> \<open>Kope\<close>, \<open>IndexWalk\<close>: the key encoding and that scanning encoded index entries is the ordered walk
    of the tables.
  \<^item> \<open>Store\<close>, \<open>Session\<close>, \<open>Revertible\<close>, \<open>Iceberg\<close>: the key-value contract, buffered sessions, the undo
    log, and the service and block iceberg over them. \<open>IcebergRefine\<close> relates the layers one by one, and
    \<open>BlockHistory\<close> shows that the whole refines a list of blocks, errors included.

  \<^bold>\<open>Consensus.\<close>
  \<^item> \<open>ForkDB\<close>: the operations of \<open>db/forkdb/forkdb.go\<close>; \<open>ForkTree\<close>: the tree they keep; \<open>ForkBranch\<close>:
    the states reached by pushing, refusing and committing, and the search for a common ancestor;
    \<open>ForkRun\<close>: all states, those of a fork switch and of a restart included.
  \<^item> \<open>Slots\<close>: time slots and turns; \<open>Dynasty\<close>: validators and the check of a commit; \<open>CheckPoint\<close>: the
    commits received and flushed (\<open>consensus/sabft.go\<close>, \<open>dynasty.go\<close>, \<open>validators.go\<close>, \<open>checkpoint.go\<close>).
  \<^item> \<open>Controller\<close>: \<open>PushBlock\<close>, \<open>PopBlock\<close> and \<open>Commit\<close> over the list of states that can be returned
    to. The list follows the history of \<open>BlockHistory\<close>.

  \<^bold>\<open>What is shown.\<close> The totals of both currencies agree with what is held after every transaction and
  every block, on every state the node can return to, and the supply stays within its bound; a failed
  transaction changes stamina only; minting and cash-outs pay what the schedule and the pools allow;
  schedules partition a batch into independent groups; charging stamina is exact and the stamina budget
  follows the load; reverting a database restores it; the fork database stays a tree whatever is done
  to it, and, as long as the head was not rewound, commits keep exactly the descendants and the search
  for an ancestor ends with the nearest one; every producer has its turn, and a node that is ready to
  produce accepts exactly the blocks that are in turn; accepted commits without repeated votes overlap. Several theorems state what
  the code does where it departs from its purpose; they are named in the list of findings.

  \<^bold>\<open>Parameters and bounds.\<close> SHA-256, protobuf sizes, signatures and key recovery, the WebAssembly
  interpreter (the list of native calls a run makes), the methods of the agreement library on votes and
  commits and its decoder (the record \<open>bft_env\<close>), and the walk over Go maps are parameters. The ledger
  theorems assume chains shorter than 2^32 - 2 blocks, when the year counter would wrap, and contracts
  that do not set an administrator after moving vests, which the code does not survive; this condition,
  \<open>env_admin_safe\<close>, is asked of every run of the interpreter, runs whose setter would be denied
  included. \<open>big.Int.Uint64\<close> is the low 64 bits of the absolute value, and the theorems on stamina are
  for amounts below 2^63, which \<open>int64\<close> conversions keep. Theorems on the fork database assume numbers
  one above the parent's and, where they commit, block numbers at least 2048 below 2^64; \<open>ForkRun\<close>
  assumes that ids determine blocks. No definition uses fuel: loops are structural, have a termination
  proof, or are \<open>partial_function (option)\<close>, where None is a loop that never returns.

  \<^bold>\<open>Not modelled.\<close> The event loop of \<open>consensus/sabft.go\<close> with its channels, timers, network requests
  and calls of the agreement library, and with it the glue of \<open>pushBlock\<close>, \<open>switchFork\<close> and \<open>commit\<close>,
  whose parts are modelled one by one; the production of blocks (\<open>generateBlockNoLock\<close> stops by a wall
  clock); the key-value engines, the block log and other files; network, RPC, plug-ins, command line,
  wallet and logging, which are input and output; the interpreter and the ABI of contracts. Locks are
  left out: each operation is atomic.
\<close>

section \<open>The ledger of the chain\<close>

text \<open>
  C1. In every state a chain of blocks reaches from genesis the recorded totals agree with what is
  held: the coins of accounts and contracts add up to the total of coins, the vests of accounts,
  reward pools and ticket bonus never exceed the total of vests, the staked vests are those staked
  for accounts; and the supply never exceeds the total supply. The vests are only bounded from
  above: shares of the ticket bonus that cannot be credited stay in the total. Contracts are assumed not to change
  an administrator after they moved vests or called another contract (\<open>env_admin_safe\<close>), and the chain
  to be shorter than 2^32 - 2 blocks, when the year counter would wrap.
\<close>

theorem supply_bounded:
  assumes "chain_state key n s" and "n < 2 ^ 32 - 2"
  shows "uint (dp_TotalCos (db_props s)) = held_cos s \<and>
    held_vest s \<le> uint (dp_TotalVest (db_props s)) \<and>
    uint (dp_StakeVest (db_props s)) = isum (\<lambda>_ a. unat (acc_StakeVestForMe a)) (db_accounts s) \<and>
    totalSupply s \<le> uint COSTotalSupply"
  using chain_state_ok [OF assms] mint_schedule_supply [of s]
  by (simp add: chain_ok_def state_ok_def ledger_ok_def)

theorem supply_bounded_witness:
  "\<exists>s. chain_state [1] 1 s \<and> totalSupply s \<le> uint COSTotalSupply"
proof -
  obtain c where "pushBlock ex_env False ex_block ex_pool = (c, None)"
    using ex_block_accepted by (cases "pushBlock ex_env False ex_block ex_pool") simp
  then have "chain_state [1] (Suc 0) (pl_db c)"
    unfolding ex_pool_def by (rule chain_state.block [OF chain_state.genesis ex_vm_safe])
  then show ?thesis using supply_bounded [of "[1]" "Suc 0" "pl_db c"] by auto
qed

text \<open>
  C3. A transaction moves value but neither creates nor destroys it, whether it succeeds or fails:
  the totals stay in agreement with what is held and the supply stays the same. The machine that runs
  contracts is assumed never to set an administrator after moving vests or calling another contract
  (\<open>env_admin_safe\<close>); without that the claim is false.
\<close>

theorem transaction_conserves:
  assumes "env_admin_safe (pe_vm env)" and "applyTransactionOnDb env entry s = (r, Some s')"
    and "ledger_ok s"
  shows "ledger_ok s' \<and> totalSupply s' = totalSupply s \<and> vest_lost s' = vest_lost s"
  using ledger.R_applyTransactionOnDb [OF assms(1,2)] assms(3) by (simp add: ledger_kept_def books_def)

theorem transaction_conserves_witness:
  "\<exists>r s'. applyTransactionOnDb ex_env (ex_entry DefaultAccountCreateFee) (initGenesis [1]) = (r, Some s') \<and>
     ledger_ok s' \<and> totalSupply s' = totalSupply (initGenesis [1])"
  using ex_entry_applied transaction_conserves [OF ex_vm_safe] genesis_ok [of "[1]"]
  by (auto simp: chain_ok_def state_ok_def)

text \<open>
  C4. A transaction whose receipt is not that of success changes nothing but stamina columns of
  accounts.
\<close>

theorem failed_transaction_pays_only:
  assumes "applyTransactionOnDb env entry s = (r, Some s')" and "rc_Status r \<noteq> StatusSuccess"
  shows "stamina_step\<^sup>*\<^sup>* s s'"
  using assms
  by (auto simp: applyTransactionOnDb_def Let_def dest!: PayGas_steps split: prod.splits sum.splits if_splits)

theorem failed_transaction_pays_only_witness:
  "\<exists>r s'. applyTransactionOnDb ex_env (ex_entry 2) (initGenesis [1]) = (r, Some s') \<and>
     stamina_step\<^sup>*\<^sup>* (initGenesis [1]) s'"
proof -
  obtain s' where "applyTransactionOnDb ex_env (ex_entry 2) (initGenesis [1]) =
     (\<lparr>rc_Status = StatusFailDeductStamina, rc_NetUsage = 1000, rc_CpuUsage = 1\<rparr>, Some s')"
    using ex_entry_failed by blast
  then show ?thesis
    using failed_transaction_pays_only [of ex_env "ex_entry 2" "initGenesis [1]"]
    by (fastforce simp: StatusFailDeductStamina_def StatusSuccess_def)
qed

text \<open>
  C7. No transaction, contract calls included, touches the clock, the head block and its producer, the
  year, budget and minted amount of the mint schedule, the boot flag or any of the four global vote
  weights, nor the producers' schedule; and it removes no row of the tables of accounts, block
  producers, posts and votes. (Rows of other tables, such as votes for producers and tickets, are
  removed by the operations that take them back.)
\<close>

theorem transaction_frame:
  assumes "applyTransactionOnDb env entry s = (r, Some s')"
  shows "dp_HeadBlockId (db_props s') = dp_HeadBlockId (db_props s) \<and>
    dp_HeadBlockNumber (db_props s') = dp_HeadBlockNumber (db_props s) \<and>
    dp_Time (db_props s') = dp_Time (db_props s) \<and>
    dp_CurrentBlockProducer (db_props s') = dp_CurrentBlockProducer (db_props s) \<and>
    dp_IthYear (db_props s') = dp_IthYear (db_props s) \<and>
    dp_AnnualBudget (db_props s') = dp_AnnualBudget (db_props s) \<and>
    dp_AnnualMinted (db_props s') = dp_AnnualMinted (db_props s) \<and>
    dp_BlockProducerBootCompleted (db_props s') = dp_BlockProducerBootCompleted (db_props s) \<and>
    dp_WeightedVpsPost (db_props s') = dp_WeightedVpsPost (db_props s) \<and>
    dp_WeightedVpsReply (db_props s') = dp_WeightedVpsReply (db_props s) \<and>
    dp_WeightedVpsDapp (db_props s') = dp_WeightedVpsDapp (db_props s) \<and>
    dp_WeightedVpsVote (db_props s') = dp_WeightedVpsVote (db_props s) \<and>
    db_schedule s' = db_schedule s \<and>
    keeps_rows (db_accounts s) (db_accounts s') \<and> keeps_rows (db_producers s) (db_producers s') \<and>
    keeps_rows (db_posts s) (db_posts s') \<and> keeps_rows (db_votes s) (db_votes s')"
proof -
  have rel: "op_rel s s'" by (rule ops.R_applyTransactionOnDb [OF TrueI assms])
  then have p: "f (db_props s') = f (db_props s)" if "\<And>p. f (fixed_props p) = f p"
    for f :: "dynamic_properties \<Rightarrow> 'a" using that unfolding op_rel_def by metis
  note q = p [of dp_HeadBlockId] p [of dp_HeadBlockNumber] p [of dp_Time] p [of dp_CurrentBlockProducer]
    p [of dp_IthYear] p [of dp_AnnualBudget] p [of dp_AnnualMinted] p [of dp_BlockProducerBootCompleted]
    p [of dp_WeightedVpsPost] p [of dp_WeightedVpsReply] p [of dp_WeightedVpsDapp] p [of dp_WeightedVpsVote]
  show ?thesis using q rel by (simp add: op_rel_defs)
qed

theorem transaction_frame_witness:
  "\<exists>r s'. applyTransactionOnDb ex_env (ex_entry DefaultAccountCreateFee) (initGenesis [1]) = (r, Some s') \<and>
     dp_HeadBlockNumber (db_props s') = 0 \<and> dp_IthYear (db_props s') = dp_IthYear genesis_props \<and>
     dp_WeightedVpsVote (db_props s') = dp_WeightedVpsVote genesis_props"
  using ex_entry_applied transaction_frame [of ex_env "ex_entry DefaultAccountCreateFee" "initGenesis [1]"]
  by (fastforce simp: initGenesis_def genesis_props_def)

text \<open>
  C8. Paying for the resources a transaction used never panics, whatever the transaction recorded:
  a transaction is dropped without a receipt of payment only if it panicked before it recorded any
  gas.
\<close>

theorem payment_never_panics:
  "snd (applyTransactionOnDb env entry s) = None \<longleftrightarrow>
     (\<exists>c e. trx_body env entry s = (c, Inl e) \<and> \<not> HasGasFee c)"
proof -
  obtain c res where body: "trx_body env entry s = (c, res)" by fastforce
  obtain s1 c1 where "PayGas s c = Inr (s1, c1)" using PayGas_total by blast
  moreover obtain s2 c2 where "PayGas (tc_db c) c = Inr (s2, c2)" using PayGas_total by blast
  ultimately show ?thesis
    using body by (cases res) (auto simp: applyTransactionOnDb_def Let_def)
qed

section \<open>The economy\<close>

text \<open>
  C5. Minting issues exactly the amount the schedule gives the block: nothing before the chain has
  booted, then one share of the year's budget or what is left of it. The supply grows by that
  amount, the totals stay in agreement with what is held, so the split between the block producer
  and the four reward pools loses nothing.
\<close>

theorem mint_exact:
  assumes "Mint s = Inr s'" and "ledger_ok s"
  shows "ledger_ok s' \<and> vest_lost s' = vest_lost s \<and> totalSupply s' = totalSupply s + int (issue_of s)"
  by (rule Mint_ledger [OF assms])

definition ex_booted :: db where
  "ex_booted = (initGenesis [1])\<lparr>db_props := genesis_props\<lparr>dp_BlockProducerBootCompleted := True\<rparr>\<rparr>"

lemma ex_booted_mint: "\<exists>s'. Mint ex_booted = Inr s'" "0 < issue_of ex_booted" "ledger_ok ex_booted"
proof -
  show "ledger_ok ex_booted"
    using genesis_ok [of "[1]"]
    by (simp add: ex_booted_def chain_ok_def state_ok_def ledger_defs initGenesis_def)
  have none: "minted_this_year (db_props ex_booted) = 0"
    by (simp add: ex_booted_def minted_this_year_def genesis_props_def)
  show "0 < issue_of ex_booted"
    by (simp add: issue_of_def block_issue_def none Let_def)
      (simp add: ex_booted_def genesis_props_def budget_of_def)
  have z: "vest_Add x 0 = Inr x" "vest_Add 0 x = Inr x" for x by (simp_all add: vest_Add_def)
  show "\<exists>s'. Mint ex_booted = Inr s'"
    by (simp add: Mint_def mint_year_closed year_props_def none)
      (simp add: ex_booted_def initGenesis_def genesis_props_def genesis_account_def new_account_def reward_bp_def
        exec_tables producer_Modify_def updateBpVoteValue_def z Let_def del: One_nat_def)
qed

theorem mint_exact_witness:
  "\<exists>s'. Mint ex_booted = Inr s' \<and> ledger_ok s' \<and> totalSupply s' = totalSupply ex_booted + int (issue_of ex_booted) \<and>
     totalSupply ex_booted < totalSupply s'"
proof -
  obtain s' where m: "Mint ex_booted = Inr s'" using ex_booted_mint(1) by blast
  from mint_exact [OF m ex_booted_mint(3)] m ex_booted_mint(2) show ?thesis by (intro exI [of _ s']) simp
qed

text \<open>
  C6. The cash-out of posts never overdraws its pool: whatever the items and their weights, the
  rewards it pays are at most the pool, and the vests of all accounts grow by exactly what the pool
  loses.
\<close>

theorem cashout_within_pool:
  assumes "pay_items finalizePostCashout (global + SumItemsWvp items) pool items 0 s = Inr (claimed, s')"
    and "list_all (\<lambda>it. 0 \<le> it_wvp it) items" and "0 \<le> global"
  shows "0 \<le> claimed \<and> claimed \<le> uint pool \<and>
    isum (\<lambda>_ a. unat (acc_Vest a) + unat (acc_StakeVestForMe a) + unat (acc_DeliveringVest a)) (db_accounts s') =
    isum (\<lambda>_ a. unat (acc_Vest a) + unat (acc_StakeVestForMe a) + unat (acc_DeliveringVest a)) (db_accounts s) + claimed"
  using post_fin.cashout_pays [OF assms] by (simp add: paid_out_def purse_def)

definition ex_items :: "item list" where
  "ex_items = [\<lparr>it_beneficiary = COSInitMiner, it_wvp = 3, it_postId = 1\<rparr>]"

definition ex_posts :: db where
  "ex_posts = (initGenesis [1])\<lparr>db_posts := [(1, \<lparr>po_PostId = 1, po_Author = COSInitMiner, po_Title = '''',
     po_Body = '''', po_Tags = [], po_Created = 0, po_Depth = 0, po_Children = 0, po_RootId = 0, po_ParentId = 0,
     po_VoteCnt = 0, po_Beneficiaries = [], po_CashoutBlockNum = 0, po_WeightedVp = ''0'', po_Rewards = 0,
     po_DappRewards = 0, po_Ticket = 0, po_Copyright = 0, po_CopyrightMemo = ''''\<rparr>)]\<rparr>"

theorem cashout_within_pool_witness:
  "\<exists>claimed s'. pay_items finalizePostCashout (5 + SumItemsWvp ex_items) 80 ex_items 0 ex_posts = Inr (claimed, s') \<and>
     0 \<le> claimed \<and> claimed \<le> uint (80 :: vest)"
proof -
  have "\<exists>s'. pay_items finalizePostCashout (5 + SumItemsWvp ex_items) 80 ex_items 0 ex_posts = Inr (30, s')"
    by (simp add: ex_items_def ex_posts_def SumItemsWvp_def processRewardForAccount_def ProportionAlgorithm_def
        big_Div_def finalizePostCashout_def post_Modify_def updateBpVoteValue_def exec DefaultReputation_def
        MinReputation_def cong: exec_cong)
  then obtain s' where "pay_items finalizePostCashout (5 + SumItemsWvp ex_items) 80 ex_items 0 ex_posts = Inr (30, s')" ..
  with cashout_within_pool [OF this] show ?thesis by (auto simp: ex_items_def)
qed

text \<open>
  C15. One instalment of a power-down leaves the borrowed vests and the account fee alone, and pays
  at most the agreed rate and at most what remains of the agreed amount.
\<close>

theorem powerdown_bounds:
  assumes "powerdown_quota acc fee = Inr q"
  shows "uint q + uint (acc_BorrowedVest acc) \<le> uint (acc_Vest acc) \<and>
    (q \<noteq> 0 \<longrightarrow> uint q + uint (acc_BorrowedVest acc) + uint fee \<le> uint (acc_Vest acc)) \<and>
    q \<le> acc_EachPowerdownRate acc \<and> uint q + uint (acc_HasPowerdown acc) \<le> uint (acc_ToPowerdown acc)"
proof -
  from assms obtain own remaining where own: "uint own + uint (acc_BorrowedVest acc) = uint (acc_Vest acc)"
    and rem: "uint remaining + uint (acc_HasPowerdown acc) = uint (acc_ToPowerdown acc)"
    and q: "q = Min_u64 (if own < fee then 0 else own - fee) (Min_u64 (acc_EachPowerdownRate acc) remaining)"
    by (simp only: powerdown_quota_def Let_def rbind_Inr_iff vest_Sub_uint sum.inject) blast
  have min: "uint (Min_u64 x y) \<le> uint x" "uint (Min_u64 x y) \<le> uint y" for x y
    by (simp_all add: Min_u64_def word_less_def)
  have le: "uint q \<le> uint (if own < fee then 0 else own - fee)" "uint q \<le> uint (acc_EachPowerdownRate acc)"
    "uint q \<le> uint remaining"
    unfolding q by (rule min(1), rule order_trans [OF min(2) min(1)], rule order_trans [OF min(2) min(2)])
  have room: "uint q \<le> uint own \<and> (q \<noteq> 0 \<longrightarrow> uint q + uint fee \<le> uint own)"
  proof -
    have "uint (own - fee) = uint own - uint fee" if "\<not> own < fee"
      using that by (simp only: not_less uint_minus_simple_alt)
    moreover have "q = 0" if "uint q \<le> 0" using that by (simp add: uint_0_iff order_antisym)
    ultimately show ?thesis
      using le(1) by (cases "own < fee") (auto intro: order_trans [of _ "uint own - uint fee"])
  qed
  show ?thesis
    using own rem le(2,3) room by (auto simp: word_le_def)
qed

theorem powerdown_bounds_witness:
  "powerdown_quota ((new_account COSInitMiner '''' 0 500 [])\<lparr>acc_ToPowerdown := 130, acc_EachPowerdownRate := 10,
     acc_BorrowedVest := 100\<rparr>) 394 = Inr 6 \<and> uint (6 :: u64) + uint (100 :: u64) \<le> uint (500 :: u64)"
proof -
  have "powerdown_quota ((new_account COSInitMiner '''' 0 500 [])\<lparr>acc_ToPowerdown := 130, acc_EachPowerdownRate := 10,
     acc_BorrowedVest := 100\<rparr>) 394 = Inr 6"
    by (simp add: powerdown_quota_def new_account_def vest_Sub_def Min_u64_def Let_def)
  from powerdown_bounds [OF this] this show ?thesis by (simp add: new_account_def)
qed

text \<open>
  The ticket bonus is divided without loss: the shares of the producers, the first of whom
  gets the remainder of the division, add up to the bonus.
\<close>

theorem bonus_divided:
  assumes "bpNames \<noteq> []" and "length bpNames < 2 ^ 64"
  shows "sum_list (map (\<lambda>x. unat (snd x)) (bonus_shares bonus bpNames)) = unat bonus"
  by (rule bonus_shares_sum [OF assms])

theorem bonus_divided_witness:
  "sum_list (map (\<lambda>x. unat (snd x)) (bonus_shares 11 [''a'', ''b'', ''c''])) = 11 \<and>
   bonus_shares 11 [''a'', ''b'', ''c''] = [(''a'', 5), (''b'', 3), (''c'', 3)]"
  using bonus_divided [of "[''a'', ''b'', ''c'']" 11]
  by (simp add: bonus_shares_def Let_def)

section \<open>Where the code does not keep its promises\<close>

text \<open>
  C20. A contract of the system account that sends vests to a user and then sets the reputation
  administrator breaks the ledger: the setter stores the copy of the properties the machine was
  created with, so the recorded total of coins no longer is the sum of the balances.
\<close>

theorem stale_properties_break_ledger:
  assumes "ledger_ok (vs_db st)" and "vs_props st = db_props (vs_db st)"
    and "lift_db (TransferFromContractToUserVest contract owner to amount) st = Inr st1" and "amount \<noteq> 0"
  shows "ledger_ok (vs_db st1) \<and> \<not> ledger_ok (vs_db (native_SetReputationAdmin name st1))"
proof -
  from assms(3) obtain s1 where s1: "TransferFromContractToUserVest contract owner to amount (vs_db st) = Inr s1"
    and st1: "st1 = st\<lparr>vs_db := s1\<rparr>"
    by (auto simp: lift_db_def rbind_Inr_iff)
  have ok: "ledger_ok s1"
    using ContractToUserVest_conserves s1 assms(1) by (auto simp: conserves_def)
  have "uint (dp_TotalCos (db_props s1)) = uint (dp_TotalCos (db_props (vs_db st))) - uint amount"
    using s1 by (auto simp: TransferFromContractToUserVest_def TransferToVest_def res_inv amount_uint split: if_splits)
  moreover have "uint amount \<noteq> 0" using assms(4) by (simp add: uint_0_iff)
  ultimately show ?thesis
    using ok assms(2) by (auto simp: st1 native_SetReputationAdmin_def Let_def ledger_ok_def held_cos_def)
qed

definition ex_contract :: contract where
  "ex_contract = \<lparr>ct_CreatedTime = 0, ct_Abi = '''', ct_Balance = 0, ct_Code = [], ct_ApplyCount = 0,
     ct_Upgradeable = False, ct_Hash = [], ct_Url = '''', ct_Describe = ''''\<rparr>"

definition ex_contract_db :: db where
  "ex_contract_db = (initGenesis [1])\<lparr>
     db_accounts := [(COSInitMiner, (genesis_account [1])\<lparr>acc_Balance := COSInitSupply - 7\<rparr>)],
     db_contracts := [((COSSysAccount, ''admin''), ex_contract\<lparr>ct_Balance := 7\<rparr>)]\<rparr>"

lemma ex_contract_ledger: "ledger_ok ex_contract_db"
  by (simp add: ex_contract_db_def ex_contract_def initGenesis_def genesis_account_def genesis_props_def
      new_account_def ledger_defs isum_def tbl_sum_def COSInitSupply_def COSTokenDecimals_def)

lemma ex_contract_transfer:
  "\<exists>s. TransferFromContractToUserVest ''admin'' COSSysAccount COSInitMiner 7 ex_contract_db = Inr s"
  by (simp add: ex_contract_db_def ex_contract_def TransferFromContractToUserVest_def contract_Get_def
      contract_Modify_def set_ct_Balance_def exec cong: exec_cong)

theorem stale_properties_break_ledger_witness:
  "\<exists>st1. lift_db (TransferFromContractToUserVest ''admin'' COSSysAccount COSInitMiner 7)
      \<lparr>vs_db = ex_contract_db, vs_props = db_props ex_contract_db, vs_extra = 0\<rparr> = Inr st1 \<and>
     \<not> ledger_ok (vs_db (native_SetReputationAdmin ''admin'' st1))"
proof -
  obtain s where s: "TransferFromContractToUserVest ''admin'' COSSysAccount COSInitMiner 7 ex_contract_db = Inr s"
    using ex_contract_transfer by blast
  let ?st = "\<lparr>vs_db = ex_contract_db, vs_props = db_props ex_contract_db, vs_extra = 0\<rparr>"
  have "lift_db (TransferFromContractToUserVest ''admin'' COSSysAccount COSInitMiner 7) ?st = Inr (?st\<lparr>vs_db := s\<rparr>)"
    using s by (simp add: lift_db_def)
  then show ?thesis
    using stale_properties_break_ledger [of ?st "''admin''" COSSysAccount COSInitMiner 7] ex_contract_ledger by auto
qed

text \<open>
  C21. Vests a contract sends to an account are not added to the votes of the producer the account
  votes for. The next reward of that account then subtracts more from the votes than they hold: once
  a voter whose votes were all of a producer's votes has received vests from a contract, every block
  that voter produces panics in \<open>Mint\<close>.
\<close>

theorem contract_vest_stalls_mint:
  assumes "tbl_get (db_accounts s) voter = Some a"
    and "tbl_UniQuery bvo_VoterName voter (db_bpVotes s) = Some (bp, voter)"
    and "tbl_get (db_producers s) bp = Some b" and "bv_VoteVest (bp_BpVest b) = acc_Vest a"
    and "TransferFromContractToUserVest contract owner voter amount s = Inr s1" and "amount \<noteq> 0"
    and "dp_BlockProducerBootCompleted (db_props s)" and "dp_CurrentBlockProducer (db_props s) = voter"
  shows "\<exists>e. Mint s1 = Inl e"
proof -
  from assms(1,5) obtain a1 where a1: "tbl_get (db_accounts s1) voter = Some a1"
      "uint (acc_Vest a1) = uint (acc_Vest a) + uint amount"
    and same: "db_bpVotes s1 = db_bpVotes s" "db_producers s1 = db_producers s"
      "dp_BlockProducerBootCompleted (db_props s1)" "dp_CurrentBlockProducer (db_props s1) = voter"
    using assms(7,8)
    by (auto simp: TransferFromContractToUserVest_def TransferToVest_def res_inv amount_uint tbl_get_put split: if_splits)
  have less: "acc_Vest a < acc_Vest a1"
  proof -
    have "uint amount \<noteq> 0" using assms(6) by (simp add: uint_0_iff)
    then have "0 < uint amount" by (simp add: order_less_le)
    with a1(2) show ?thesis by (simp add: word_less_def)
  qed
  have stall: "\<exists>e. updateBpVoteValue voter (acc_Vest a1) v u = Inl e"
    if "db_bpVotes u = db_bpVotes s1" "tbl_get (db_producers u) bp = Some b'"
      "bp_BpVest b' = bp_BpVest b" for u v b'
    using that assms(2,4) less same
    by (simp add: updateBpVoteValue_def producer_Modify_def tbl_Modify_def CheckExist_def vest_Sub_def)
  have "\<exists>e. reward_bp voter r (s1\<lparr>db_props := p\<rparr>) = Inl e" for r p
  proof (cases "vest_Add r (acc_Vest a1)")
    case (Inr v)
    define u where "u = s1\<lparr>db_props := p, db_accounts := tbl_put voter (a1\<lparr>acc_Vest := v\<rparr>) (db_accounts s1)\<rparr>"
    have credit: "account_Modify voter (\<lambda>t. Inr (t\<lparr>acc_Vest := v\<rparr>)) (s1\<lparr>db_props := p\<rparr>) = Inr u"
      using a1(1) by (simp add: u_def account_Modify_Inr)
    show ?thesis
    proof (cases "producer_Modify voter (\<lambda>t. Inr (t\<lparr>bp_GenBlockCount := bp_GenBlockCount t + 1\<rparr>)) u")
      case (Inl e)
      with Inr credit a1(1) show ?thesis
        by (simp add: reward_bp_def MustExist_def CheckExist_def account_Get_def tbl_Get_def Let_def)
    next
      case (Inr u2)
      then have "\<exists>b'. tbl_get (db_producers u2) bp = Some b' \<and> bp_BpVest b' = bp_BpVest b"
        and "db_bpVotes u2 = db_bpVotes s1"
        using assms(3) same(2) by (auto simp: res_inv u_def tbl_get_put)
      with stall Inr credit a1(1) \<open>vest_Add r (acc_Vest a1) = Inr v\<close> show ?thesis
        by (fastforce simp: reward_bp_def MustExist_def CheckExist_def account_Get_def tbl_Get_def Let_def)
    qed
  qed (use a1(1) in \<open>simp add: reward_bp_def MustExist_def CheckExist_def account_Get_def tbl_Get_def Let_def\<close>)
  then obtain e where "reward_bp voter (bpReward (of_nat (block_issue (db_props s1))))
      (s1\<lparr>db_props := year_props (db_props s1)\<rparr>) = Inl e" by blast
  with same show ?thesis by (simp add: Mint_def mint_year_closed)
qed

definition ex_stall_db :: db where
  "ex_stall_db = ex_contract_db\<lparr>
     db_bpVotes := [((COSInitMiner, COSInitMiner), \<lparr>bvo_VoterName = COSInitMiner, bvo_VoteTime = 0\<rparr>)],
     db_props := genesis_props\<lparr>dp_BlockProducerBootCompleted := True\<rparr>\<rparr>"

lemma ex_stall_transfer:
  "\<exists>s. TransferFromContractToUserVest ''admin'' COSSysAccount COSInitMiner 7 ex_stall_db = Inr s"
  by (simp add: ex_stall_db_def ex_contract_db_def ex_contract_def TransferFromContractToUserVest_def contract_Get_def
      contract_Modify_def set_ct_Balance_def exec cong: exec_cong)

theorem contract_vest_stalls_mint_witness:
  "\<exists>s1 e. TransferFromContractToUserVest ''admin'' COSSysAccount COSInitMiner 7 ex_stall_db = Inr s1 \<and> Mint s1 = Inl e"
proof -
  obtain s1 where s1: "TransferFromContractToUserVest ''admin'' COSSysAccount COSInitMiner 7 ex_stall_db = Inr s1"
    using ex_stall_transfer by blast
  have "\<exists>e. Mint s1 = Inl e"
    by (rule contract_vest_stalls_mint [where a = "(genesis_account [1])\<lparr>acc_Balance := COSInitSupply - 7\<rparr>"
          and b = "genesis_producer [1]" and bp = COSInitMiner, OF _ _ _ _ s1])
       (simp_all add: ex_stall_db_def ex_contract_db_def initGenesis_def genesis_account_def new_account_def
         genesis_producer_def genesis_props_def tbl_get_def tbl_UniQuery_def)
  with s1 show ?thesis by blast
qed

end
